(* ===== verification/Prelude.thy ===== *)
theory Prelude
  imports Main "HOL-Library.Word" "HOL-Library.List_Lexorder" "HOL-Library.Char_ord"
begin

text \<open>
  The shared vocabulary of the development.  A Python \<^verbatim>\<open>bytes\<close> value is a list of
  8-bit words.  A Python \<^verbatim>\<open>str\<close> is kept in its UTF-8 form, one \<^typ>\<open>char\<close> per code
  unit, so \<^verbatim>\<open>.encode("utf-8")\<close> is a change of representation only and the ASCII
  strings the program validates are ordinary string literals.  Python's \<^verbatim>\<open>len\<close> and
  slicing count code points, which \<open>py_len\<close> and \<open>py_take\<close> do on that form.

  The locale \<open>codec\<close> is the contract of every encoder and decoder pair of the program:
  base64url, hexadecimal, UUID text, JSON text and the canonical documents.
\<close>

section \<open>Bytes and strings\<close>

type_synonym byte = "8 word"
type_synonym bytes = "byte list"

text \<open>\<open>byte_simps\<close> collects the facts that move between bytes, naturals and characters.\<close>

named_theorems byte_simps

definition byte_of_char :: "char \<Rightarrow> byte" where
  "byte_of_char c = of_nat (of_char c)"

definition char_of_byte :: "byte \<Rightarrow> char" where
  "char_of_byte b = char_of (unat b)"

definition utf8_encode :: "string \<Rightarrow> bytes" where
  "utf8_encode s = map byte_of_char s"

definition utf8_units :: "bytes \<Rightarrow> string" where
  "utf8_units bs = map char_of_byte bs"

lemma unat_byte_less [simp, byte_simps]: "unat (b :: byte) < 256"
  using unsigned_less [of b, where 'a = nat] by simp

lemma of_nat_unat_byte [byte_simps]: "(of_nat (unat b) :: byte) = b"
  by simp

lemma unat_of_nat_byte [byte_simps]: "n < 256 \<Longrightarrow> unat (of_nat n :: byte) = n"
  by (simp add: unat_of_nat)

lemma char_of_byte_of_char [simp, byte_simps]: "char_of_byte (byte_of_char c) = c"
  by (simp add: char_of_byte_def byte_of_char_def unat_of_nat)

lemma byte_of_char_of_byte [simp, byte_simps]: "byte_of_char (char_of_byte b) = b"
  by (simp add: char_of_byte_def byte_of_char_def of_char_of)

lemma utf8_units_encode [simp, byte_simps]: "utf8_units (utf8_encode s) = s"
  by (simp add: utf8_units_def utf8_encode_def comp_def)

lemma utf8_encode_units [simp, byte_simps]: "utf8_encode (utf8_units bs) = bs"
  by (simp add: utf8_units_def utf8_encode_def comp_def)

lemma utf8_encode_eq_iff [simp]: "utf8_encode s = utf8_encode t \<longleftrightarrow> s = t"
  by (metis utf8_units_encode)

lemma utf8_encode_append [simp]: "utf8_encode (s @ t) = utf8_encode s @ utf8_encode t"
  by (simp add: utf8_encode_def)

lemma length_utf8_encode [simp]: "length (utf8_encode s) = length s"
  by (simp add: utf8_encode_def)

lemma char_of_nat_eq_iff: "char_of (n :: nat) = c \<longleftrightarrow> n mod 256 = of_char c"
  by (metis char_of_char of_char_of)

text \<open>Code points: a UTF-8 continuation unit (\<open>10xxxxxx\<close>) starts no code point.\<close>

definition continuation_unit :: "char \<Rightarrow> bool" where
  "continuation_unit c \<longleftrightarrow> 128 \<le> (of_char c :: nat) \<and> (of_char c :: nat) < 192"

definition is_ascii :: "char \<Rightarrow> bool" where
  "is_ascii c \<longleftrightarrow> (of_char c :: nat) < 128"

definition py_len :: "string \<Rightarrow> nat" where
  "py_len s = length (filter (\<lambda>c. \<not> continuation_unit c) s)"

fun py_take :: "nat \<Rightarrow> string \<Rightarrow> string" where
  "py_take n [] = []"
| "py_take n (c # cs) =
     (if continuation_unit c then c # py_take n cs
      else case n of 0 \<Rightarrow> [] | Suc m \<Rightarrow> c # py_take m cs)"

lemma py_len_take: "py_len (py_take n s) \<le> n"
  by (induction n s rule: py_take.induct) (auto simp: py_len_def split: nat.splits)

lemma py_len_ascii: "list_all is_ascii s \<Longrightarrow> py_len s = length s"
  by (induction s) (auto simp: py_len_def is_ascii_def continuation_unit_def)

lemma py_len_le_length: "py_len s \<le> length s"
  by (simp add: py_len_def)

lemma py_take_short: "py_len s \<le> n \<Longrightarrow> py_take n s = s"
  by (induction n s rule: py_take.induct) (auto simp: py_len_def split: nat.splits if_splits)

section \<open>Results of operations that raise\<close>

text \<open>
  A Python call that may raise returns a sum: \<^const>\<open>Inl\<close> the exception, \<^const>\<open>Inr\<close>
  the value.  \<open>sum_bind\<close> is sequencing, which stops at the first exception.
\<close>

definition sum_bind :: "'e + 'a \<Rightarrow> ('a \<Rightarrow> 'e + 'b) \<Rightarrow> 'e + 'b" where
  "sum_bind m f = (case m of Inl e \<Rightarrow> Inl e | Inr x \<Rightarrow> f x)"

lemma sum_bind_simps [simp]:
  "sum_bind (Inl e) f = Inl e"
  "sum_bind (Inr x) f = f x"
  by (simp_all add: sum_bind_def)

lemma sum_bind_eq_Inr:
  "sum_bind m f = Inr y \<longleftrightarrow> (\<exists>x. m = Inr x \<and> f x = Inr y)"
  by (cases m) auto

lemma sum_bind_eq_Inl:
  "sum_bind m f = Inl e \<longleftrightarrow> m = Inl e \<or> (\<exists>x. m = Inr x \<and> f x = Inl e)"
  by (cases m) auto

section \<open>The codec contract\<close>

locale codec =
  fixes wf :: "'a \<Rightarrow> bool"
    and enc :: "'a \<Rightarrow> 'b"
    and dec :: "'b \<Rightarrow> 'c + 'a"
  assumes dec_enc: "wf a \<Longrightarrow> dec (enc a) = Inr a"
begin

lemma enc_eq_iff: "wf a \<Longrightarrow> wf b \<Longrightarrow> enc a = enc b \<longleftrightarrow> a = b"
  by (metis dec_enc sum.inject(2))

lemma enc_inj_on: "inj_on enc {a. wf a}"
  by (rule inj_onI) (simp add: enc_eq_iff)

lemma enc_neq: "wf a \<Longrightarrow> wf b \<Longrightarrow> a \<noteq> b \<Longrightarrow> enc a \<noteq> enc b"
  by (simp add: enc_eq_iff)

end

section \<open>Decimal integers, as \<open>str(int)\<close> prints them\<close>

definition digit_char :: "nat \<Rightarrow> char" where
  "digit_char d = char_of (48 + d)"

definition digit_value :: "char \<Rightarrow> nat option" where
  "digit_value c =
     (let n = (of_char c :: nat) in if 48 \<le> n \<and> n \<le> 57 then Some (n - 48) else None)"

fun show_nat :: "nat \<Rightarrow> string" where
  "show_nat n = (if n < 10 then [digit_char n] else show_nat (n div 10) @ [digit_char (n mod 10)])"

declare show_nat.simps [simp del]

definition show_int :: "int \<Rightarrow> string" where
  "show_int i = (if i < 0 then CHR ''-'' # show_nat (nat (- i)) else show_nat (nat i))"

lemma digit_value_char [simp]: "d < 10 \<Longrightarrow> digit_value (digit_char d) = Some d"
  by (simp add: digit_value_def digit_char_def)

lemma digit_char_eq_iff: "d < 10 \<Longrightarrow> e < 10 \<Longrightarrow> digit_char d = digit_char e \<longleftrightarrow> d = e"
  by (metis digit_value_char option.inject)

text \<open>The reader of digits: the value of a list of digits, most significant first.\<close>

fun read_digits :: "nat \<Rightarrow> string \<Rightarrow> nat option" where
  "read_digits acc [] = Some acc"
| "read_digits acc (c # cs) =
     (case digit_value c of None \<Rightarrow> None | Some d \<Rightarrow> read_digits (10 * acc + d) cs)"

lemma read_digits_append:
  "read_digits acc (xs @ ys) =
     (case read_digits acc xs of None \<Rightarrow> None | Some a \<Rightarrow> read_digits a ys)"
  by (induction acc xs rule: read_digits.induct) (auto split: option.splits)

lemma read_digits_show_nat: "read_digits 0 (show_nat n) = Some n"
proof (induction n rule: show_nat.induct)
  case (1 n)
  then show ?case
    by (subst show_nat.simps) (auto simp: read_digits_append)
qed

lemma show_nat_nonempty [simp]: "show_nat n \<noteq> []"
  by (subst show_nat.simps) simp

lemma show_nat_digits: "c \<in> set (show_nat n) \<Longrightarrow> digit_value c \<noteq> None"
proof (induction n rule: show_nat.induct)
  case (1 n)
  then show ?case
    by (subst (asm) show_nat.simps) (auto split: if_splits)
qed

lemma show_nat_eq_iff [simp]: "show_nat m = show_nat n \<longleftrightarrow> m = n"
  by (metis option.inject read_digits_show_nat)

lemma digit_value_less: "digit_value c = Some d \<Longrightarrow> d < 10"
  by (auto simp: digit_value_def Let_def split: if_splits)

text \<open>A number printed with leading zeros to a fixed width (\<^verbatim>\<open>%02d\<close> and the like).\<close>

fun show_padded :: "nat \<Rightarrow> nat \<Rightarrow> string" where
  "show_padded 0 n = []"
| "show_padded (Suc w) n = show_padded w (n div 10) @ [digit_char (n mod 10)]"

lemma length_show_padded [simp]: "length (show_padded w n) = w"
  by (induction w arbitrary: n) auto

lemma read_digits_show_padded: "n < 10 ^ w \<Longrightarrow> read_digits 0 (show_padded w n) = Some n"
proof (induction w arbitrary: n)
  case 0
  then show ?case by simp
next
  case (Suc w)
  then have "n div 10 < 10 ^ w" by (simp add: less_mult_imp_div_less)
  with Suc.IH show ?case by (simp add: read_digits_append)
qed

lemma show_padded_inj:
  "m < 10 ^ w \<Longrightarrow> n < 10 ^ w \<Longrightarrow> show_padded w m = show_padded w n \<Longrightarrow> m = n"
  by (metis option.inject read_digits_show_padded)

section \<open>Lists and maps\<close>

lemma append_eq_same_length:
  "length xs = length us \<Longrightarrow> xs @ ys = us @ vs \<longleftrightarrow> xs = us \<and> ys = vs"
  by simp

lemma distinct_map_append_single:
  "distinct (map f (xs @ [x])) \<longleftrightarrow> distinct (map f xs) \<and> f x \<notin> f ` set xs"
  by auto

end
