(* ===== verification/Errors.thy ===== *)
theory Errors
  imports Prelude
begin

text \<open>
  The exceptions the program raises, catches or lets through, as one datatype, so that
  every \<^verbatim>\<open>except\<close> clause of the source is a test on a value.  The predicates
  follow Python's class hierarchy: pydantic's \<^verbatim>\<open>ValidationError\<close>,
  \<^verbatim>\<open>json.JSONDecodeError\<close> and \<^verbatim>\<open>UnicodeDecodeError\<close> are subclasses of
  \<^verbatim>\<open>ValueError\<close>; \<^verbatim>\<open>OverflowError\<close> and \<^verbatim>\<open>RecursionError\<close> are not.
\<close>

text \<open>One entry of \<^verbatim>\<open>ValidationError.errors()\<close>: the location parts and the message.\<close>

record verr =
  loc :: "string list"
  msg :: string

datatype exn =
    ValueError string
  | JSONDecodeError string
  | UnicodeDecodeError string
  | ValidationError "verr list"
  | RecursionError
  | OverflowError string
  | KeyConfigurationError string
  | SignatureVerificationError string
  | DecryptionError string
  | InvalidSignature
  | InvalidTag
  | IntegrityError
  | DatabaseError string
  | RedisError string
  | PublishError string
  | HTTPError string
  | RuntimeError string
  | OtherError string

definition is_value_error :: "exn \<Rightarrow> bool" where
  "is_value_error e = (case e of
      ValueError _ \<Rightarrow> True | JSONDecodeError _ \<Rightarrow> True | UnicodeDecodeError _ \<Rightarrow> True
    | ValidationError _ \<Rightarrow> True | _ \<Rightarrow> False)"

text \<open>\<^verbatim>\<open>CryptoError\<close> and its three subclasses in \<^verbatim>\<open>shared/crypto.py\<close>.\<close>

definition is_crypto_error :: "exn \<Rightarrow> bool" where
  "is_crypto_error e = (case e of
      KeyConfigurationError _ \<Rightarrow> True | SignatureVerificationError _ \<Rightarrow> True
    | DecryptionError _ \<Rightarrow> True | _ \<Rightarrow> False)"

text \<open>
  pydantic turns a \<^verbatim>\<open>ValueError\<close> raised by a validator into an entry of its error
  list; any other exception leaves the validation as it is.
\<close>

lemma is_value_error_simps [simp]:
  "is_value_error (ValueError m)" "is_value_error (ValidationError es)"
  "is_value_error (JSONDecodeError m)" "is_value_error (UnicodeDecodeError m)"
  "\<not> is_value_error RecursionError" "\<not> is_value_error (OverflowError m)"
  "\<not> is_value_error (DecryptionError m)" "\<not> is_value_error IntegrityError"
  by (simp_all add: is_value_error_def)

end
