(* ===== verification/Encoding.thy ===== *)
theory Encoding
  imports Prelude
begin

text \<open>
  The byte-to-text encodings of \<^verbatim>\<open>shared/crypto.py\<close>: unpadded base64url
  (\<open>b64u_encode\<close>, \<open>b64u_decode\<close>) over the standard library's \<^verbatim>\<open>base64\<close> and
  \<^verbatim>\<open>binascii\<close> routines, and the hexadecimal digests of \<^verbatim>\<open>hashlib\<close>.
  The main facts are the round trips, which interpret the locale \<open>codec\<close>, and what
  the decoder does on text that is not the output of the encoder.
\<close>

section \<open>The base64 alphabet\<close>

text \<open>The characters \<open>A-Za-z0-9+/\<close> at the positions 0 to 63.\<close>

definition b64_char :: "nat \<Rightarrow> char" where
  "b64_char n =
     (if n < 26 then char_of (65 + n)
      else if n < 52 then char_of (71 + n)
      else if n < 62 then char_of (n - 4)
      else if n = 62 then CHR ''+''
      else CHR ''/'')"

text \<open>The inverse table: \<^const>\<open>None\<close> for a character outside the alphabet.\<close>

definition b64_value :: "char \<Rightarrow> nat option" where
  "b64_value c =
     (let n = (of_char c :: nat) in
      if 65 \<le> n \<and> n \<le> 90 then Some (n - 65)
      else if 97 \<le> n \<and> n \<le> 122 then Some (n - 71)
      else if 48 \<le> n \<and> n \<le> 57 then Some (n + 4)
      else if n = 43 then Some 62
      else if n = 47 then Some 63
      else None)"

lemma b64_value_char [simp]: "n < 64 \<Longrightarrow> b64_value (b64_char n) = Some n"
  by (auto simp: b64_value_def b64_char_def Let_def)

lemma b64_char_eqD: "b64_char n = c \<Longrightarrow> n < 64 \<Longrightarrow> b64_value c = Some n"
  by auto

lemma b64_char_not_pad [simp]: "n < 64 \<Longrightarrow> b64_char n \<noteq> CHR ''=''"
  by (auto simp: b64_value_def dest: b64_char_eqD)

section \<open>\<open>binascii.b2a_base64\<close> and \<open>binascii.a2b_base64\<close>\<close>

fun b2a_base64 :: "nat list \<Rightarrow> string" where
  "b2a_base64 [] = []"
| "b2a_base64 [a] = [b64_char (a div 4), b64_char ((a mod 4) * 16), CHR ''='', CHR ''='']"
| "b2a_base64 [a, b] =
     [b64_char (a div 4), b64_char ((a mod 4) * 16 + b div 16),
      b64_char ((b mod 16) * 4), CHR ''='']"
| "b2a_base64 (a # b # c # rest) =
     b64_char (a div 4) # b64_char ((a mod 4) * 16 + b div 16)
     # b64_char ((b mod 16) * 4 + c div 64) # b64_char (c mod 64) # b2a_base64 rest"

text \<open>
  The decoder of CPython in its lenient mode, the one \<^verbatim>\<open>base64.b64decode\<close> uses:
  \<open>q\<close> is the position in the current quad, \<open>l\<close> the bits carried over and \<open>p\<close> the
  pad characters seen since the last data character.  A character outside the alphabet is
  skipped; the input ends at the pad that completes a quad; leftover bits are dropped.
\<close>

fun a2b_base64 :: "nat \<Rightarrow> nat \<Rightarrow> nat \<Rightarrow> string \<Rightarrow> nat list option" where
  "a2b_base64 q l p [] = (if q = 0 then Some [] else None)"
| "a2b_base64 q l p (c # cs) =
     (if c = CHR ''='' then
        (if 2 \<le> q then (if 4 \<le> q + Suc p then Some [] else a2b_base64 q l (Suc p) cs)
         else a2b_base64 q l p cs)
      else case b64_value c of
        None \<Rightarrow> a2b_base64 q l p cs
      | Some v \<Rightarrow>
          if q = 0 then a2b_base64 1 v 0 cs
          else if q = 1 then
            map_option (Cons (l * 4 + v div 16)) (a2b_base64 2 (v mod 16) 0 cs)
          else if q = 2 then
            map_option (Cons (l * 16 + v div 4)) (a2b_base64 3 (v mod 4) 0 cs)
          else map_option (Cons (l * 64 + v)) (a2b_base64 0 0 0 cs))"

lemma a2b_b2a: "list_all (\<lambda>n. n < 256) ns \<Longrightarrow> a2b_base64 0 0 0 (b2a_base64 ns) = Some ns"
  by (induction ns rule: b2a_base64.induct) (auto simp: algebra_simps)

section \<open>\<open>b64u_encode\<close> and \<open>b64u_decode\<close>\<close>

text \<open>\<^verbatim>\<open>urlsafe_b64encode\<close> translates two characters of the alphabet, and back.\<close>

definition to_urlsafe :: "char \<Rightarrow> char" where
  "to_urlsafe c = (if c = CHR ''+'' then CHR ''-'' else if c = CHR ''/'' then CHR ''_'' else c)"

definition from_urlsafe :: "char \<Rightarrow> char" where
  "from_urlsafe c = (if c = CHR ''-'' then CHR ''+'' else if c = CHR ''_'' then CHR ''/'' else c)"

definition rstrip_pad :: "string \<Rightarrow> string" where
  "rstrip_pad s = rev (dropWhile (\<lambda>c. c = CHR ''='') (rev s))"

definition b64u_encode :: "bytes \<Rightarrow> string" where
  "b64u_encode raw = rstrip_pad (map to_urlsafe (b2a_base64 (map unat raw)))"

text \<open>
  The decoder restores the padding, refuses non-ASCII text (the \<^verbatim>\<open>ValueError\<close> of
  \<^verbatim>\<open>base64._bytes_from_decode_data\<close>) and reports every failure as one message.
\<close>

definition b64u_error :: string where
  "b64u_error = ''value is not valid base64url''"

definition padding_needed :: "nat \<Rightarrow> nat" where
  "padding_needed n = nat ((- int n) mod 4)"

definition b64u_decode :: "string \<Rightarrow> string + bytes" where
  "b64u_decode encoded =
     (if \<not> list_all is_ascii encoded then Inl b64u_error
      else case a2b_base64 0 0 0
                  (map from_urlsafe (encoded @ replicate (padding_needed (length encoded)) (CHR ''=''))) of
        None \<Rightarrow> Inl b64u_error
      | Some ns \<Rightarrow> Inr (map of_nat ns))"

subsection \<open>The round trip\<close>

text \<open>The encoder's text without its padding, and the padding it strips.\<close>

fun b64_body :: "nat list \<Rightarrow> string" where
  "b64_body [] = []"
| "b64_body [a] = [b64_char (a div 4), b64_char ((a mod 4) * 16)]"
| "b64_body [a, b] =
     [b64_char (a div 4), b64_char ((a mod 4) * 16 + b div 16), b64_char ((b mod 16) * 4)]"
| "b64_body (a # b # c # rest) =
     b64_char (a div 4) # b64_char ((a mod 4) * 16 + b div 16)
     # b64_char ((b mod 16) * 4 + c div 64) # b64_char (c mod 64) # b64_body rest"

definition in_alphabet :: "char \<Rightarrow> bool" where
  "in_alphabet c \<longleftrightarrow> (\<exists>n < 64. c = b64_char n)"

lemma in_alphabet_b64_char [simp]: "n < 64 \<Longrightarrow> in_alphabet (b64_char n)"
  by (auto simp: in_alphabet_def)

lemma padding_needed_quad: "padding_needed (4 + n) = padding_needed n"
proof -
  have "- int (4 + n) = - int n - 4" by simp
  then show ?thesis unfolding padding_needed_def by (metis minus_mod_self2)
qed

lemma padding_needed_simps [simp]:
  "padding_needed 0 = 0" "padding_needed (Suc (Suc 0)) = 2" "padding_needed (Suc (Suc (Suc 0))) = 1"
  "padding_needed (Suc (Suc (Suc (Suc n)))) = padding_needed n"
  using padding_needed_quad [of n] by (simp_all add: padding_needed_def numeral_eq_Suc)

lemma b2a_body:
  "b2a_base64 ns = b64_body ns @ replicate (padding_needed (length (b64_body ns))) (CHR ''='')"
  by (induction ns rule: b64_body.induct) (auto simp: numeral_2_eq_2)

lemma b64_body_alphabet: "list_all (\<lambda>n. n < 256) ns \<Longrightarrow> list_all in_alphabet (b64_body ns)"
  by (induction ns rule: b64_body.induct) (auto simp: less_mult_imp_div_less)

lemma to_urlsafe_b64_char:
  "n < 64 \<Longrightarrow> to_urlsafe (b64_char n) =
     (if n = 62 then CHR ''-'' else if n = 63 then CHR ''_'' else b64_char n)"
  by (auto simp: to_urlsafe_def b64_value_def dest: b64_char_eqD) (auto simp: b64_char_def)

lemma is_ascii_b64_char: "n < 64 \<Longrightarrow> is_ascii (b64_char n)"
  by (auto simp: b64_char_def is_ascii_def)

lemma from_urlsafe_b64_char: "n < 64 \<Longrightarrow> from_urlsafe (b64_char n) = b64_char n"
  by (auto simp: from_urlsafe_def b64_value_def dest: b64_char_eqD)

lemma urlsafe_specials:
  "is_ascii (CHR ''-'')" "is_ascii (CHR ''_'')"
  "from_urlsafe (CHR ''-'') = b64_char 62" "from_urlsafe (CHR ''_'') = b64_char 63"
  by (simp_all add: is_ascii_def from_urlsafe_def b64_char_def)

lemma in_alphabet_urlsafe:
  assumes "in_alphabet c"
  shows "to_urlsafe c \<noteq> CHR ''=''" "is_ascii (to_urlsafe c)" "from_urlsafe (to_urlsafe c) = c"
proof -
  obtain n where n: "n < 64" "c = b64_char n"
    using assms by (auto simp: in_alphabet_def)
  note tr = to_urlsafe_b64_char [OF n(1)]
  show "to_urlsafe c \<noteq> CHR ''=''"
    unfolding n(2) tr using n(1) by simp
  show "is_ascii (to_urlsafe c)"
    unfolding n(2) tr using n(1) by (simp add: urlsafe_specials is_ascii_b64_char)
  show "from_urlsafe (to_urlsafe c) = c"
    unfolding n(2) tr using n(1) by (simp add: urlsafe_specials from_urlsafe_b64_char)
qed

lemma rstrip_pad_append:
  "list_all (\<lambda>c. c \<noteq> CHR ''='') s \<Longrightarrow> rstrip_pad (s @ replicate n (CHR ''='')) = s"
proof -
  assume s: "list_all (\<lambda>c. c \<noteq> CHR ''='') s"
  have "dropWhile (\<lambda>c. c = CHR ''='') (replicate n (CHR ''='') @ rev s)
      = dropWhile (\<lambda>c. c = CHR ''='') (rev s)"
    by (induction n) auto
  also have "\<dots> = rev s"
    unfolding dropWhile_eq_self_iff using s by (cases s rule: rev_cases) auto
  finally show ?thesis by (simp add: rstrip_pad_def)
qed

lemma b64u_encode_body:
  "b64u_encode raw = map to_urlsafe (b64_body (map unat raw))"
proof -
  have alpha: "list_all in_alphabet (b64_body (map unat raw))"
    by (rule b64_body_alphabet) (simp add: list_all_iff)
  have pads: "map to_urlsafe (replicate n (CHR ''='')) = replicate n (CHR ''='')" for n
    by (simp add: to_urlsafe_def)
  have "list_all (\<lambda>c. c \<noteq> CHR ''='') (map to_urlsafe (b64_body (map unat raw)))"
    using alpha by (auto simp: list_all_iff dest: in_alphabet_urlsafe)
  then show ?thesis
    unfolding b64u_encode_def b2a_body map_append pads by (rule rstrip_pad_append)
qed

lemma b64u_decode_encode: "b64u_decode (b64u_encode raw) = Inr raw"
proof -
  let ?body = "b64_body (map unat raw)"
  have small: "list_all (\<lambda>n. n < 256) (map unat raw)"
    by (simp add: list_all_iff)
  have alpha: "list_all in_alphabet ?body"
    by (rule b64_body_alphabet [OF small])
  have ascii: "list_all is_ascii (map to_urlsafe ?body)"
    using alpha by (auto simp: list_all_iff dest: in_alphabet_urlsafe)
  have untranslate: "map from_urlsafe (map to_urlsafe ?body @ replicate n (CHR ''=''))
      = ?body @ replicate n (CHR ''='')" for n
    using alpha by (simp add: from_urlsafe_def) (auto simp: list_all_iff map_idI in_alphabet_urlsafe)
  have "a2b_base64 0 0 0 (?body @ replicate (padding_needed (length ?body)) (CHR ''='')) = Some (map unat raw)"
    using a2b_b2a [OF small] by (simp only: b2a_body)
  then show ?thesis
    unfolding b64u_decode_def b64u_encode_body length_map untranslate
    using ascii by (simp add: comp_def)
qed

interpretation b64u: codec "\<lambda>_. True" b64u_encode b64u_decode
  by unfold_locales (rule b64u_decode_encode)

lemma b64u_encode_eq_iff [simp]: "b64u_encode a = b64u_encode b \<longleftrightarrow> a = b"
  using b64u.enc_eq_iff by blast

section \<open>Hexadecimal\<close>

definition hex_char :: "nat \<Rightarrow> char" where
  "hex_char n = (if n < 10 then char_of (48 + n) else char_of (87 + n))"

definition hex_value :: "char \<Rightarrow> nat option" where
  "hex_value c =
     (let n = (of_char c :: nat) in
      if 48 \<le> n \<and> n \<le> 57 then Some (n - 48)
      else if 97 \<le> n \<and> n \<le> 102 then Some (n - 87)
      else if 65 \<le> n \<and> n \<le> 70 then Some (n - 55)
      else None)"

lemma hex_value_char [simp]: "n < 16 \<Longrightarrow> hex_value (hex_char n) = Some n"
  by (auto simp: hex_value_def hex_char_def Let_def)

lemma is_ascii_hex_char [simp]: "n < 16 \<Longrightarrow> is_ascii (hex_char n)"
  by (auto simp: is_ascii_def hex_char_def)

definition hex_byte :: "byte \<Rightarrow> string" where
  "hex_byte b = [hex_char (unat b div 16), hex_char (unat b mod 16)]"

definition hexdigest :: "bytes \<Rightarrow> string" where
  "hexdigest bs = concat (map hex_byte bs)"

fun unhex :: "string \<Rightarrow> string + bytes" where
  "unhex [] = Inr []"
| "unhex [c] = Inl ''odd length''"
| "unhex (c # d # rest) =
     (case (hex_value c, hex_value d) of
        (Some m, Some n) \<Rightarrow> sum_bind (unhex rest) (\<lambda>bs. Inr (of_nat (16 * m + n) # bs))
      | _ \<Rightarrow> Inl ''not hexadecimal'')"

lemma unhex_hexdigest: "unhex (hexdigest bs) = Inr bs"
  by (induction bs) (auto simp: hexdigest_def hex_byte_def less_mult_imp_div_less byte_simps)

interpretation hex: codec "\<lambda>_. True" hexdigest unhex
  by unfold_locales (rule unhex_hexdigest)

lemma hexdigest_eq_iff [simp]: "hexdigest a = hexdigest b \<longleftrightarrow> a = b"
  using hex.enc_eq_iff by blast

lemma length_hexdigest [simp]: "length (hexdigest bs) = 2 * length bs"
  by (induction bs) (auto simp: hexdigest_def hex_byte_def)

lemma hexdigest_ascii: "list_all is_ascii (hexdigest bs)"
  by (induction bs) (auto simp: hexdigest_def hex_byte_def less_mult_imp_div_less)

end
