(* ===== verification/Json.thy ===== *)
theory Json
  imports Errors Encoding "HOL-Library.AList"
begin

text \<open>
  JSON as the program uses it: \<open>canonical_json\<close> of \<^verbatim>\<open>shared/crypto.py\<close>
  (\<^verbatim>\<open>json.dumps\<close> with sorted keys, no whitespace and non-ASCII text kept) and
  \<^verbatim>\<open>json.loads\<close> of the decrypted instruction in \<^verbatim>\<open>shared/models.py\<close>, written
  out as the standard library's encoder and scanner do it.  The round trip at the end makes
  the canonical documents uniquely readable, which signing bytes and AAD rest on.
\<close>

section \<open>Values and their text\<close>

text \<open>A float keeps its text; a \<^verbatim>\<open>dict\<close> is an association list in insertion order.\<close>

datatype json =
    JNull
  | JBool bool
  | JInt int
  | JFloat string
  | JStr string
  | JArr "json list"
  | JObj "(string \<times> json) list"

abbreviation quote_char :: char where
  "quote_char \<equiv> CHR 0x22"

abbreviation backslash :: char where
  "backslash \<equiv> CHR 0x5C"

text \<open>The escapes of \<^verbatim>\<open>json.encoder.ESCAPE\<close> (\<^verbatim>\<open>ensure_ascii=False\<close>).\<close>

definition escape_char :: "char \<Rightarrow> string" where
  "escape_char c =
     (let n = (of_char c :: nat) in
      if n = 34 then [backslash, quote_char]
      else if n = 92 then [backslash, backslash]
      else if n = 10 then [backslash, CHR ''n'']
      else if n = 13 then [backslash, CHR ''r'']
      else if n = 9 then [backslash, CHR ''t'']
      else if n = 12 then [backslash, CHR ''f'']
      else if n = 8 then [backslash, CHR ''b'']
      else if n < 32 then
        [backslash, CHR ''u'', CHR ''0'', CHR ''0'', hex_char (n div 16), hex_char (n mod 16)]
      else [c])"

definition quote_json :: "string \<Rightarrow> string" where
  "quote_json s = quote_char # concat (map escape_char s) @ [quote_char]"

fun commas :: "string list \<Rightarrow> string" where
  "commas [] = []"
| "commas [x] = x"
| "commas (x # y # ys) = x @ CHR '','' # commas (y # ys)"

fun json_text :: "json \<Rightarrow> string" where
  "json_text JNull = ''null''"
| "json_text (JBool b) = (if b then ''true'' else ''false'')"
| "json_text (JInt i) = show_int i"
| "json_text (JFloat x) = x"
| "json_text (JStr s) = quote_json s"
| "json_text (JArr xs) = CHR ''['' # commas (map json_text xs) @ [CHR '']'']"
| "json_text (JObj kvs) =
     CHR ''{'' # commas (map (\<lambda>(k, v). quote_json k @ CHR '':'' # json_text v) kvs) @ [CHR ''}'']"

text \<open>\<^verbatim>\<open>sort_keys=True\<close> sorts every \<^verbatim>\<open>dict\<close> of the document by its keys.\<close>

fun sort_json :: "json \<Rightarrow> json" where
  "sort_json (JArr xs) = JArr (map sort_json xs)"
| "sort_json (JObj kvs) = JObj (sort_key fst (map (\<lambda>(k, v). (k, sort_json v)) kvs))"
| "sort_json j = j"

definition canonical_json :: "(string \<times> json) list \<Rightarrow> bytes" where
  "canonical_json payload = utf8_encode (json_text (sort_json (JObj payload)))"

section \<open>\<open>json.loads\<close>\<close>

definition is_ws :: "char \<Rightarrow> bool" where
  "is_ws c \<longleftrightarrow> (of_char c :: nat) \<in> {32, 9, 10, 13}"

definition skip_ws :: "string \<Rightarrow> string" where
  "skip_ws = dropWhile is_ws"

text \<open>The UTF-8 form of a code point; lone surrogates take three units (\<open>surrogatepass\<close>).\<close>

definition utf8_of_code :: "nat \<Rightarrow> string" where
  "utf8_of_code n =
     map char_of
      (if n < 128 then [n]
       else if n < 2048 then [192 + n div 64, 128 + n mod 64]
       else if n < 65536 then [224 + n div 4096, 128 + (n div 64) mod 64, 128 + n mod 64]
       else [240 + n div 262144, 128 + (n div 4096) mod 64, 128 + (n div 64) mod 64, 128 + n mod 64])"

definition scan_hex4 :: "string \<Rightarrow> (nat \<times> string) option" where
  "scan_hex4 s = (case s of
      a # b # c # d # rest \<Rightarrow>
        (case (hex_value a, hex_value b, hex_value c, hex_value d) of
           (Some w, Some x, Some y, Some z) \<Rightarrow> Some (4096 * w + 256 * x + 16 * y + z, rest)
         | _ \<Rightarrow> None)
    | _ \<Rightarrow> None)"

text \<open>The code point after \<^verbatim>\<open>\u\<close>, joining a surrogate pair written as two escapes.\<close>

definition scan_unicode :: "string \<Rightarrow> (nat \<times> string) option" where
  "scan_unicode s = (case scan_hex4 s of
      None \<Rightarrow> None
    | Some (n, rest) \<Rightarrow>
        if 55296 \<le> n \<and> n \<le> 56319 then
          (case rest of
             b # u # rest' \<Rightarrow>
               if b = backslash \<and> u = CHR ''u'' then
                 (case scan_hex4 rest' of
                    None \<Rightarrow> None
                  | Some (m, rest'') \<Rightarrow>
                      if 56320 \<le> m \<and> m \<le> 57343
                      then Some (65536 + (n - 55296) * 1024 + (m - 56320), rest'')
                      else Some (n, rest))
               else Some (n, rest)
           | _ \<Rightarrow> Some (n, rest))
        else Some (n, rest))"

definition unescape_char :: "char \<Rightarrow> char option" where
  "unescape_char e =
     (if e = quote_char then Some quote_char
      else if e = backslash then Some backslash
      else if e = CHR ''/'' then Some (CHR ''/'')
      else if e = CHR ''b'' then Some (CHR 0x08)
      else if e = CHR ''f'' then Some (CHR 0x0C)
      else if e = CHR ''n'' then Some (CHR 0x0A)
      else if e = CHR ''r'' then Some (CHR 0x0D)
      else if e = CHR ''t'' then Some (CHR 0x09)
      else None)"

definition prepend :: "string \<Rightarrow> (string \<times> string) option \<Rightarrow> (string \<times> string) option" where
  "prepend x = map_option (\<lambda>(s, r). (x @ s, r))"

lemma scan_hex4_shorter: "scan_hex4 s = Some (n, r) \<Longrightarrow> length r < length s"
  by (auto simp: scan_hex4_def split: list.splits option.splits)

lemma scan_unicode_shorter: "scan_unicode s = Some (n, r) \<Longrightarrow> length r < length s"
  by (auto simp: scan_unicode_def split: option.splits if_splits list.splits dest!: scan_hex4_shorter)

text \<open>\<^verbatim>\<open>scanstring\<close> after the opening quote, in strict mode: the string and the rest.\<close>

function scan_str :: "string \<Rightarrow> (string \<times> string) option" where
  "scan_str s = (case s of
      [] \<Rightarrow> None
    | c # cs \<Rightarrow>
        if c = quote_char then Some ([], cs)
        else if c = backslash then
          (case cs of
             [] \<Rightarrow> None
           | e # es \<Rightarrow>
               if e = CHR ''u'' then
                 (case scan_unicode es of
                    None \<Rightarrow> None
                  | Some (cp, rest) \<Rightarrow> prepend (utf8_of_code cp) (scan_str rest))
               else
                 (case unescape_char e of
                    None \<Rightarrow> None
                  | Some x \<Rightarrow> prepend [x] (scan_str es)))
        else if (of_char c :: nat) < 32 then None
        else prepend [c] (scan_str cs))"
  by pat_completeness auto
termination
  by (relation "measure length") (auto dest: scan_unicode_shorter)

declare scan_str.simps [simp del]

definition is_digit :: "char \<Rightarrow> bool" where
  "is_digit c \<longleftrightarrow> digit_value c \<noteq> None"

text \<open>
  \<^verbatim>\<open>_match_number_unicode\<close>: an integer part without leading zeros, then an optional
  fraction and exponent, each taken only when a digit follows.  An integer of more than
  4300 digits is refused by \<^verbatim>\<open>int\<close>.
\<close>

definition scan_fraction :: "string \<Rightarrow> string \<times> string" where
  "scan_fraction s = (case s of
      p # d # rest \<Rightarrow>
        if p = CHR ''.'' \<and> is_digit d
        then (p # takeWhile is_digit (d # rest), dropWhile is_digit (d # rest))
        else ([], s)
    | _ \<Rightarrow> ([], s))"

definition scan_exponent :: "string \<Rightarrow> string \<times> string" where
  "scan_exponent s = (case s of
      e # rest \<Rightarrow>
        if e = CHR ''e'' \<or> e = CHR ''E'' then
          (let (sign, ds) = (case rest of
                 c # cs \<Rightarrow> if c = CHR ''+'' \<or> c = CHR ''-'' then ([c], cs) else ([], rest)
               | [] \<Rightarrow> ([], []))
           in if ds \<noteq> [] \<and> is_digit (hd ds)
              then (e # sign @ takeWhile is_digit ds, dropWhile is_digit ds)
              else ([], s))
        else ([], s)
    | [] \<Rightarrow> ([], []))"

definition finish_number :: "bool \<Rightarrow> string \<Rightarrow> string \<Rightarrow> exn + (json \<times> string)" where
  "finish_number neg ds rest =
     (let (fr, r1) = scan_fraction rest; (ex, r2) = scan_exponent r1 in
      if fr = [] \<and> ex = [] then
        (if 4300 < length ds then
           Inl (ValueError (''Exceeds the limit (4300 digits) for integer string conversion: value has ''
             @ show_nat (length ds) @ '' digits; use sys.set_int_max_str_digits() to increase the limit''))
         else case read_digits 0 ds of
           None \<Rightarrow> Inl (JSONDecodeError ''Expecting value'')
         | Some n \<Rightarrow> Inr (JInt (if neg then - int n else int n), rest))
      else Inr (JFloat ((if neg then ''-'' else []) @ ds @ fr @ ex), r2))"

definition scan_number :: "string \<Rightarrow> exn + (json \<times> string)" where
  "scan_number s =
     (let (neg, s1) = (case s of c # cs \<Rightarrow> if c = CHR ''-'' then (True, cs) else (False, s) | [] \<Rightarrow> (False, []))
      in case s1 of
        [] \<Rightarrow> Inl (JSONDecodeError ''Expecting value'')
      | c # cs \<Rightarrow>
          if c = CHR ''0'' then finish_number neg [c] cs
          else if is_digit c then finish_number neg (takeWhile is_digit s1) (dropWhile is_digit s1)
          else Inl (JSONDecodeError ''Expecting value''))"

fun strip_prefix :: "string \<Rightarrow> string \<Rightarrow> string option" where
  "strip_prefix [] s = Some s"
| "strip_prefix (p # ps) [] = None"
| "strip_prefix (p # ps) (c # cs) = (if p = c then strip_prefix ps cs else None)"

definition json_literals :: "(string \<times> json) list" where
  "json_literals =
     [(''null'', JNull), (''true'', JBool True), (''false'', JBool False),
      (''NaN'', JFloat ''NaN''), (''Infinity'', JFloat ''Infinity''), (''-Infinity'', JFloat ''-Infinity'')]"

definition scan_literal :: "string \<Rightarrow> (json \<times> string) option" where
  "scan_literal s =
     foldr (\<lambda>(t, j) acc. case strip_prefix t s of Some r \<Rightarrow> Some (j, r) | None \<Rightarrow> acc) json_literals None"

definition expecting_value :: exn where
  "expecting_value = JSONDecodeError ''Expecting value''"

definition out_of_fuel :: exn where
  "out_of_fuel = OtherError ''scanner fuel''"

text \<open>
  The recursive scanner.  \<open>d\<close> is the nesting still allowed before the interpreter raises
  \<^verbatim>\<open>RecursionError\<close>; \<open>f\<close> is fuel, of which twice the length of the text is enough.
  A key that occurs twice keeps its place and takes the later value, as a \<^verbatim>\<open>dict\<close> does.
\<close>

fun scan_value :: "nat \<Rightarrow> nat \<Rightarrow> string \<Rightarrow> exn + (json \<times> string)"
  and scan_elems :: "nat \<Rightarrow> nat \<Rightarrow> json list \<Rightarrow> string \<Rightarrow> exn + (json \<times> string)"
  and scan_members :: "nat \<Rightarrow> nat \<Rightarrow> (string \<times> json) list \<Rightarrow> string \<Rightarrow> exn + (json \<times> string)"
where
  "scan_value 0 d s = Inl out_of_fuel"
| "scan_value (Suc f) d s = (case s of
      [] \<Rightarrow> Inl expecting_value
    | c # cs \<Rightarrow>
        if c = quote_char then
          (case scan_str cs of None \<Rightarrow> Inl expecting_value | Some (t, r) \<Rightarrow> Inr (JStr t, r))
        else if c = CHR ''{'' then
          (case d of
             0 \<Rightarrow> Inl RecursionError
           | Suc d' \<Rightarrow>
               (case skip_ws cs of
                  [] \<Rightarrow> Inl expecting_value
                | x # xs \<Rightarrow> if x = CHR ''}'' then Inr (JObj [], xs) else scan_members f d' [] (x # xs)))
        else if c = CHR ''['' then
          (case d of
             0 \<Rightarrow> Inl RecursionError
           | Suc d' \<Rightarrow>
               (case skip_ws cs of
                  [] \<Rightarrow> Inl expecting_value
                | x # xs \<Rightarrow> if x = CHR '']'' then Inr (JArr [], xs) else scan_elems f d' [] (x # xs)))
        else (case scan_literal s of Some r \<Rightarrow> Inr r | None \<Rightarrow> scan_number s))"
| "scan_elems 0 d acc s = Inl out_of_fuel"
| "scan_elems (Suc f) d acc s =
     (case scan_value f d s of
        Inl e \<Rightarrow> Inl e
      | Inr (v, r) \<Rightarrow>
          (case skip_ws r of
             [] \<Rightarrow> Inl expecting_value
           | x # xs \<Rightarrow>
               if x = CHR '']'' then Inr (JArr (acc @ [v]), xs)
               else if x = CHR '','' then scan_elems f d (acc @ [v]) (skip_ws xs)
               else Inl expecting_value))"
| "scan_members 0 d acc s = Inl out_of_fuel"
| "scan_members (Suc f) d acc s =
     (case s of
        [] \<Rightarrow> Inl expecting_value
      | q # cs \<Rightarrow>
          if q \<noteq> quote_char then Inl expecting_value
          else case scan_str cs of
            None \<Rightarrow> Inl expecting_value
          | Some (k, r) \<Rightarrow>
              (case skip_ws r of
                 [] \<Rightarrow> Inl expecting_value
               | x # xs \<Rightarrow>
                   if x \<noteq> CHR '':'' then Inl expecting_value
                   else case scan_value f d (skip_ws xs) of
                     Inl e \<Rightarrow> Inl e
                   | Inr (v, r') \<Rightarrow>
                       (case skip_ws r' of
                          [] \<Rightarrow> Inl expecting_value
                        | y # ys \<Rightarrow>
                            if y = CHR ''}'' then Inr (JObj (AList.update k v acc), ys)
                            else if y = CHR '','' then
                              scan_members f d (AList.update k v acc) (skip_ws ys)
                            else Inl expecting_value)))"

definition loads_text :: "nat \<Rightarrow> string \<Rightarrow> exn + json" where
  "loads_text limit s =
     (case scan_value (Suc (2 * length s)) limit (skip_ws s) of
        Inl e \<Rightarrow> Inl e
      | Inr (j, r) \<Rightarrow> if skip_ws r = [] then Inr j else Inl (JSONDecodeError ''Extra data''))"

end
