(* ===== verification/Timestamps.thy ===== *)
theory Timestamps
  imports Prelude Errors
begin

text \<open>
  Python's \<^verbatim>\<open>datetime\<close> as far as \<^verbatim>\<open>shared/models.py\<close> uses it: wall-clock
  microseconds since 0001-01-01T00:00:00 with an optional UTC offset, the range check of
  \<^verbatim>\<open>astimezone\<close> that raises \<^verbatim>\<open>OverflowError\<close>, and \<^verbatim>\<open>isoformat\<close>
  with CPython's ordinal-to-date algorithm.  \<open>canonical_timestamp\<close> is injective on the
  representable instants, so a signature over the text covers the instant itself.
\<close>

section \<open>Datetimes and instants\<close>

record datetime =
  wall_us :: int
  utcoffset_us :: "int option"

text \<open>An aware UTC datetime is its microseconds since 0001-01-01T00:00:00Z.\<close>

type_synonym instant = int

definition us_per_second :: int where "us_per_second = 1000000"

definition us_per_day :: int where "us_per_day = 86400000000"

definition max_ordinal :: nat where "max_ordinal = 3652059"

definition valid_instant :: "instant \<Rightarrow> bool" where
  "valid_instant t \<longleftrightarrow> 0 \<le> t \<and> t < int max_ordinal * us_per_day"

definition astimezone_utc :: "int \<Rightarrow> int \<Rightarrow> exn + instant" where
  "astimezone_utc wall off =
     (if valid_instant (wall - off) then Inr (wall - off)
      else Inl (OverflowError ''date value out of range''))"

definition normalize_to_utc :: "datetime \<Rightarrow> exn + instant" where
  "normalize_to_utc value =
     (case utcoffset_us value of
        None \<Rightarrow> Inl (ValueError ''timestamp must be timezone-aware'')
      | Some off \<Rightarrow> astimezone_utc (wall_us value) off)"

definition utc_datetime :: "instant \<Rightarrow> datetime" where
  "utc_datetime t = \<lparr> wall_us = t, utcoffset_us = Some 0 \<rparr>"

lemma normalize_utc_datetime [simp]:
  "valid_instant t \<Longrightarrow> normalize_to_utc (utc_datetime t) = Inr t"
  by (simp add: normalize_to_utc_def utc_datetime_def astimezone_utc_def)

lemma normalize_to_utc_valid: "normalize_to_utc d = Inr t \<Longrightarrow> valid_instant t"
  by (auto simp: normalize_to_utc_def astimezone_utc_def split: option.splits if_splits)

section \<open>The calendar\<close>

definition is_leap :: "nat \<Rightarrow> bool" where
  "is_leap y \<longleftrightarrow> y mod 4 = 0 \<and> (y mod 100 \<noteq> 0 \<or> y mod 400 = 0)"

definition month_days :: "bool \<Rightarrow> nat \<Rightarrow> nat" where
  "month_days leap m =
     (if m = 2 \<and> leap then 29 else [0, 31, 28, 31, 30, 31, 30, 31, 31, 30, 31, 30, 31] ! m)"

definition month_offset :: "bool \<Rightarrow> nat \<Rightarrow> nat" where
  "month_offset leap m =
     [0, 0, 31, 59, 90, 120, 151, 181, 212, 243, 273, 304, 334] ! m + (if 2 < m \<and> leap then 1 else 0)"

definition days_before_year :: "nat \<Rightarrow> nat" where
  "days_before_year y = (y - 1) * 365 + (y - 1) div 4 + (y - 1) div 400 - (y - 1) div 100"

definition month_and_day :: "bool \<Rightarrow> nat \<Rightarrow> nat \<times> nat" where
  "month_and_day leap n =
     (let m = (n + 50) div 32; p = month_offset leap m in
      if n < p then (m - 1, n - (p - month_days leap (m - 1)) + 1) else (m, n - p + 1))"

definition ord_to_ymd :: "nat \<Rightarrow> nat \<times> nat \<times> nat" where
  "ord_to_ymd ordinal =
     (let o' = ordinal - 1;
          n400 = o' div 146097; r = o' mod 146097;
          n100 = r div 36524; r2 = r mod 36524;
          n4 = r2 div 1461; r3 = r2 mod 1461;
          n1 = r3 div 365; n = r3 mod 365;
          y = n400 * 400 + 1 + n100 * 100 + n4 * 4 + n1
      in if n1 = 4 \<or> n100 = 4 then (y - 1, 12, 31)
         else (y, month_and_day (n1 = 3 \<and> (n4 \<noteq> 24 \<or> n100 = 3)) n))"

definition ymd_to_ord :: "nat \<times> nat \<times> nat \<Rightarrow> nat" where
  "ymd_to_ord ymd =
     (let (y, m, d) = ymd in days_before_year y + month_offset (is_leap y) m + d)"

text \<open>The month table: consecutive offsets differ by the month's length.\<close>

definition month_row :: "bool \<Rightarrow> nat \<Rightarrow> bool" where
  "month_row leap k \<longleftrightarrow>
     (1 < k \<longrightarrow> month_offset leap (k - 1) + month_days leap (k - 1) = month_offset leap k)
     \<and> (1 < k \<longrightarrow> month_offset leap (k - 1) + 50 \<le> 32 * k)
     \<and> (k < 12 \<longrightarrow> 32 * k \<le> month_offset leap k + 49)
     \<and> month_days leap (k - 1) \<le> 31
     \<and> (k = 1 \<longrightarrow> month_offset leap k = 0)
     \<and> (k = 12 \<longrightarrow> 334 \<le> month_offset leap k)"

lemma month_rows: "list_all (month_row leap) [1, 2, 3, 4, 5, 6, 7, 8, 9, 10, 11, 12]"
  by (cases leap) (simp_all add: month_row_def month_offset_def month_days_def)

lemma month_row: "1 \<le> k \<Longrightarrow> k \<le> 12 \<Longrightarrow> month_row leap k"
proof -
  assume "1 \<le> k" "k \<le> 12"
  then have "k \<in> set [1, 2, 3, 4, 5, 6, 7, 8, 9, 10, 11, 12]" by simp presburger
  then show ?thesis using month_rows unfolding list_all_iff by (rule bspec [rotated])
qed

lemma month_rowD:
  assumes "month_row leap k"
  shows "1 < k \<Longrightarrow> month_offset leap (k - 1) + month_days leap (k - 1) = month_offset leap k"
    and "1 < k \<Longrightarrow> month_offset leap (k - 1) + 50 \<le> 32 * k"
    and "k < 12 \<Longrightarrow> 32 * k \<le> month_offset leap k + 49"
    and "month_days leap (k - 1) \<le> 31"
    and "k = 1 \<Longrightarrow> month_offset leap k = 0"
    and "k = 12 \<Longrightarrow> 334 \<le> month_offset leap k"
  using assms by (simp_all add: month_row_def)

lemma month_and_day_offset:
  assumes "n < 365" "month_and_day leap n = (m, d)"
  shows "month_offset leap m + d = n + 1 \<and> m \<le> 12 \<and> 1 \<le> d \<and> d \<le> 31"
proof -
  define k where "k = (n + 50) div 32"
  have bounds: "32 * k \<le> n + 50" "n + 50 < 32 * k + 32"
    unfolding k_def by presburger+
  then have k: "1 \<le> k" "k \<le> 12" using assms(1) by linarith+
  have md: "month_and_day leap n =
      (if n < month_offset leap k
       then (k - 1, n - (month_offset leap k - month_days leap (k - 1)) + 1)
       else (k, n - month_offset leap k + 1))"
    by (simp add: month_and_day_def Let_def k_def)
  note table = month_rowD [OF month_row [OF k, of leap]]
  show ?thesis
  proof (cases "n < month_offset leap k")
    case True
    then have "1 < k" using table(5) k(1) by (cases "k = 1") simp_all
    moreover have "(m, d) = (k - 1, n - (month_offset leap k - month_days leap (k - 1)) + 1)"
      by (metis assms(2) md True)
    moreover have "month_offset leap k - month_days leap (k - 1) = month_offset leap (k - 1)"
      using table(1) \<open>1 < k\<close> by simp
    moreover have "month_offset leap (k - 1) \<le> n"
      using table(2) [OF \<open>1 < k\<close>] bounds(1) by linarith
    ultimately have "m = k - 1" "month_offset leap m + d = n + 1" "n < month_offset leap m + 31"
      using table(1) [OF \<open>1 < k\<close>] table(4) True by simp_all
    then show ?thesis using k \<open>month_offset leap (k - 1) \<le> n\<close> by simp
  next
    case False
    then have "(m, d) = (k, n - month_offset leap k + 1)"
      by (metis assms(2) md)
    then have "m = k" "d = n - month_offset leap k + 1" by blast+
    moreover have "n \<le> month_offset leap k + 30"
    proof (cases "k = 12")
      case True
      then show ?thesis using table(6) assms(1) by linarith
    next
      case False
      then show ?thesis using table(3) bounds(2) k by linarith
    qed
    ultimately show ?thesis using False k by simp
  qed
qed

lemma div_parts: "(r :: nat) < k \<Longrightarrow> (k * q + r) div k = q"
  by simp

lemma days_before_year_parts:
  assumes "b < 4" "c < 25" "e < 4"
  shows "days_before_year (a * 400 + 1 + b * 100 + c * 4 + e) = 146097 * a + 36524 * b + 1461 * c + 365 * e"
proof -
  let ?y = "a * 400 + b * 100 + c * 4 + e"
  have "?y = 4 * (100 * a + 25 * b + c) + e" "?y = 100 * (4 * a + b) + (c * 4 + e)"
    "?y = 400 * a + (b * 100 + c * 4 + e)" by simp_all
  then have "?y div 4 = 100 * a + 25 * b + c" "?y div 100 = 4 * a + b" "?y div 400 = a"
    using div_parts [of e 4] div_parts [of "c * 4 + e" 100] div_parts [of "b * 100 + c * 4 + e" 400] assms
    by (metis, linarith+)
  moreover have "a * 400 + 1 + b * 100 + c * 4 + e - 1 = ?y" by simp
  ultimately show ?thesis unfolding days_before_year_def by simp
qed

lemma leap_parts:
  assumes "b < 4" "c < 25" "e < 4"
  shows "is_leap (a * 400 + 1 + b * 100 + c * 4 + e) \<longleftrightarrow> e = 3 \<and> (c \<noteq> 24 \<or> b = 3)"
proof -
  let ?y = "a * 400 + 1 + b * 100 + c * 4 + e"
  have 4: "?y mod 4 = 0 \<longleftrightarrow> e = 3"
  proof -
    have "?y = 4 * (100 * a + 25 * b + c) + (e + 1)" by simp
    then have "?y mod 4 = (e + 1) mod 4" by (metis mod_mult_self4)
    then show ?thesis using assms(3) by (auto simp: mod_if)
  qed
  have 100: "?y mod 100 = 0 \<longleftrightarrow> c * 4 + e = 99"
  proof -
    have "?y = 100 * (4 * a + b) + (c * 4 + e + 1)" by simp
    then have "?y mod 100 = (c * 4 + e + 1) mod 100" by (metis mod_mult_self4)
    moreover have "c * 4 + e + 1 \<le> 100" using assms by linarith
    ultimately show ?thesis by (cases "c * 4 + e + 1 = 100") auto
  qed
  have 400: "?y mod 400 = 0 \<longleftrightarrow> b * 100 + c * 4 + e = 399"
  proof -
    have "?y = 400 * a + (b * 100 + c * 4 + e + 1)" by simp
    then have "?y mod 400 = (b * 100 + c * 4 + e + 1) mod 400" by (metis mod_mult_self4)
    moreover have "b * 100 + c * 4 + e + 1 \<le> 400" using assms by linarith
    ultimately show ?thesis by (cases "b * 100 + c * 4 + e + 1 = 400") auto
  qed
  show ?thesis unfolding is_leap_def 4 100 400 using assms by auto
qed

lemma ymd_to_ord_inverse:
  assumes "1 \<le> n"
  shows "ymd_to_ord (ord_to_ymd n) = n"
proof -
  define a r b r2 c r3 e k where parts: "a = (n - 1) div 146097" "r = (n - 1) mod 146097"
    "b = r div 36524" "r2 = r mod 36524" "c = r2 div 1461" "r3 = r2 mod 1461"
    "e = r3 div 365" "k = r3 mod 365"
  have n: "n = 146097 * a + r + 1" and r: "r = 36524 * b + r2" and r2: "r2 = 1461 * c + r3"
    and r3: "r3 = 365 * e + k"
    using assms by (simp_all add: parts)
  have less: "r < 146097" "r2 < 36524" "r3 < 1461" "k < 365" by (simp_all add: parts)
  have b: "b \<le> 4" using r less(1) by linarith
  have c: "c < 25" using r2 less(2) by linarith
  have e: "e \<le> 4" using r3 less(3) by linarith
  let ?y = "a * 400 + 1 + b * 100 + c * 4 + e"
  have split: "ord_to_ymd n = (if e = 4 \<or> b = 4 then (?y - 1, 12, 31)
      else (?y, month_and_day (e = 3 \<and> (c \<noteq> 24 \<or> b = 3)) k))"
    by (simp add: ord_to_ymd_def parts Let_def)
  have dec: "month_offset True 12 = 335" by (simp add: month_offset_def)
  consider (b4) "b = 4" | (e4) "b < 4" "e = 4" | (other) "b < 4" "e < 4" using b e by linarith
  then show ?thesis
  proof cases
    case b4
    then have "r2 = 0" using r less(1) by linarith
    then have z: "c = 0" "e = 0" "k = 0" using r2 r3 by simp_all
    have y: "?y - 1 = a * 400 + 1 + 3 * 100 + 24 * 4 + 3" using b4 z by simp
    have "is_leap (?y - 1)" unfolding y by (subst leap_parts) simp_all
    moreover have "days_before_year (?y - 1) = 146097 * a + 36524 * 3 + 1461 * 24 + 365 * 3"
      unfolding y by (rule days_before_year_parts) simp_all
    ultimately show ?thesis
      unfolding split using b4 dec n r r2 r3 z by (simp add: ymd_to_ord_def)
  next
    case e4
    then have k: "k = 0" using r3 less(3) by linarith
    have c24: "b = 3 \<or> c < 24"
    proof (rule ccontr)
      assume "\<not> ?thesis"
      then have "c = 24" using c by linarith
      then have "r2 = 36524" using r2 r3 e4 k by simp
      then show False using less(2) by simp
    qed
    have y: "?y - 1 = a * 400 + 1 + b * 100 + c * 4 + 3" using e4 by simp
    have "is_leap (?y - 1)" unfolding y using e4(1) c c24 by (subst leap_parts) auto
    moreover have "days_before_year (?y - 1) = 146097 * a + 36524 * b + 1461 * c + 365 * 3"
      unfolding y using e4(1) c by (intro days_before_year_parts) simp_all
    ultimately show ?thesis
      unfolding split using e4 dec n r r2 r3 k by (simp add: ymd_to_ord_def)
  next
    case other
    obtain m d where md: "month_and_day (e = 3 \<and> (c \<noteq> 24 \<or> b = 3)) k = (m, d)" by fastforce
    then have "month_offset (e = 3 \<and> (c \<noteq> 24 \<or> b = 3)) m + d = k + 1"
      using month_and_day_offset [OF less(4) md] by simp
    moreover have "is_leap ?y \<longleftrightarrow> e = 3 \<and> (c \<noteq> 24 \<or> b = 3)"
      using other c by (intro leap_parts) simp_all
    moreover have "days_before_year ?y = 146097 * a + 36524 * b + 1461 * c + 365 * e"
      using other c by (intro days_before_year_parts) simp_all
    ultimately show ?thesis
      unfolding split using other n r r2 r3 md by (simp add: ymd_to_ord_def)
  qed
qed

lemma leap_count:
  assumes "2499 \<le> (z :: nat)"
  shows "2400 + z div 25 \<le> z"
proof -
  have "25 * (z div 25) \<le> z" by simp
  then have "25 * w \<le> z \<Longrightarrow> 2400 + w \<le> z" if "w = z div 25" for w
    using assms by linarith
  then show ?thesis by simp
qed

lemma leap_total:
  "2400 + c \<le> (a :: nat) \<Longrightarrow> 24 \<le> b \<Longrightarrow> k \<le> x \<Longrightarrow> k + 2424 \<le> x + a + b - c"
  by linarith

lemma ord_to_ymd_bounds:
  assumes "1 \<le> n" "n \<le> max_ordinal" "ord_to_ymd n = (y, m, d)"
  shows "y < 10000" "m < 100" "d < 100"
proof -
  have "(n - 1) mod 146097 mod 36524 mod 1461 mod 365 < 365" by simp
  from month_and_day_offset [OF this] have md: "m \<le> 12 \<and> 1 \<le> d \<and> d \<le> 31"
    using assms(3) by (auto simp: ord_to_ymd_def Let_def split: if_splits)
  then show "m < 100" "d < 100" by simp_all
  have "y \<le> 9999"
  proof (rule ccontr)
    assume "\<not> y \<le> 9999"
    then have q: "9999 \<le> y - 1" by simp
    define q' where "q' = y - 1"
    then have q': "9999 \<le> q'" using q by simp
    have "2400 + q' div 4 div 25 \<le> q' div 4"
      using div_le_mono [OF q', of 4] by (intro leap_count) simp
    moreover have "q' div 4 div 25 = q' div 100" by (simp flip: div_mult2_eq)
    moreover have "24 \<le> q' div 400" using div_le_mono [OF q', of 400] by simp
    moreover have "9999 * 365 \<le> q' * 365" using q' by simp
    ultimately have "9999 * 365 + 2424 \<le> q' * 365 + q' div 4 + q' div 400 - q' div 100"
      using leap_total by metis
    then have "9999 * 365 + 2424 \<le> days_before_year y"
      unfolding days_before_year_def q'_def .
    then have "9999 * 365 + 2425 \<le> n"
      using ymd_to_ord_inverse [OF assms(1)] assms(3) md by (simp add: ymd_to_ord_def)
    with assms(2) show False by (simp add: max_ordinal_def)
  qed
  then show "y < 10000" by simp
qed

lemma sixty_join: "(s :: nat) div 3600 * 3600 + s div 60 mod 60 * 60 + s mod 60 = s"
proof -
  have "s div 3600 = s div 60 div 60" by (simp flip: div_mult2_eq)
  then have "s div 3600 * 60 + s div 60 mod 60 = s div 60" by simp
  then have "s div 60 * 60 = s div 3600 * 3600 + s div 60 mod 60 * 60" by linarith
  then show ?thesis using div_mult_mod_eq [of s 60] by linarith
qed

lemma instant_day:
  assumes "valid_instant t"
  shows "0 \<le> t div us_per_day \<and> t div us_per_day < int max_ordinal"
proof
  have pos: "(0 :: int) < us_per_day" by (simp add: us_per_day_def)
  show "0 \<le> t div us_per_day"
    using assms pos by (simp add: valid_instant_def pos_imp_zdiv_nonneg_iff)
  show "t div us_per_day < int max_ordinal"
  proof (rule ccontr)
    assume "\<not> ?thesis"
    then have "int max_ordinal * us_per_day \<le> t div us_per_day * us_per_day"
      using pos by (intro mult_right_mono) simp_all
    also have "\<dots> \<le> t" using pos by (simp flip: minus_mod_eq_div_mult)
    finally show False using assms by (simp add: valid_instant_def)
  qed
qed

section \<open>ISO 8601 text\<close>

definition isoformat_utc :: "instant \<Rightarrow> string" where
  "isoformat_utc t =
     (let (y, m, d) = ord_to_ymd (nat (t div us_per_day) + 1);
          us = nat (t mod us_per_day);
          secs = us div 1000000; frac = us mod 1000000
      in show_padded 4 y @ ''-'' @ show_padded 2 m @ ''-'' @ show_padded 2 d @ ''T''
         @ show_padded 2 (secs div 3600) @ '':'' @ show_padded 2 (secs div 60 mod 60) @ '':''
         @ show_padded 2 (secs mod 60)
         @ (if frac = 0 then [] else ''.'' @ show_padded 6 frac) @ ''+00:00'')"

text \<open>
  The callers pass a datetime already normalised to UTC, on which \<^verbatim>\<open>astimezone\<close> is
  the identity (\<open>normalize_utc_datetime\<close>).
\<close>

definition canonical_timestamp :: "instant \<Rightarrow> string" where
  "canonical_timestamp moment = isoformat_utc moment"

lemma append_padded_eq:
  "m < 10 ^ w \<Longrightarrow> n < 10 ^ w \<Longrightarrow> show_padded w m @ xs = show_padded w n @ ys \<longleftrightarrow> m = n \<and> xs = ys"
  by (auto dest: show_padded_inj)

lemma sixty_parts:
  assumes "(a :: nat) div 3600 = b div 3600" "a div 60 mod 60 = b div 60 mod 60" "a mod 60 = b mod 60"
  shows "a = b"
proof -
  have "a div 60 div 60 = b div 60 div 60" using assms(1) by (simp flip: div_mult2_eq)
  with assms(2) have "a div 60 = b div 60" by (metis div_mult_mod_eq)
  with assms(3) show ?thesis by (metis div_mult_mod_eq)
qed

lemma fraction_text_eq:
  assumes "f < 1000000" "g < 1000000"
    and "(if f = 0 then [] else ''.'' @ show_padded 6 f) @ ''+00:00''
       = (if g = 0 then [] else ''.'' @ show_padded 6 g) @ ''+00:00''"
  shows "f = g"
  using assms by (auto split: if_splits dest: show_padded_inj [where w = 6, simplified])

lemma canonical_timestamp_inj:
  assumes "valid_instant t" "valid_instant u" "canonical_timestamp t = canonical_timestamp u"
  shows "t = u"
proof -
  let ?day = "\<lambda>t. nat (t div us_per_day) + 1" and ?us = "\<lambda>t. nat (t mod us_per_day)"
  have range: "1 \<le> ?day t \<and> ?day t \<le> max_ordinal \<and> ?us t < 86400000000
      \<and> 0 \<le> t div us_per_day \<and> 0 \<le> t mod us_per_day" if "valid_instant t" for t
  proof -
    have pos: "(0 :: int) < us_per_day" by (simp add: us_per_day_def)
    have "t div us_per_day < int max_ordinal" "0 \<le> t div us_per_day"
      using instant_day [OF that] by simp_all
    moreover have "0 \<le> t mod us_per_day" "t mod us_per_day < us_per_day" using pos by simp_all
    ultimately show ?thesis by (auto simp: us_per_day_def)
  qed
  note rt = range [OF assms(1)] and ru = range [OF assms(2)]
  obtain y m d y' m' d' where ymd: "ord_to_ymd (?day t) = (y, m, d)" "ord_to_ymd (?day u) = (y', m', d')"
    by (metis prod_cases3)
  have small: "y < 10 ^ 4" "m < 10 ^ 2" "d < 10 ^ 2" "y' < 10 ^ 4" "m' < 10 ^ 2" "d' < 10 ^ 2"
    using ord_to_ymd_bounds [OF _ _ ymd(1)] ord_to_ymd_bounds [OF _ _ ymd(2)] rt ru by simp_all
  define s f s' f' where sf: "s = ?us t div 1000000" "f = ?us t mod 1000000"
    "s' = ?us u div 1000000" "f' = ?us u mod 1000000"
  have less: "s < 86400" "s' < 86400" "f < 1000000" "f' < 1000000"
    using rt ru unfolding sf by (simp_all add: less_mult_imp_div_less)
  have clock: "s div 3600 < 10 ^ 2" "s' div 3600 < 10 ^ 2" "s div 60 mod 60 < 10 ^ 2"
    "s' div 60 mod 60 < 10 ^ 2" "s mod 60 < 10 ^ 2" "s' mod 60 < 10 ^ 2"
    using less by (simp_all add: less_mult_imp_div_less less_trans [OF mod_less_divisor])
  have eq: "isoformat_utc t = isoformat_utc u" using assms(3) by (simp add: canonical_timestamp_def)
  have "y = y' \<and> m = m' \<and> d = d' \<and> s div 3600 = s' div 3600 \<and> s div 60 mod 60 = s' div 60 mod 60
      \<and> s mod 60 = s' mod 60 \<and>
      (if f = 0 then [] else ''.'' @ show_padded 6 f) @ ''+00:00''
       = (if f' = 0 then [] else ''.'' @ show_padded 6 f') @ ''+00:00''"
    using eq unfolding isoformat_utc_def Let_def ymd prod.case sf [symmetric]
    by (simp only: append_padded_eq small clock append_Cons append_Nil list.inject simp_thms)
  then have "(y, m, d) = (y', m', d')" "s = s'" "f = f'"
    using sixty_parts fraction_text_eq [OF less(3,4)] by blast+
  then have days: "?day t = ?day u"
    using ymd_to_ord_inverse [of "?day t"] ymd_to_ord_inverse [of "?day u"] unfolding ymd
    by (metis le_add2)
  have "?us t = s * 1000000 + f" "?us u = s' * 1000000 + f'"
    unfolding sf by (rule div_mult_mod_eq [symmetric])+
  with \<open>s = s'\<close> \<open>f = f'\<close> have "?us t = ?us u" by (simp only:)
  moreover have "nat (t div us_per_day) = nat (u div us_per_day)" using days by (simp only: add_right_cancel)
  ultimately have "t div us_per_day = u div us_per_day" "t mod us_per_day = u mod us_per_day"
    using rt ru by (metis nat_eq_iff2)+
  then show ?thesis by (metis div_mult_mod_eq)
qed

lemma is_ascii_digit_char [simp]: "d < 10 \<Longrightarrow> is_ascii (digit_char d)"
  by (simp add: is_ascii_def digit_char_def)

lemma is_ascii_show_padded [simp]: "list_all is_ascii (show_padded w n)"
  by (induction w arbitrary: n) simp_all

lemma is_ascii_timestamp: "list_all is_ascii (canonical_timestamp t)"
  by (simp add: canonical_timestamp_def isoformat_utc_def Let_def is_ascii_def split: prod.split)

end
