(* ===== verification/Validation.thy ===== *)
theory Validation
  imports Json Timestamps
begin

text \<open>
  How the Pydantic models of \<^verbatim>\<open>shared/models.py\<close> validate.  The package itself is a
  parameter, a record \<open>pydantic\<close> of its scalar readers, its JSON reader and writer and its
  messages; the models' own declarations (patterns, ranges, validators, defaults, forbidden
  extra fields) are definitions here and in \<^verbatim>\<open>Models\<close>.  The order of errors is the
  declaration order of the fields, extra fields last; an exception that is not a
  \<^verbatim>\<open>ValueError\<close> ends the validation.
\<close>

section \<open>The validator as a parameter\<close>

text \<open>\<^verbatim>\<open>model_validate_json\<close> reads bytes, \<^verbatim>\<open>model_validate\<close> Python values.\<close>

datatype vmode = JsonMode | PythonMode

datatype perr =
    Missing
  | ExtraForbidden
  | JsonInvalid
  | ModelType
  | StringType
  | StringPattern
  | IntType
  | GreaterThan int
  | LessThanEqual int
  | UuidType
  | DatetimeType
  | TupleType
  | EnumType
  | ValueErr string

type_synonym uuid = "128 word"

record pydantic =
  pd_parse_json :: "bytes \<Rightarrow> json option"
  pd_dump_json :: "json \<Rightarrow> bytes"
  pd_uuid :: "vmode \<Rightarrow> json \<Rightarrow> uuid option"
  pd_datetime :: "vmode \<Rightarrow> json \<Rightarrow> datetime option"
  pd_int :: "vmode \<Rightarrow> json \<Rightarrow> int option"
  pd_msg :: "perr \<Rightarrow> string"
  pd_exn_text :: "exn \<Rightarrow> string"

section \<open>Field results\<close>

definition verrs :: "pydantic \<Rightarrow> perr \<Rightarrow> exn" where
  "verrs pd e = ValidationError [\<lparr> loc = [], msg = pd_msg pd e \<rparr>]"

definition require :: "pydantic \<Rightarrow> perr \<Rightarrow> 'a option \<Rightarrow> exn + 'a" where
  "require pd e r = (case r of None \<Rightarrow> Inl (verrs pd e) | Some v \<Rightarrow> Inr v)"

text \<open>A validator function: its \<^verbatim>\<open>ValueError\<close> becomes an error, anything else escapes.\<close>

definition run_validator :: "pydantic \<Rightarrow> exn + 'a \<Rightarrow> exn + 'a" where
  "run_validator pd r =
     (case r of
        Inl (ValueError m) \<Rightarrow> Inl (verrs pd (ValueErr m))
      | Inl e \<Rightarrow> Inl e
      | Inr v \<Rightarrow> Inr v)"

definition add_loc :: "string \<Rightarrow> verr \<Rightarrow> verr" where
  "add_loc f e = e \<lparr> loc := f # loc e \<rparr>"

definition at_loc :: "string \<Rightarrow> exn + 'a \<Rightarrow> exn + 'a" where
  "at_loc f r =
     (case r of
        Inl (ValidationError es) \<Rightarrow> Inl (ValidationError (map (add_loc f) es))
      | Inl e \<Rightarrow> Inl e
      | Inr v \<Rightarrow> Inr v)"

definition field_errors :: "exn + 'a \<Rightarrow> exn + verr list" where
  "field_errors r =
     (case r of
        Inl (ValidationError es) \<Rightarrow> Inr es
      | Inl e \<Rightarrow> Inl e
      | Inr v \<Rightarrow> Inr [])"

fun collect :: "(exn + verr list) list \<Rightarrow> exn + verr list" where
  "collect [] = Inr []"
| "collect (r # rs) = sum_bind r (\<lambda>es. sum_bind (collect rs) (\<lambda>es'. Inr (es @ es')))"

text \<open>A model is built when no field and no extra key left an error.\<close>

definition build_model :: "(exn + verr list) list \<Rightarrow> 'a \<Rightarrow> exn + 'a" where
  "build_model rs m =
     sum_bind (collect rs) (\<lambda>es. if es = [] then Inr m else Inl (ValidationError es))"

definition get_field :: "pydantic \<Rightarrow> (string \<times> json) list \<Rightarrow> string \<Rightarrow> (json \<Rightarrow> exn + 'a) \<Rightarrow> exn + 'a" where
  "get_field pd kvs f rd =
     at_loc f (case map_of kvs f of None \<Rightarrow> Inl (verrs pd Missing) | Some j \<Rightarrow> rd j)"

definition get_default :: "(string \<times> json) list \<Rightarrow> string \<Rightarrow> 'a \<Rightarrow> (json \<Rightarrow> exn + 'a) \<Rightarrow> exn + 'a" where
  "get_default kvs f d rd =
     at_loc f (case map_of kvs f of None \<Rightarrow> Inr d | Some j \<Rightarrow> rd j)"

definition extra_errors :: "pydantic \<Rightarrow> string list \<Rightarrow> (string \<times> json) list \<Rightarrow> exn + verr list" where
  "extra_errors pd names kvs =
     Inr (map (\<lambda>k. \<lparr> loc = [k], msg = pd_msg pd ExtraForbidden \<rparr>)
            (filter (\<lambda>k. k \<notin> set names) (map fst kvs)))"

section \<open>Facts\<close>

lemma collect_ok: "collect rs = Inr [] \<longleftrightarrow> list_all (\<lambda>r. r = Inr []) rs"
  by (induction rs) (auto simp: sum_bind_def split: sum.splits)

lemma build_model_ok: "build_model rs m = Inr m' \<longleftrightarrow> m' = m \<and> list_all (\<lambda>r. r = Inr []) rs"
  by (auto simp: build_model_def sum_bind_eq_Inr collect_ok [symmetric] split: if_splits)

lemma field_errors_ok:
  "field_errors r = Inr [] \<longleftrightarrow> (\<exists>v. r = Inr v) \<or> r = Inl (ValidationError [])"
  by (auto simp: field_errors_def split: sum.splits exn.splits)

lemma field_errors_Inr [simp]: "field_errors (Inr v) = Inr []"
  by (simp add: field_errors_def)

text \<open>No field reports an empty error list, so an error-free field has a value.\<close>

definition proper :: "exn + 'a \<Rightarrow> bool" where
  "proper r \<longleftrightarrow> r \<noteq> Inl (ValidationError [])"

lemma proper_Inr [simp, intro]: "proper (Inr v)" by (simp add: proper_def)

lemma proper_verrs [simp, intro]: "proper (Inl (verrs pd e))" by (simp add: proper_def verrs_def)

lemma proper_require [simp, intro]: "proper (require pd e r)"
  by (cases r) (simp_all add: require_def)

lemma proper_run_validator [intro]: "proper r \<Longrightarrow> proper (run_validator pd r)"
  by (auto simp: run_validator_def proper_def verrs_def split: sum.splits exn.splits)

lemma proper_at_loc [intro]: "proper r \<Longrightarrow> proper (at_loc f r)"
  by (auto simp: at_loc_def proper_def split: sum.splits exn.splits)

lemma proper_sum_bind [intro]: "proper m \<Longrightarrow> (\<And>x. proper (f x)) \<Longrightarrow> proper (sum_bind m f)"
  by (cases m) (auto simp: proper_def)

lemma proper_get_field [intro]: "(\<And>j. proper (rd j)) \<Longrightarrow> proper (get_field pd kvs f rd)"
  by (auto simp: get_field_def split: option.splits)

lemma proper_get_default [intro]: "(\<And>j. proper (rd j)) \<Longrightarrow> proper (get_default kvs f d rd)"
  by (auto simp: get_default_def split: option.splits)

lemma collect_errors_nonempty:
  "collect rs = Inr es \<Longrightarrow> es \<noteq> [] \<Longrightarrow> \<exists>r \<in> set rs. \<exists>e es'. r = Inr (e # es')"
proof (induction rs arbitrary: es)
  case (Cons r rs)
  then obtain a b where "r = Inr a" "collect rs = Inr b" "es = a @ b"
    by (auto simp: sum_bind_eq_Inr)
  with Cons show ?case by (cases a) auto
qed simp

lemma proper_build_model: "proper (build_model rs m) \<or> (\<exists>r \<in> set rs. \<exists>es. r = Inl (ValidationError es))"
proof (cases "collect rs")
  case (Inl e)
  then have "\<exists>r \<in> set rs. r = Inl e"
    by (induction rs) (auto simp: sum_bind_eq_Inl)
  with Inl show ?thesis by (cases e) (auto simp: build_model_def proper_def)
qed (auto simp: build_model_def proper_def)

lemma field_errors_proper: "proper r \<Longrightarrow> field_errors r = Inr [] \<longleftrightarrow> (\<exists>v. r = Inr v)"
  by (auto simp: field_errors_ok proper_def)

lemma field_errors_no_validation [simp]:
  "field_errors r \<noteq> Inl (ValidationError es)" "Inl (ValidationError es) \<noteq> field_errors r"
  by (auto simp: field_errors_def split: sum.splits exn.splits)

lemma at_loc_Inr [simp]: "at_loc f r = Inr v \<longleftrightarrow> r = Inr v" "Inr v = at_loc f r \<longleftrightarrow> r = Inr v"
  by (auto simp: at_loc_def split: sum.splits exn.splits)

lemma run_validator_Inr [simp]: "run_validator pd r = Inr v \<longleftrightarrow> r = Inr v"
  by (auto simp: run_validator_def split: sum.splits exn.splits)

lemma require_Inr [simp]: "require pd e r = Inr v \<longleftrightarrow> r = Some v"
  by (auto simp: require_def split: option.splits)

lemma get_field_Inr: "get_field pd kvs f rd = Inr v \<longleftrightarrow> (\<exists>j. map_of kvs f = Some j \<and> rd j = Inr v)"
  by (auto simp: get_field_def split: option.splits)

lemma get_default_Inr:
  "get_default kvs f d rd = Inr v \<longleftrightarrow>
     (case map_of kvs f of None \<Rightarrow> v = d | Some j \<Rightarrow> rd j = Inr v)"
  by (auto simp: get_default_def split: option.splits)

lemma extra_errors_ok: "extra_errors pd names kvs = Inr [] \<longleftrightarrow> fst ` set kvs \<subseteq> set names"
  by (auto simp: extra_errors_def filter_empty_conv)

end
