(* ===== verification/Config.thy ===== *)
theory Config
  imports Errors Complex_Main
begin

text \<open>
  \<^verbatim>\<open>shared/config.py\<close>: the settings with their defaults, the range constraints
  their fields declare, the three connection strings and \<open>normalize_pem\<close>.  How
  pydantic-settings reads the environment is not modelled; a configuration is a record that
  satisfies \<open>settings_ok\<close>.
\<close>

section \<open>String operations\<close>

text \<open>\<^verbatim>\<open>str.strip()\<close>: the characters Python counts as white space, in UTF-8.\<close>

definition py_spaces :: "string list" where
  "py_spaces =
     map (map char_of)
       ([[9], [10], [11], [12], [13], [28], [29], [30], [31], [32], [194, 133], [194, 160], [225, 154, 128],
         [226, 128, 128], [226, 128, 129], [226, 128, 130], [226, 128, 131], [226, 128, 132],
         [226, 128, 133], [226, 128, 134], [226, 128, 135], [226, 128, 136], [226, 128, 137],
         [226, 128, 138], [226, 128, 168], [226, 128, 169], [226, 128, 175], [226, 129, 159],
         [227, 128, 128]] :: nat list list)"

fun drop_spaces :: "string list \<Rightarrow> nat \<Rightarrow> string \<Rightarrow> string" where
  "drop_spaces sps 0 s = s"
| "drop_spaces sps (Suc n) s =
     (case find (\<lambda>p. take (length p) s = p) sps of
        None \<Rightarrow> s
      | Some p \<Rightarrow> drop_spaces sps n (drop (length p) s))"

definition py_strip :: "string \<Rightarrow> string" where
  "py_strip s =
     (let l = drop_spaces py_spaces (length s) s
      in rev (drop_spaces (map rev py_spaces) (length l) (rev l)))"

text \<open>\<^verbatim>\<open>raw.replace("\\n", "\n")\<close> of the PEM loader.\<close>

fun unescape_newlines :: "string \<Rightarrow> string" where
  "unescape_newlines (a # b # cs) =
     (if a = CHR 0x5C \<and> b = CHR ''n'' then CHR 0x0A # unescape_newlines cs
      else a # unescape_newlines (b # cs))"
| "unescape_newlines s = s"

definition normalize_pem :: "string \<Rightarrow> string" where
  "normalize_pem raw = (if raw = [] then [] else py_strip (unescape_newlines raw) @ [CHR 0x0A])"

section \<open>Settings\<close>

record settings =
  postgres_user :: string
  postgres_password :: string
  postgres_db :: string
  postgres_host :: string
  postgres_port :: int
  redis_url :: string
  dedupe_ttl_seconds :: int
  freshness_window_seconds :: int
  clock_skew_tolerance_seconds :: int
  dedupe_claim_ttl_seconds :: int
  rabbitmq_user :: string
  rabbitmq_password :: string
  rabbitmq_host :: string
  rabbitmq_port :: int
  settlement_queue :: string
  sender_signing_private_key_pem :: string
  sender_signing_public_key_pem :: string
  settlement_rsa_private_key_pem :: string
  settlement_rsa_public_key_pem :: string
  mesh_hop_count :: int
  mesh_hop_limit :: int
  mesh_node_id :: string
  sender_url :: string
  mesh_relay_url :: string
  bridge_url :: string
  settlement_url :: string
  mesh_forward_timeout_seconds :: rat
  rate_limit_per_minute :: int
  log_level :: string

definition default_settings :: settings where
  "default_settings =
     \<lparr> postgres_user = ''meshsettle'', postgres_password = '''', postgres_db = ''meshsettle'',
       postgres_host = ''localhost'', postgres_port = 5432,
       redis_url = ''redis://localhost:6379/0'', dedupe_ttl_seconds = 86400,
       freshness_window_seconds = 86400, clock_skew_tolerance_seconds = 300,
       dedupe_claim_ttl_seconds = 60,
       rabbitmq_user = ''meshsettle'', rabbitmq_password = '''', rabbitmq_host = ''localhost'',
       rabbitmq_port = 5672, settlement_queue = ''meshsettle.settlements'',
       sender_signing_private_key_pem = '''', sender_signing_public_key_pem = '''',
       settlement_rsa_private_key_pem = '''', settlement_rsa_public_key_pem = '''',
       mesh_hop_count = 2, mesh_hop_limit = 16, mesh_node_id = ''relay-1'',
       sender_url = ''http://localhost:8001'', mesh_relay_url = ''http://localhost:8002'',
       bridge_url = ''http://localhost:8003'', settlement_url = ''http://localhost:8004'',
       mesh_forward_timeout_seconds = 5, rate_limit_per_minute = 60, log_level = ''INFO'' \<rparr>"

text \<open>The \<^verbatim>\<open>ge\<close>, \<^verbatim>\<open>gt\<close> and \<^verbatim>\<open>Literal\<close> constraints of the fields.\<close>

definition settings_ok :: "settings \<Rightarrow> bool" where
  "settings_ok s \<longleftrightarrow>
     1 \<le> freshness_window_seconds s \<and> 0 \<le> clock_skew_tolerance_seconds s
     \<and> 1 \<le> dedupe_claim_ttl_seconds s \<and> 0 \<le> mesh_hop_count s \<and> 1 \<le> mesh_hop_limit s
     \<and> 0 < mesh_forward_timeout_seconds s \<and> 1 \<le> rate_limit_per_minute s
     \<and> log_level s \<in> set [''DEBUG'', ''INFO'', ''WARNING'', ''ERROR'']"

definition postgres_dsn :: "settings \<Rightarrow> string" where
  "postgres_dsn s =
     ''postgresql+asyncpg://'' @ postgres_user s @ '':'' @ postgres_password s
     @ ''@'' @ postgres_host s @ '':'' @ show_int (postgres_port s) @ ''/'' @ postgres_db s"

definition postgres_sync_dsn :: "settings \<Rightarrow> string" where
  "postgres_sync_dsn s =
     ''postgresql+psycopg://'' @ postgres_user s @ '':'' @ postgres_password s
     @ ''@'' @ postgres_host s @ '':'' @ show_int (postgres_port s) @ ''/'' @ postgres_db s"

definition rabbitmq_url :: "settings \<Rightarrow> string" where
  "rabbitmq_url s =
     ''amqp://'' @ rabbitmq_user s @ '':'' @ rabbitmq_password s
     @ ''@'' @ rabbitmq_host s @ '':'' @ show_int (rabbitmq_port s) @ ''/''"

text \<open>\<^verbatim>\<open>argument or settings.field\<close>: the default also for the empty string.\<close>

definition or_text :: "string option \<Rightarrow> string \<Rightarrow> string" where
  "or_text a b = (case a of None \<Rightarrow> b | Some s \<Rightarrow> if s = [] then b else s)"

lemma default_settings_ok: "settings_ok default_settings"
  by (simp add: settings_ok_def default_settings_def)

text \<open>
  \<^verbatim>\<open>get_settings\<close> under \<^verbatim>\<open>lru_cache(maxsize=1)\<close>: the first successful
  \<^verbatim>\<open>Settings()\<close> is kept for the process; what it reads is an argument.
\<close>

definition get_settings :: "exn + settings \<Rightarrow> settings option \<Rightarrow> (exn + settings) \<times> settings option" where
  "get_settings fresh cache =
     (case cache of
        Some s \<Rightarrow> (Inr s, cache)
      | None \<Rightarrow> (fresh, case fresh of Inl e \<Rightarrow> None | Inr s \<Rightarrow> Some s))"

lemma get_settings_once:
  assumes "get_settings first None = (Inr s, cache)"
  shows "get_settings later cache = (Inr s, cache)"
  using assms by (auto simp: get_settings_def split: sum.splits)

section \<open>Facts on stripping\<close>

lemma drop_spaces_done:
  assumes "\<forall>p \<in> set sps. take (length p) s \<noteq> p"
  shows "drop_spaces sps n s = s"
proof -
  have "find (\<lambda>p. take (length p) s = p) sps = None" using assms by (auto simp: find_None_iff)
  then show ?thesis by (cases n) simp_all
qed

lemma drop_spaces_stuck:
  assumes "[] \<notin> set sps" "length s \<le> n"
  shows "\<forall>p \<in> set sps. take (length p) (drop_spaces sps n s) \<noteq> p"
  using assms(2)
proof (induction n arbitrary: s)
  case 0
  then show ?case using assms(1) by auto
next
  case (Suc n)
  show ?case
  proof (cases "find (\<lambda>p. take (length p) s = p) sps")
    case None
    moreover from this have "\<forall>p \<in> set sps. take (length p) s \<noteq> p" by (auto simp: find_None_iff)
    ultimately show ?thesis by simp
  next
    case (Some p)
    then have "p \<in> set sps" by (auto simp: find_Some_iff)
    then have "0 < length p" using assms(1) by (cases p) auto
    with Suc.prems have "length (drop (length p) s) \<le> n" by (simp, linarith)
    with Some Suc.IH show ?thesis by simp
  qed
qed

lemma py_spaces_nonempty: "[] \<notin> set py_spaces" "[] \<notin> set (map rev py_spaces)"
  by (simp_all add: py_spaces_def)

text \<open>What the loader returns ends in one newline and has no white space before it.\<close>

lemma py_strip_end:
  "p \<in> set py_spaces \<Longrightarrow> take (length p) (rev (py_strip s)) \<noteq> rev p"
proof
  assume p: "p \<in> set py_spaces" and eq: "take (length p) (rev (py_strip s)) = rev p"
  define l where "l = drop_spaces py_spaces (length s) s"
  have "\<forall>q \<in> set (map rev py_spaces).
      take (length q) (drop_spaces (map rev py_spaces) (length l) (rev l)) \<noteq> q"
    by (rule drop_spaces_stuck [OF py_spaces_nonempty(2)]) simp
  moreover have "rev (py_strip s) = drop_spaces (map rev py_spaces) (length l) (rev l)"
    by (simp add: py_strip_def Let_def l_def)
  moreover have "rev p \<in> set (map rev py_spaces)" using p by auto
  ultimately show False using eq by (metis length_rev)
qed

end
