(* ===== verification/Sha256.thy ===== *)
theory Sha256
  imports Encoding
begin

text \<open>
  \<^verbatim>\<open>hashlib.sha256\<close>, written out over 32-bit words (FIPS 180-4): padding, the
  message schedule, the compression function and the big-endian digest.  The program uses
  \<^verbatim>\<open>.hexdigest()\<close> for the idempotency key and the first characters of it as a log
  fingerprint, so what matters here is that the digest is always 32 bytes.
\<close>

type_synonym w32 = "32 word"

text \<open>
  The round constants are the first 32 bits of the fractional parts of the cube roots of the
  first 64 primes: the integer cube root of \<open>p * 2 ^ 96\<close>, found bit by bit, wrapped to a word.
\<close>

definition is_prime :: "nat \<Rightarrow> bool" where
  "is_prime n \<longleftrightarrow> list_all (\<lambda>d. n mod d \<noteq> 0) [2..<n]"

fun cube_root :: "nat \<Rightarrow> nat \<Rightarrow> nat \<Rightarrow> nat" where
  "cube_root 0 n r = r"
| "cube_root (Suc b) n r =
     (let r' = r + 2 ^ b in cube_root b n (if r' * r' * r' \<le> n then r' else r))"

definition round_constants :: "w32 list" where
  "round_constants =
     map (\<lambda>p. of_nat (cube_root 36 (p * 2 ^ 96) 0)) (take 64 (filter is_prime [2..<312]))"

datatype sha_state = Sha w32 w32 w32 w32 w32 w32 w32 w32

definition initial_state :: sha_state where
  "initial_state = Sha 0x6a09e667 0xbb67ae85 0x3c6ef372 0xa54ff53a 0x510e527f 0x9b05688c 0x1f83d9ab 0x5be0cd19"

fun add_state :: "sha_state \<Rightarrow> sha_state \<Rightarrow> sha_state" where
  "add_state (Sha a b c d e f g h) (Sha a' b' c' d' e' f' g' h') =
     Sha (a + a') (b + b') (c + c') (d + d') (e + e') (f + f') (g + g') (h + h')"

definition rotr :: "nat \<Rightarrow> w32 \<Rightarrow> w32" where
  "rotr n w = or (drop_bit n w) (push_bit (32 - n) w)"

definition small_sigma0 :: "w32 \<Rightarrow> w32" where
  "small_sigma0 x = xor (xor (rotr 7 x) (rotr 18 x)) (drop_bit 3 x)"

definition small_sigma1 :: "w32 \<Rightarrow> w32" where
  "small_sigma1 x = xor (xor (rotr 17 x) (rotr 19 x)) (drop_bit 10 x)"

definition big_sigma0 :: "w32 \<Rightarrow> w32" where
  "big_sigma0 x = xor (xor (rotr 2 x) (rotr 13 x)) (rotr 22 x)"

definition big_sigma1 :: "w32 \<Rightarrow> w32" where
  "big_sigma1 x = xor (xor (rotr 6 x) (rotr 11 x)) (rotr 25 x)"

text \<open>The schedule window holds the latest sixteen words, oldest first.\<close>

fun schedule :: "nat \<Rightarrow> w32 list \<Rightarrow> w32 list" where
  "schedule 0 win = win"
| "schedule (Suc n) win =
     (case win of
        [] \<Rightarrow> []
      | w # ws \<Rightarrow> w # schedule n (ws @ [small_sigma1 (win ! 14) + win ! 9 + small_sigma0 (win ! 1) + w]))"

fun sha_round :: "sha_state \<Rightarrow> w32 \<times> w32 \<Rightarrow> sha_state" where
  "sha_round (Sha a b c d e f g h) (k, w) =
     (let t1 = h + big_sigma1 e + xor (and e f) (and (not e) g) + k + w;
          t2 = big_sigma0 a + xor (xor (and a b) (and a c)) (and b c)
      in Sha (t1 + t2) a b c (d + t1) e f g)"

definition compress :: "sha_state \<Rightarrow> w32 list \<Rightarrow> sha_state" where
  "compress st block = add_state st (foldl sha_round st (zip round_constants (schedule 48 block)))"

fun be_words :: "bytes \<Rightarrow> w32 list" where
  "be_words (a # b # c # d # r) =
     of_nat (unat a * 16777216 + unat b * 65536 + unat c * 256 + unat d) # be_words r"
| "be_words r = []"

fun be_bytes :: "nat \<Rightarrow> nat \<Rightarrow> bytes" where
  "be_bytes 0 n = []"
| "be_bytes (Suc k) n = be_bytes k (n div 256) @ [of_nat (n mod 256)]"

fun compress_blocks :: "nat \<Rightarrow> sha_state \<Rightarrow> w32 list \<Rightarrow> sha_state" where
  "compress_blocks 0 st ws = st"
| "compress_blocks (Suc n) st ws = compress_blocks n (compress st (take 16 ws)) (drop 16 ws)"

definition sha_pad :: "bytes \<Rightarrow> bytes" where
  "sha_pad m = m @ [0x80] @ replicate ((119 - length m mod 64) mod 64) 0 @ be_bytes 8 (8 * length m)"

fun state_bytes :: "sha_state \<Rightarrow> bytes" where
  "state_bytes (Sha a b c d e f g h) = concat (map (be_bytes 4 \<circ> unat) [a, b, c, d, e, f, g, h])"

definition sha256 :: "bytes \<Rightarrow> bytes" where
  "sha256 m =
     (let p = sha_pad m
      in state_bytes (compress_blocks (length p div 64) initial_state (be_words p)))"

lemma length_be_bytes [simp]: "length (be_bytes k n) = k"
  by (induction k arbitrary: n) simp_all

lemma length_sha256: "length (sha256 m) = 32"
  unfolding sha256_def Let_def by (cases "compress_blocks (length (sha_pad m) div 64) initial_state (be_words (sha_pad m))") simp

text \<open>The padded message is whole blocks, so no byte of it is dropped.\<close>

lemma sha_pad_blocks: "length (sha_pad m) mod 64 = 0"
proof -
  define r q where "r = length m mod 64" and "q = length m div 64"
  have m: "length m = 64 * q + r" by (simp add: r_def q_def)
  have r: "r < 64" by (simp add: r_def)
  have len: "length (sha_pad m) = length m + 9 + (119 - r) mod 64"
    by (simp add: sha_pad_def r_def)
  have "\<exists>k. r + 9 + (119 - r) mod 64 = 64 * k"
  proof (cases "r \<le> 55")
    case True
    then have "(119 - r) mod 64 = 55 - r" by (simp add: mod_if)
    with True have "r + 9 + (119 - r) mod 64 = 64 * 1" by simp
    then show ?thesis by blast
  next
    case False
    then have "(119 - r) mod 64 = 119 - r" using r by simp
    with False r have "r + 9 + (119 - r) mod 64 = 64 * 2" by simp
    then show ?thesis by blast
  qed
  then obtain k where "r + 9 + (119 - r) mod 64 = 64 * k" by blast
  then have "length (sha_pad m) = 64 * (q + k)" unfolding len m by simp
  then show ?thesis by simp
qed

end
