(* ===== verification/Json_Codec.thy ===== *)
theory Json_Codec
  imports Json "HOL-Library.Multiset"
begin

text \<open>
  \<^verbatim>\<open>json.loads\<close> on \<^verbatim>\<open>bytes\<close> (the encoding detection of
  \<^verbatim>\<open>json.detect_encoding\<close> and the decoders it selects) and the round trip
  \<open>json_loads (utf8_encode (json_text j)) = Inr j\<close>, from which \<open>canonical_json\<close>
  is uniquely readable.
\<close>

section \<open>Decoding bytes to text\<close>

definition is_cont :: "nat \<Rightarrow> bool" where
  "is_cont b \<longleftrightarrow> 128 \<le> b \<and> b < 192"

text \<open>Well-formed UTF-8, lone surrogates allowed (\<^verbatim>\<open>errors="surrogatepass"\<close>).\<close>

fun utf8_valid :: "nat list \<Rightarrow> bool" where
  "utf8_valid [] = True"
| "utf8_valid (b # bs) =
     (if b < 128 then utf8_valid bs
      else if 194 \<le> b \<and> b \<le> 223 then
        (case bs of c # r \<Rightarrow> is_cont c \<and> utf8_valid r | _ \<Rightarrow> False)
      else if 224 \<le> b \<and> b \<le> 239 then
        (case bs of
           c # d # r \<Rightarrow> is_cont c \<and> is_cont d \<and> (b = 224 \<longrightarrow> 160 \<le> c) \<and> utf8_valid r
         | _ \<Rightarrow> False)
      else if 240 \<le> b \<and> b \<le> 244 then
        (case bs of
           c # d # e # r \<Rightarrow>
             is_cont c \<and> is_cont d \<and> is_cont e \<and> (b = 240 \<longrightarrow> 144 \<le> c) \<and> (b = 244 \<longrightarrow> c \<le> 143)
             \<and> utf8_valid r
         | _ \<Rightarrow> False)
      else False)"

definition valid_utf8 :: "bytes \<Rightarrow> bool" where
  "valid_utf8 raw = utf8_valid (map unat raw)"

datatype text_encoding = Utf8 | Utf8_Sig | Utf16_BOM | Utf16_BE | Utf16_LE | Utf32_BOM | Utf32_BE | Utf32_LE

definition starts_with :: "nat list \<Rightarrow> nat list \<Rightarrow> bool" where
  "starts_with p s \<longleftrightarrow> take (length p) s = p"

definition detect_encoding :: "nat list \<Rightarrow> text_encoding" where
  "detect_encoding b =
     (if starts_with [0, 0, 254, 255] b \<or> starts_with [255, 254, 0, 0] b then Utf32_BOM
      else if starts_with [254, 255] b \<or> starts_with [255, 254] b then Utf16_BOM
      else if starts_with [239, 187, 191] b then Utf8_Sig
      else if 4 \<le> length b then
        (if b ! 0 = 0 then (if b ! 1 \<noteq> 0 then Utf16_BE else Utf32_BE)
         else if b ! 1 = 0 then (if b ! 2 \<noteq> 0 \<or> b ! 3 \<noteq> 0 then Utf16_LE else Utf32_LE)
         else Utf8)
      else if length b = 2 then
        (if b ! 0 = 0 then Utf16_BE else if b ! 1 = 0 then Utf16_LE else Utf8)
      else Utf8)"

fun units16 :: "bool \<Rightarrow> nat list \<Rightarrow> nat list option" where
  "units16 be [] = Some []"
| "units16 be [x] = None"
| "units16 be (x # y # r) = map_option (Cons (if be then 256 * x + y else 256 * y + x)) (units16 be r)"

fun join_surrogates :: "nat list \<Rightarrow> nat list" where
  "join_surrogates (h # l # r) =
     (if 55296 \<le> h \<and> h \<le> 56319 \<and> 56320 \<le> l \<and> l \<le> 57343
      then (65536 + (h - 55296) * 1024 + (l - 56320)) # join_surrogates r
      else h # join_surrogates (l # r))"
| "join_surrogates us = us"

fun units32 :: "bool \<Rightarrow> nat list \<Rightarrow> nat list option" where
  "units32 be [] = Some []"
| "units32 be (w # x # y # z # r) =
     (let n = (if be then 16777216 * w + 65536 * x + 256 * y + z
               else 16777216 * z + 65536 * y + 256 * x + w)
      in if n \<le> 1114111 then map_option (Cons n) (units32 be r) else None)"
| "units32 be _ = None"

definition text_of_codes :: "nat list option \<Rightarrow> exn + string" where
  "text_of_codes cs = (case cs of
      None \<Rightarrow> Inl (UnicodeDecodeError ''invalid data'')
    | Some ns \<Rightarrow> Inr (concat (map utf8_of_code ns)))"

definition decode_utf8 :: "bytes \<Rightarrow> exn + string" where
  "decode_utf8 raw =
     (if valid_utf8 raw then Inr (utf8_units raw) else Inl (UnicodeDecodeError ''invalid data''))"

definition decode_json_bytes :: "bytes \<Rightarrow> exn + string" where
  "decode_json_bytes raw =
     (let b = map unat raw in
      case detect_encoding b of
        Utf8 \<Rightarrow> decode_utf8 raw
      | Utf8_Sig \<Rightarrow> decode_utf8 (drop 3 raw)
      | Utf16_BOM \<Rightarrow> text_of_codes (map_option join_surrogates (units16 (hd b = 254) (drop 2 b)))
      | Utf16_BE \<Rightarrow> text_of_codes (map_option join_surrogates (units16 True b))
      | Utf16_LE \<Rightarrow> text_of_codes (map_option join_surrogates (units16 False b))
      | Utf32_BOM \<Rightarrow> text_of_codes (units32 (hd b = 0) (drop 4 b))
      | Utf32_BE \<Rightarrow> text_of_codes (units32 True b)
      | Utf32_LE \<Rightarrow> text_of_codes (units32 False b))"

definition json_loads :: "nat \<Rightarrow> bytes \<Rightarrow> exn + json" where
  "json_loads limit raw = sum_bind (decode_json_bytes raw) (loads_text limit)"

section \<open>Strings\<close>

lemma prepend_append [simp]: "prepend x (prepend y o1) = prepend (x @ y) o1"
  by (cases o1) (auto simp: prepend_def)

lemma hex_value_zero: "hex_value (CHR ''0'') = Some 0"
  by (simp add: hex_value_def)

lemma scan_unicode_control:
  assumes "n < 32"
  shows "scan_unicode (CHR ''0'' # CHR ''0'' # hex_char (n div 16) # hex_char (n mod 16) # t) = Some (n, t)"
proof -
  have h: "hex_value (hex_char (n div 16)) = Some (n div 16)"
    "hex_value (hex_char (n mod 16)) = Some (n mod 16)"
    using assms by simp_all
  have "scan_hex4 (CHR ''0'' # CHR ''0'' # hex_char (n div 16) # hex_char (n mod 16) # t) = Some (n, t)"
    by (simp add: scan_hex4_def h hex_value_zero)
  then show ?thesis using assms by (simp add: scan_unicode_def)
qed

lemma code_point:
  "of_char c = (34 :: nat) \<Longrightarrow> c = quote_char" "of_char c = (92 :: nat) \<Longrightarrow> c = backslash"
  "of_char c = (10 :: nat) \<Longrightarrow> c = CHR 0x0A" "of_char c = (13 :: nat) \<Longrightarrow> c = CHR 0x0D"
  "of_char c = (9 :: nat) \<Longrightarrow> c = CHR 0x09" "of_char c = (12 :: nat) \<Longrightarrow> c = CHR 0x0C"
  "of_char c = (8 :: nat) \<Longrightarrow> c = CHR 0x08"
  by (rule of_char_eqI [where 'a = nat], simp)+

lemma scan_str_escape:
  "scan_str (escape_char c @ t) = prepend [c] (scan_str t)"
proof -
  let ?n = "of_char c :: nat"
  consider "c = quote_char" | "c = backslash" | "c = CHR 0x0A" | "c = CHR 0x0D" | "c = CHR 0x09"
    | "c = CHR 0x0C" | "c = CHR 0x08" | "?n < 32" "?n \<notin> {10, 13, 9, 12, 8}"
    | "32 \<le> ?n" "c \<noteq> quote_char" "c \<noteq> backslash"
    using code_point [of c] by fastforce
  then show ?thesis
  proof cases
    case 8
    then have "utf8_of_code ?n = [c]"
      by (simp add: utf8_of_code_def)
    with 8 show ?thesis
      by (subst scan_str.simps) (simp add: escape_char_def scan_unicode_control Let_def)
  next
    case 9
    then have "?n \<noteq> 34" "?n \<noteq> 92" using code_point [of c] by blast+
    with 9 show ?thesis
      by (subst scan_str.simps) (simp add: escape_char_def)
  qed (subst scan_str.simps, simp add: escape_char_def unescape_char_def)+
qed

lemma scan_str_quoted:
  "scan_str (concat (map escape_char s) @ quote_char # rest) = Some (s, rest)"
proof (induction s)
  case Nil
  show ?case by (subst scan_str.simps) simp
next
  case (Cons c s)
  then show ?case by (simp add: scan_str_escape prepend_def)
qed

section \<open>Numbers and literals\<close>

text \<open>What follows a value inside an array or object, or the end of the text.\<close>

definition ends_value :: "string \<Rightarrow> bool" where
  "ends_value r \<longleftrightarrow> r = [] \<or> hd r \<in> {CHR '','', CHR '']'', CHR ''}''}"

lemma ends_value_simps [simp]:
  "ends_value []" "ends_value (CHR '','' # r)" "ends_value (CHR '']'' # r)" "ends_value (CHR ''}'' # r)"
  by (simp_all add: ends_value_def)

lemma is_digit_show_nat: "c \<in> set (show_nat n) \<Longrightarrow> is_digit c"
  by (simp add: is_digit_def show_nat_digits)

lemma ends_value_not_digit: "ends_value (c # r) \<Longrightarrow> \<not> is_digit c \<and> c \<noteq> CHR ''.'' \<and> c \<noteq> CHR ''e'' \<and> c \<noteq> CHR ''E''"
  by (auto simp: ends_value_def is_digit_def digit_value_def)

lemma takeWhile_show_nat:
  assumes "ends_value rest"
  shows "takeWhile is_digit (show_nat n @ rest) = show_nat n"
    and "dropWhile is_digit (show_nat n @ rest) = rest"
  using assms by (cases rest; simp add: is_digit_show_nat takeWhile_append2 dropWhile_append2 ends_value_not_digit)+

lemma scan_tail_ends:
  assumes "ends_value rest"
  shows "scan_fraction rest = ([], rest)" "scan_exponent rest = ([], rest)"
  using assms ends_value_not_digit
  by (cases rest; force simp: scan_fraction_def scan_exponent_def split: list.split)+

lemma hd_show_nat: "hd (show_nat n) = CHR ''0'' \<longleftrightarrow> n = 0"
proof (induction n rule: show_nat.induct)
  case (1 n)
  have zero: "CHR ''0'' = digit_char 0" by (rule sym) (simp add: digit_char_def char_of_nat_eq_iff)
  show ?case
  proof (cases "n < 10")
    case True
    then show ?thesis
      unfolding zero by (subst show_nat.simps) (simp add: digit_char_eq_iff)
  next
    case False
    with "1" show ?thesis by (subst show_nat.simps) (simp add: hd_append)
  qed
qed

lemma show_nat_0: "show_nat 0 = [CHR ''0'']"
  by (subst show_nat.simps) (simp add: digit_char_def char_of_nat_eq_iff)

definition small_int :: "int \<Rightarrow> bool" where
  "small_int i \<longleftrightarrow> length (show_nat (nat \<bar>i\<bar>)) \<le> 4300"

lemma finish_number_show_nat:
  assumes "ends_value rest" "length (show_nat n) \<le> 4300"
  shows "finish_number neg (show_nat n) rest = Inr (JInt (if neg then - int n else int n), rest)"
  using assms by (simp add: finish_number_def scan_tail_ends read_digits_show_nat)

lemma scan_number_show_int:
  assumes rest: "ends_value rest" and small: "small_int i"
  shows "scan_number (show_int i @ rest) = Inr (JInt i, rest)"
proof -
  let ?n = "nat \<bar>i\<bar>"
  let ?neg = "i < 0"
  obtain c cs where c: "show_nat ?n = c # cs"
    by (cases "show_nat ?n") simp_all
  have digit: "is_digit c" using is_digit_show_nat [of c ?n] c by simp
  have nminus: "c \<noteq> CHR ''-''" using digit by (auto simp: is_digit_def digit_value_def)
  have zero: "c = CHR ''0'' \<longleftrightarrow> ?n = 0" using hd_show_nat [of ?n] c by simp
  have val: "finish_number neg (c # cs) rest = Inr (JInt (if neg then - int ?n else int ?n), rest)" for neg
    using finish_number_show_nat [OF rest, of ?n neg] small c by (simp add: small_int_def)
  have body: "(case c # cs @ rest of [] \<Rightarrow> Inl (JSONDecodeError ''Expecting value'')
      | c' # cs' \<Rightarrow>
          if c' = CHR ''0'' then finish_number neg [c'] cs'
          else if is_digit c' then finish_number neg (takeWhile is_digit (c # cs @ rest)) (dropWhile is_digit (c # cs @ rest))
          else Inl (JSONDecodeError ''Expecting value''))
      = Inr (JInt (if neg then - int ?n else int ?n), rest)" for neg
  proof (cases "?n = 0")
    case True
    then have "cs = []" "c = CHR ''0''" using c show_nat_0 by auto
    with val [of neg] True show ?thesis by simp
  next
    case False
    have "takeWhile is_digit (c # cs @ rest) = c # cs" "dropWhile is_digit (c # cs @ rest) = rest"
      using takeWhile_show_nat [OF rest, of ?n] c by simp_all
    with False zero digit val [of neg] show ?thesis by simp
  qed
  show ?thesis
  proof (cases ?neg)
    case True
    then have "show_int i @ rest = CHR ''-'' # c # cs @ rest" by (simp add: show_int_def c [symmetric] flip: append_Cons)
    with body [of True] True show ?thesis by (simp add: scan_number_def)
  next
    case False
    then have "show_int i @ rest = c # cs @ rest" by (simp add: show_int_def c [symmetric] flip: append_Cons)
    with body [of False] False nminus show ?thesis by (simp add: scan_number_def)
  qed
qed

lemma show_int_first:
  obtains c cs where "show_int i = c # cs" "is_digit c"
  | c cs where "show_int i = CHR ''-'' # c # cs" "is_digit c"
proof -
  obtain c cs where c: "show_nat (nat \<bar>i\<bar>) = c # cs" "is_digit c"
    using is_digit_show_nat by (metis list.exhaust list.set_intros(1) show_nat_nonempty)
  show thesis
  proof (cases "i < 0")
    case True
    with c that(2) [of c cs] show thesis by (simp add: show_int_def)
  next
    case False
    with c that(1) [of c cs] show thesis by (simp add: show_int_def)
  qed
qed

lemma is_digit_not_letter:
  "is_digit c \<Longrightarrow> CHR ''n'' \<noteq> c \<and> CHR ''t'' \<noteq> c \<and> CHR ''f'' \<noteq> c \<and> CHR ''N'' \<noteq> c \<and> CHR ''I'' \<noteq> c \<and> CHR ''-'' \<noteq> c"
  by (auto simp: is_digit_def digit_value_def)

lemma scan_literal_digit: "is_digit c \<Longrightarrow> scan_literal (c # s) = None"
  using is_digit_not_letter [of c] by (simp add: scan_literal_def json_literals_def)

lemma scan_literal_minus_digit: "is_digit c \<Longrightarrow> scan_literal (CHR ''-'' # c # s) = None"
  using is_digit_not_letter [of c] by (simp add: scan_literal_def json_literals_def)

lemma is_digit_not_open: "is_digit c \<Longrightarrow> c \<noteq> quote_char \<and> c \<noteq> CHR ''{'' \<and> c \<noteq> CHR ''[''"
  by (auto simp: is_digit_def digit_value_def)

lemma scan_value_int:
  assumes "ends_value rest" "small_int i"
  shows "scan_value (Suc f) d (show_int i @ rest) = Inr (JInt i, rest)"
proof -
  have num: "scan_number (show_int i @ rest) = Inr (JInt i, rest)"
    by (rule scan_number_show_int [OF assms])
  show ?thesis
  proof (rule show_int_first [of i])
    fix c cs assume i: "show_int i = c # cs" "is_digit c"
    then show ?thesis
      using num is_digit_not_open [OF i(2)] by (simp add: scan_literal_digit)
  next
    fix c cs assume i: "show_int i = CHR ''-'' # c # cs" "is_digit c"
    then show ?thesis
      using num by (simp add: scan_literal_minus_digit)
  qed
qed

lemma scan_value_literals:
  "scan_value (Suc f) d (''null'' @ rest) = Inr (JNull, rest)"
  "scan_value (Suc f) d (''true'' @ rest) = Inr (JBool True, rest)"
  "scan_value (Suc f) d (''false'' @ rest) = Inr (JBool False, rest)"
  by (simp_all add: scan_literal_def json_literals_def)

lemma scan_value_quoted:
  "scan_value (Suc f) d (quote_json s @ rest) = Inr (JStr s, rest)"
  by (simp add: quote_json_def scan_str_quoted)

section \<open>The round trip of whole values\<close>

text \<open>How deep containers nest, and the values whose text reads back: no floats, integers
  below the digit limit, and no key twice in one object.\<close>

fun json_depth :: "json \<Rightarrow> nat" where
  "json_depth (JArr xs) = Suc (foldr max (map json_depth xs) 0)"
| "json_depth (JObj kvs) = Suc (foldr max (map (\<lambda>(k, v). json_depth v) kvs) 0)"
| "json_depth _ = 0"

fun wf_json :: "json \<Rightarrow> bool" where
  "wf_json (JInt i) = small_int i"
| "wf_json (JFloat x) = False"
| "wf_json (JArr xs) = list_all wf_json xs"
| "wf_json (JObj kvs) = (distinct (map fst kvs) \<and> list_all (\<lambda>(k, v). wf_json v) kvs)"
| "wf_json _ = True"

lemma foldr_max_le [simp]: "foldr max ns (0 :: nat) \<le> d \<longleftrightarrow> (\<forall>n \<in> set ns. n \<le> d)"
  by (induction ns) auto

lemma json_text_nonempty: "json_text j \<noteq> [] \<or> (\<exists>x. j = JFloat x)"
  by (cases j) (auto simp: show_int_def quote_json_def)

lemma digit_first: "is_digit c \<Longrightarrow> \<not> is_ws c \<and> c \<noteq> CHR '']'' \<and> c \<noteq> CHR ''}''"
proof (intro conjI)
  assume c: "is_digit c"
  then show "\<not> is_ws c"
    by (auto simp: is_ws_def is_digit_def digit_value_def Let_def split: if_splits)
  show "c \<noteq> CHR '']''" "c \<noteq> CHR ''}''"
    using c by (auto simp: is_digit_def digit_value_def)
qed

lemma not_ws_minus: "\<not> is_ws (CHR ''-'')"
  by (simp add: is_ws_def)

lemma json_text_first_not_ws:
  assumes "wf_json j" obtains c cs where "json_text j = c # cs" "\<not> is_ws c" "c \<noteq> CHR '']''" "c \<noteq> CHR ''}''"
proof (cases j)
  case (JInt i)
  show thesis
    by (rule show_int_first [of i]) (use JInt that digit_first not_ws_minus in \<open>force+\<close>)
next
  case (JBool b)
  with that show thesis by (cases b) (simp_all add: is_ws_def)
qed (use assms that in \<open>auto simp: is_ws_def quote_json_def\<close>)

lemma skip_ws_not_ws [simp]: "\<not> is_ws c \<Longrightarrow> skip_ws (c # cs) = c # cs"
  by (simp add: skip_ws_def)

lemma not_ws_punctuation [simp]:
  "\<not> is_ws (CHR '','')" "\<not> is_ws (CHR '':'')" "\<not> is_ws (CHR '']'')" "\<not> is_ws (CHR ''}'')"
  "\<not> is_ws (CHR ''['')" "\<not> is_ws (CHR ''{'')" "\<not> is_ws quote_char"
  by (simp_all add: is_ws_def)

lemma skip_ws_json_text: "wf_json j \<Longrightarrow> skip_ws (json_text j @ r) = json_text j @ r"
  by (rule json_text_first_not_ws [of j]) auto

lemma update_new_key: "k \<notin> fst ` set acc \<Longrightarrow> AList.update k v acc = acc @ [(k, v)]"
  by (induction acc) auto

text \<open>The fact for one value that the induction over values establishes.\<close>

definition reads_back :: "json \<Rightarrow> bool" where
  "reads_back j \<longleftrightarrow> (\<forall>f d rest. length (json_text j) \<le> f \<longrightarrow> json_depth j \<le> d \<longrightarrow> ends_value rest
     \<longrightarrow> scan_value f d (json_text j @ rest) = Inr (j, rest))"

lemma reads_backD:
  "reads_back j \<Longrightarrow> length (json_text j) \<le> f \<Longrightarrow> json_depth j \<le> d \<Longrightarrow> ends_value rest
    \<Longrightarrow> scan_value f d (json_text j @ rest) = Inr (j, rest)"
  by (simp add: reads_back_def)

lemma scan_elems_text:
  assumes "xs \<noteq> []" "list_all wf_json xs" "\<forall>x \<in> set xs. reads_back x \<and> json_depth x \<le> d"
    and "length (commas (map json_text xs)) < f"
  shows "scan_elems f d acc (commas (map json_text xs) @ CHR '']'' # rest) = Inr (JArr (acc @ xs), rest)"
  using assms
proof (induction xs arbitrary: f acc rule: induct_list012)
  case (2 x)
  then obtain g where "f = Suc g" "length (json_text x) \<le> g" by (cases f) auto
  with 2 show ?case by (simp add: reads_backD)
next
  case (3 x y ys)
  then obtain g where g: "f = Suc g" "length (json_text x) + length (commas (map json_text (y # ys))) < g"
    by (cases f) auto
  have "scan_value g d (json_text x @ CHR '','' # commas (map json_text (y # ys)) @ CHR '']'' # rest)
      = Inr (x, CHR '','' # commas (map json_text (y # ys)) @ CHR '']'' # rest)"
    using 3 g by (intro reads_backD) auto
  moreover have "skip_ws (commas (map json_text (y # ys)) @ CHR '']'' # rest)
      = commas (map json_text (y # ys)) @ CHR '']'' # rest"
    using "3.prems"(2) by (cases ys) (simp_all add: skip_ws_json_text)
  ultimately show ?case
    using "3.IH"(2) [of g "acc @ [x]"] "3.prems" g by simp
qed simp

abbreviation member_text :: "string \<times> json \<Rightarrow> string" where
  "member_text \<equiv> \<lambda>(k, v). quote_json k @ CHR '':'' # json_text v"

lemma scan_members_text:
  assumes "kvs \<noteq> []" "list_all (\<lambda>(k, v). wf_json v) kvs"
    "\<forall>(k, v) \<in> set kvs. reads_back v \<and> json_depth v \<le> d"
    and "length (commas (map member_text kvs)) < f" "distinct (map fst (acc @ kvs))"
  shows "scan_members f d acc (commas (map member_text kvs) @ CHR ''}'' # rest) = Inr (JObj (acc @ kvs), rest)"
  using assms
proof (induction kvs arbitrary: f acc rule: induct_list012)
  case (2 kv)
  obtain k v where kv: "kv = (k, v)" by (cases kv)
  with 2 obtain g where "f = Suc g" "length (json_text v) \<le> g" by (cases f) auto
  with 2 kv show ?case
    by (simp add: reads_backD quote_json_def scan_str_quoted skip_ws_json_text update_new_key)
next
  case (3 kv kw kws)
  obtain k v where kv: "kv = (k, v)" by (cases kv)
  let ?more = "commas (map member_text (kw # kws)) @ CHR ''}'' # rest"
  from 3 kv obtain g where g: "f = Suc g" "length (json_text v) + length (commas (map member_text (kw # kws))) < g"
    by (cases f) auto
  have "scan_value g d (json_text v @ CHR '','' # ?more) = Inr (v, CHR '','' # ?more)"
    using 3 g kv by (intro reads_backD) auto
  moreover have "skip_ws ?more = ?more"
    by (cases kw; cases kws) (simp_all add: quote_json_def)
  moreover have "scan_members g d (acc @ [(k, v)]) ?more = Inr (JObj (acc @ [(k, v)] @ kw # kws), rest)"
    using "3.IH"(2) [of g "acc @ [(k, v)]"] "3.prems" g kv by simp
  moreover have "k \<notin> fst ` set acc" using "3.prems"(5) kv by auto
  ultimately show ?case
    using "3.prems"(2) g kv
    by (simp add: quote_json_def scan_str_quoted skip_ws_json_text update_new_key)
qed simp

lemma scan_value_json_text: "wf_json j \<Longrightarrow> reads_back j"
proof (induction j)
  case (JArr xs)
  show ?case unfolding reads_back_def
  proof (intro allI impI)
    fix f d rest
    assume f: "length (json_text (JArr xs)) \<le> f" and d: "json_depth (JArr xs) \<le> d"
    obtain g where g: "f = Suc g" "length (commas (map json_text xs)) < g" using f by (cases f) auto
    obtain e where e: "d = Suc e" "\<forall>x \<in> set xs. json_depth x \<le> e" using d by (cases d) auto
    show "scan_value f d (json_text (JArr xs) @ rest) = Inr (JArr xs, rest)"
    proof (cases xs)
      case Nil
      with g e show ?thesis by simp
    next
      case (Cons x ys)
      have "wf_json x" using JArr.prems Cons by simp
      then obtain c cs where "json_text x = c # cs" "\<not> is_ws c" "c \<noteq> CHR '']''"
        by (rule json_text_first_not_ws)
      then obtain cs' where c: "commas (map json_text xs) @ CHR '']'' # rest = c # cs'" "\<not> is_ws c" "c \<noteq> CHR '']''"
        using Cons by (cases ys) auto
      have "scan_elems g e [] (commas (map json_text xs) @ CHR '']'' # rest) = Inr (JArr ([] @ xs), rest)"
        using JArr g e Cons by (intro scan_elems_text) (auto simp: list_all_iff)
      with c g e show ?thesis by simp
    qed
  qed
next
  case (JObj kvs)
  show ?case unfolding reads_back_def
  proof (intro allI impI)
    fix f d rest
    assume f: "length (json_text (JObj kvs)) \<le> f" and d: "json_depth (JObj kvs) \<le> d"
    obtain g where g: "f = Suc g" "length (commas (map member_text kvs)) < g" using f by (cases f) auto
    obtain e where e: "d = Suc e" "\<forall>(k, v) \<in> set kvs. json_depth v \<le> e" using d by (cases d) force+
    show "scan_value f d (json_text (JObj kvs) @ rest) = Inr (JObj kvs, rest)"
    proof (cases kvs)
      case Nil
      with g e show ?thesis by simp
    next
      case (Cons kv kws)
      obtain cs where c: "commas (map member_text kvs) @ CHR ''}'' # rest = quote_char # cs"
        using Cons by (cases kv; cases kws) (auto simp: quote_json_def)
      have "\<forall>(k, v) \<in> set kvs. reads_back v"
        using JObj.IH JObj.prems by (force simp: list_all_iff)
      then have "scan_members g e [] (commas (map member_text kvs) @ CHR ''}'' # rest) = Inr (JObj ([] @ kvs), rest)"
        using JObj.prems g e Cons by (intro scan_members_text) auto
      with c g e show ?thesis by simp
    qed
  qed
next
  case (JBool b)
  show ?case unfolding reads_back_def
  proof (intro allI impI)
    fix f d rest
    assume "length (json_text (JBool b)) \<le> f"
    then obtain g where "f = Suc g" by (cases f) (auto split: if_splits)
    then show "scan_value f d (json_text (JBool b) @ rest) = Inr (JBool b, rest)"
      using scan_value_literals(2,3) [of g d rest] by (cases b) simp_all
  qed
next
  case JNull
  show ?case unfolding reads_back_def
  proof (intro allI impI)
    fix f d rest
    assume "length (json_text JNull) \<le> f"
    then obtain g where "f = Suc g" by (cases f) auto
    then show "scan_value f d (json_text JNull @ rest) = Inr (JNull, rest)"
      using scan_value_literals(1) [of g d rest] by simp
  qed
next
  case (JInt i)
  show ?case unfolding reads_back_def
  proof (intro allI impI)
    fix f d rest
    assume "length (json_text (JInt i)) \<le> f" "ends_value rest"
    moreover have "show_int i \<noteq> []" by (simp add: show_int_def)
    ultimately show "scan_value f d (json_text (JInt i) @ rest) = Inr (JInt i, rest)"
      using JInt by (cases f) (simp_all add: scan_value_int del: scan_value.simps(2))
  qed
next
  case (JStr s)
  show ?case unfolding reads_back_def
  proof (intro allI impI)
    fix f d rest
    assume "length (json_text (JStr s)) \<le> f"
    then show "scan_value f d (json_text (JStr s) @ rest) = Inr (JStr s, rest)"
      by (cases f) (simp_all add: scan_value_quoted del: scan_value.simps, simp add: quote_json_def)
  qed
qed simp

theorem loads_text_json_text:
  assumes "wf_json j" "json_depth j \<le> limit"
  shows "loads_text limit (json_text j) = Inr j"
proof -
  have "skip_ws (json_text j) = json_text j"
    using skip_ws_json_text [OF assms(1), of "[]"] by simp
  moreover have "scan_value (Suc (2 * length (json_text j))) limit (json_text j) = Inr (j, [])"
    using reads_backD [OF scan_value_json_text [OF assms(1)], of "Suc (2 * length (json_text j))" limit "[]"] assms(2)
    by simp
  ultimately show ?thesis by (simp add: loads_text_def skip_ws_def)
qed

section \<open>The fuel is enough\<close>

lemma prepend_SomeD: "prepend x o1 = Some (s, r) \<Longrightarrow> \<exists>t. o1 = Some (t, r)"
  by (cases o1) (auto simp: prepend_def)

lemma scan_str_shorter: "scan_str s = Some (t, r) \<Longrightarrow> length r < length s"
proof (induction s arbitrary: t r rule: scan_str.induct)
  case (1 s)
  note IH = "1.IH"
  show ?case
  proof (cases s)
    case Nil
    with "1.prems" show ?thesis by (simp add: scan_str.simps [of "[]"])
  next
    case (Cons c cs)
    show ?thesis
    proof (cases "c = backslash")
      case True
      with "1.prems" Cons obtain e es where es: "cs = e # es"
        by (cases cs) (auto simp: scan_str.simps [of "[backslash]"])
      have unfolded: "scan_str s = (if e = CHR ''u'' then
          (case scan_unicode es of None \<Rightarrow> None
           | Some (cp, rest) \<Rightarrow> prepend (utf8_of_code cp) (scan_str rest))
          else (case unescape_char e of None \<Rightarrow> None | Some x \<Rightarrow> prepend [x] (scan_str es)))"
        by (subst scan_str.simps) (simp add: Cons True es)
      show ?thesis
        using "1.prems" IH(1) [OF Cons _ True es] IH(2) [OF Cons _ True es] Cons True es unfolded
        by (fastforce split: if_splits option.splits dest!: prepend_SomeD dest: scan_unicode_shorter)
    next
      case False
      have "scan_str s = (if c = quote_char then Some ([], cs)
          else if (of_char c :: nat) < 32 then None else prepend [c] (scan_str cs))"
        by (subst scan_str.simps) (simp add: Cons False)
      with "1.prems" IH(3) [OF Cons _ False] Cons False show ?thesis
        by (fastforce split: if_splits dest!: prepend_SomeD)
    qed
  qed
qed

lemma length_skip_ws: "length (skip_ws s) \<le> length s"
  by (simp add: skip_ws_def length_dropWhile_le)

lemma length_dropWhile_Cons: "P c \<Longrightarrow> length (dropWhile P (c # cs)) \<le> length cs"
  by (simp add: length_dropWhile_le)

lemma strip_prefix_shorter: "strip_prefix p s = Some r \<Longrightarrow> length r + length p = length s"
  by (induction p s rule: strip_prefix.induct) (auto split: if_splits)

lemma scan_literal_shorter: "scan_literal s = Some (j, r) \<Longrightarrow> length r < length s"
  by (auto simp: scan_literal_def json_literals_def split: option.splits dest!: strip_prefix_shorter)

lemma scan_fraction_le: "length (snd (scan_fraction s)) \<le> length s"
  by (auto simp: scan_fraction_def length_dropWhile_le le_SucI split: list.splits)

lemma scan_exponent_le: "length (snd (scan_exponent s)) \<le> length s"
  by (auto simp: scan_exponent_def Let_def le_SucI length_dropWhile_le split: list.splits
      intro: order_trans [OF length_dropWhile_le])

lemma finish_number_le: "finish_number neg ds s = Inr (j, r) \<Longrightarrow> length r \<le> length s"
  using scan_fraction_le [of s] scan_exponent_le [of "snd (scan_fraction s)"]
  by (auto simp: finish_number_def Let_def split: prod.splits if_splits option.splits)

lemma scan_number_shorter: "scan_number s = Inr (j, r) \<Longrightarrow> length r < length s"
  by (auto simp: scan_number_def Let_def split: list.splits if_splits prod.splits
      dest!: finish_number_le dest: le_trans [OF _ length_dropWhile_Cons] simp del: dropWhile.simps)

text \<open>One unfolding of the scanner for each kind of first character.\<close>

lemma scan_value_cases:
  "scan_value (Suc f) d (c # cs) =
     (if c = quote_char then
        (case scan_str cs of None \<Rightarrow> Inl expecting_value | Some (t, r) \<Rightarrow> Inr (JStr t, r))
      else if c = CHR ''{'' \<or> c = CHR ''['' then
        (case d of 0 \<Rightarrow> Inl RecursionError | Suc e \<Rightarrow>
          (case skip_ws cs of [] \<Rightarrow> Inl expecting_value
           | x # xs \<Rightarrow>
               if c = CHR ''{'' then
                 (if x = CHR ''}'' then Inr (JObj [], xs) else scan_members f e [] (x # xs))
               else (if x = CHR '']'' then Inr (JArr [], xs) else scan_elems f e [] (x # xs))))
      else (case scan_literal (c # cs) of Some r \<Rightarrow> Inr r | None \<Rightarrow> scan_number (c # cs)))"
  by (auto split: nat.split list.split)

lemma scan_shorter:
  "scan_value f d s = Inr (j, r) \<Longrightarrow> length r < length s"
  "scan_elems f d xs s = Inr (j, r) \<Longrightarrow> length r < length s"
  "scan_members f d kvs s = Inr (j, r) \<Longrightarrow> length r < length s"
proof (induction f arbitrary: d s xs kvs j r)
  case (Suc f)
  {
    case 1
    show ?case
    proof (cases s)
      case Nil
      with 1 show ?thesis by simp
    next
      case (Cons c cs)
      have "length (skip_ws cs) \<le> length cs" by (rule length_skip_ws)
      with 1 Suc.IH(2,3) show ?thesis
        unfolding Cons scan_value_cases
        by (fastforce split: if_split_asm option.split_asm nat.split_asm list.split_asm
            dest: scan_str_shorter scan_literal_shorter scan_number_shorter)
    qed
  next
    case 2
    from 2 obtain v r1 where v: "scan_value f d s = Inr (v, r1)"
      by (auto split: sum.split_asm)
    from Suc.IH(1) [OF v] have r1: "length r1 < length s" .
    from 2 v obtain x ys where x: "skip_ws r1 = x # ys" by (cases "skip_ws r1") auto
    from 2 v x have "r = ys \<or> scan_elems f d (xs @ [v]) (skip_ws ys) = Inr (j, r)"
      by (auto split: if_split_asm)
    then have "length r \<le> length ys"
      using Suc.IH(2) length_skip_ws [of ys] by fastforce
    then show ?case using r1 x length_skip_ws [of r1] by simp
  next
    case 3
    from 3 obtain k r1 cs where s: "s = quote_char # cs" "scan_str cs = Some (k, r1)"
      by (auto split: list.split_asm if_split_asm option.split_asm)
    from 3 s obtain r2 where r2: "skip_ws r1 = CHR '':'' # r2"
      by (auto split: list.split_asm if_split_asm)
    from 3 s r2 obtain v r3 where v: "scan_value f d (skip_ws r2) = Inr (v, r3)"
      by (auto split: sum.split_asm)
    have "length r3 < length s"
      using scan_str_shorter [OF s(2)] Suc.IH(1) [OF v] length_skip_ws [of r1] length_skip_ws [of r2] r2 s(1)
      by simp
    moreover from 3 s r2 v obtain x ys where x: "skip_ws r3 = x # ys" by (cases "skip_ws r3") auto
    moreover from 3 s r2 v x have "r = ys \<or> (\<exists>acc. scan_members f d acc (skip_ws ys) = Inr (j, r))"
      by (auto split: if_split_asm)
    then have "length r \<le> length ys"
      using Suc.IH(3) length_skip_ws [of ys] by fastforce
    ultimately show ?case using length_skip_ws [of r3] by simp
  }
qed simp_all

lemma finish_number_fuel: "finish_number neg ds r \<noteq> Inl out_of_fuel"
  by (simp add: finish_number_def out_of_fuel_def Let_def split: prod.split option.split)

lemma scan_number_fuel: "scan_number s \<noteq> Inl out_of_fuel"
  by (simp add: scan_number_def finish_number_fuel Let_def split: list.split prod.split)
    (simp add: out_of_fuel_def)

lemma scan_fuel:
  "2 * length s < f \<Longrightarrow> scan_value f d s \<noteq> Inl out_of_fuel"
  "2 * length s + 1 < f \<Longrightarrow> scan_elems f d xs s \<noteq> Inl out_of_fuel"
  "2 * length s + 1 < f \<Longrightarrow> scan_members f d kvs s \<noteq> Inl out_of_fuel"
proof (induction f arbitrary: d s xs kvs)
  case (Suc f)
  have ev: "expecting_value \<noteq> out_of_fuel" by (simp add: expecting_value_def out_of_fuel_def)
  {
    case 1
    show ?case
    proof (cases s)
      case Nil
      then show ?thesis using ev by simp
    next
      case (Cons c cs)
      have fuel: "2 * length (x # ys) + 1 < f" if "skip_ws cs = x # ys" for x ys
        using length_skip_ws [of cs] that 1 Cons by simp
      have rec: "RecursionError \<noteq> out_of_fuel" by (simp add: out_of_fuel_def)
      show ?thesis
        unfolding Cons scan_value_cases
        using Suc.IH(2,3) fuel ev rec scan_number_fuel
        by (auto split: if_split_asm option.split_asm nat.split_asm list.split_asm)
    qed
  next
    case 2
    have f: "2 * length s < f" using 2 by simp
    show ?case
    proof (cases "scan_value f d s")
      case (Inl e)
      then show ?thesis using Suc.IH(1) [OF f, of d] by simp
    next
      case (Inr p)
      obtain v r where p: "p = (v, r)" by (cases p)
      have "length r < length s" using scan_shorter(1) Inr p by simp
      then have "2 * length (skip_ws ys) + 1 < f" if "skip_ws r = x # ys" for x ys
        using length_skip_ws [of r] length_skip_ws [of ys] that f by simp
      then show ?thesis
        using Inr p ev Suc.IH(2) by (auto split: list.split_asm if_split_asm)
    qed
  next
    case 3
    have f: "2 * length s < f" using 3 by simp
    show ?case
    proof (rule notI)
      assume bad: "scan_members (Suc f) d kvs s = Inl out_of_fuel"
      then obtain k r1 cs where s: "s = quote_char # cs" "scan_str cs = Some (k, r1)"
        using ev by (auto split: list.split_asm if_split_asm option.split_asm)
      from bad s obtain r2 where r2: "skip_ws r1 = CHR '':'' # r2"
        using ev by (auto split: list.split_asm if_split_asm)
      have short: "length (skip_ws r2) < length s"
        using scan_str_shorter [OF s(2)] length_skip_ws [of r1] length_skip_ws [of r2] r2 s(1) by simp
      then have "scan_value f d (skip_ws r2) \<noteq> Inl out_of_fuel"
        using f by (intro Suc.IH(1)) simp
      with bad s r2 obtain v r3 where v: "scan_value f d (skip_ws r2) = Inr (v, r3)"
        by (auto split: sum.split_asm)
      with bad s r2 obtain y ys where y: "skip_ws r3 = y # ys"
        using ev by (cases "skip_ws r3") auto
      have "2 * length (skip_ws ys) + 1 < f"
        using scan_shorter(1) [OF v] short y length_skip_ws [of r3] length_skip_ws [of ys] f by simp
      with bad s r2 v y ev Suc.IH(3) show False
        by (auto split: if_split_asm)
    qed
  }
qed simp_all

theorem loads_text_fuel: "loads_text limit s \<noteq> Inl out_of_fuel"
proof -
  have "2 * length (skip_ws s) < Suc (2 * length s)"
    using length_skip_ws [of s] by simp
  then have "scan_value (Suc (2 * length s)) limit (skip_ws s) \<noteq> Inl out_of_fuel"
    by (rule scan_fuel)
  then show ?thesis
    by (auto simp: loads_text_def out_of_fuel_def split: sum.splits if_splits simp del: scan_value.simps)
qed

section \<open>The exceptions of \<open>json_loads\<close>\<close>

definition scan_error :: "exn \<Rightarrow> bool" where
  "scan_error e \<longleftrightarrow> is_value_error e \<or> e = RecursionError \<or> e = out_of_fuel"

lemma scan_error_simps [simp]:
  "scan_error expecting_value" "scan_error RecursionError" "scan_error out_of_fuel"
  "scan_error (JSONDecodeError m)" "scan_error (ValueError m)"
  by (simp_all add: scan_error_def expecting_value_def)

lemma finish_number_error: "finish_number neg ds r = Inl e \<Longrightarrow> scan_error e"
  by (auto simp: finish_number_def Let_def split: prod.splits if_splits option.splits)

lemma scan_number_error: "scan_number s = Inl e \<Longrightarrow> scan_error e"
  by (auto simp: scan_number_def Let_def dest: finish_number_error split: list.splits prod.splits if_splits)

lemma scan_errors:
  "scan_value f d s = Inl e \<Longrightarrow> scan_error e"
  "scan_elems f d xs s = Inl e \<Longrightarrow> scan_error e"
  "scan_members f d kvs s = Inl e \<Longrightarrow> scan_error e"
proof (induction f arbitrary: d s xs kvs e)
  case (Suc f)
  {
    case 1
    show ?case
    proof (cases s)
      case (Cons c cs)
      from 1 show ?thesis
        unfolding Cons scan_value_cases
        by (auto split: if_split_asm option.split_asm nat.split_asm list.split_asm
            dest: Suc.IH(2,3) scan_number_error)
    qed (use 1 in auto)
  next
    case 2
    then show ?case
      by (auto split: sum.split_asm list.split_asm if_split_asm dest: Suc.IH(1,2))
  next
    case 3
    then show ?case
      by (auto split: sum.split_asm list.split_asm if_split_asm option.split_asm simp del: scan_value.simps)
        (rule Suc.IH(1), assumption, rule Suc.IH(3), assumption)
  }
qed simp_all

lemma loads_text_error:
  assumes "loads_text limit s = Inl e"
  shows "is_value_error e \<or> e = RecursionError"
proof -
  have "scan_error e"
    using assms by (auto simp: loads_text_def split: sum.splits if_splits dest: scan_errors(1) simp del: scan_value.simps)
  moreover have "e \<noteq> out_of_fuel" using assms loads_text_fuel by metis
  ultimately show ?thesis by (simp add: scan_error_def)
qed

lemma decode_json_bytes_error: "decode_json_bytes raw = Inl e \<Longrightarrow> is_value_error e"
  by (auto simp: decode_json_bytes_def decode_utf8_def text_of_codes_def Let_def
      split: text_encoding.splits option.splits if_splits)

lemma json_loads_error: "json_loads limit raw = Inl e \<Longrightarrow> is_value_error e \<or> e = RecursionError"
  by (auto simp: json_loads_def sum_bind_eq_Inl dest: decode_json_bytes_error loads_text_error)
section \<open>Canonical documents\<close>

lemma mset_keys_sort_key: "mset (map fst (sort_key fst kvs)) = mset (map fst kvs)"
  by simp

lemma distinct_keys_sort_key [simp]:
  "distinct (map fst (sort_key fst kvs)) \<longleftrightarrow> distinct (map fst kvs)"
  by (metis mset_keys_sort_key mset_eq_imp_distinct_iff)

lemma map_fst_apsnd [simp]: "map fst (map (\<lambda>(k, v). (k, f v)) kvs) = map fst kvs"
  by (induction kvs) auto

lemma wf_sort_json: "wf_json j \<Longrightarrow> wf_json (sort_json j)"
proof (induction j rule: sort_json.induct)
  case (2 kvs)
  then have "\<forall>(k, v) \<in> set kvs. wf_json (sort_json v)"
    by (fastforce simp: list_all_iff)
  with 2 show ?case by (auto simp: list_all_iff simp del: map_map)
qed (auto simp: list_all_iff)

lemma json_depth_sort: "json_depth j \<le> d \<Longrightarrow> json_depth (sort_json j) \<le> d"
proof (induction j arbitrary: d rule: sort_json.induct)
  case (1 xs)
  then show ?case by (cases d) auto
next
  case (2 kvs)
  show ?case
  proof (cases d)
    case (Suc e)
    then have "\<forall>(k, v) \<in> set kvs. json_depth (sort_json v) \<le> e" using 2 by fastforce
    then show ?thesis using Suc by auto
  qed (use 2 in simp)
qed auto

text \<open>What \<^verbatim>\<open>json.loads\<close> reads from a canonical document: the document with its keys sorted.\<close>

theorem canonical_json_reads:
  assumes "wf_json (JObj payload)"
  shows "loads_text (json_depth (JObj payload)) (utf8_units (canonical_json payload))
    = Inr (sort_json (JObj payload))"
  unfolding canonical_json_def utf8_units_encode
  using wf_sort_json [OF assms] json_depth_sort [of "JObj payload"]
  by (intro loads_text_json_text) blast+

theorem canonical_json_eq_iff:
  assumes "wf_json (JObj p)" "wf_json (JObj q)"
  shows "canonical_json p = canonical_json q \<longleftrightarrow> sort_json (JObj p) = sort_json (JObj q)"
proof
  let ?d = "max (json_depth (JObj p)) (json_depth (JObj q))"
  assume "canonical_json p = canonical_json q"
  then have "json_text (sort_json (JObj p)) = json_text (sort_json (JObj q))"
    unfolding canonical_json_def by simp
  moreover have "loads_text ?d (json_text (sort_json (JObj r))) = Inr (sort_json (JObj r))"
    if "wf_json (JObj r)" "json_depth (JObj r) \<le> ?d" for r
    using that by (intro loads_text_json_text wf_sort_json json_depth_sort)
  then have "loads_text ?d (json_text (sort_json (JObj p))) = Inr (sort_json (JObj p))"
    "loads_text ?d (json_text (sort_json (JObj q))) = Inr (sort_json (JObj q))"
    using assms by (meson max.cobounded1 max.cobounded2)+
  ultimately show "sort_json (JObj p) = sort_json (JObj q)" by (metis sum.inject(2))
qed (simp add: canonical_json_def)

text \<open>A flat document determines the value of every key, whatever order they were given in.\<close>

definition json_leaf :: "json \<Rightarrow> bool" where
  "json_leaf v = (case v of JArr _ \<Rightarrow> False | JObj _ \<Rightarrow> False | JFloat _ \<Rightarrow> False
     | JInt i \<Rightarrow> small_int i | _ \<Rightarrow> True)"

definition flat_payload :: "(string \<times> json) list \<Rightarrow> bool" where
  "flat_payload p \<longleftrightarrow> distinct (map fst p) \<and> list_all (\<lambda>(k, v). json_leaf v) p"

lemma json_leaf_wf: "json_leaf v \<Longrightarrow> wf_json v \<and> sort_json v = v \<and> json_depth v = 0"
  by (cases v) (auto simp: json_leaf_def)

lemma flat_payload_wf: "flat_payload p \<Longrightarrow> wf_json (JObj p)"
  by (auto simp: flat_payload_def list_all_iff json_leaf_wf)

lemma sort_flat_payload: "flat_payload p \<Longrightarrow> sort_json (JObj p) = JObj (sort_key fst p)"
proof -
  assume "flat_payload p"
  then have "map (\<lambda>(k, v). (k, sort_json v)) p = p"
    by (intro map_idI) (auto simp: flat_payload_def list_all_iff json_leaf_wf)
  then show ?thesis by simp
qed

theorem canonical_json_fields:
  assumes "flat_payload p" "flat_payload q"
  shows "canonical_json p = canonical_json q \<longleftrightarrow> map_of p = map_of q"
proof -
  have d: "distinct (map fst p)" "distinct (map fst q)" using assms by (auto simp: flat_payload_def)
  have "canonical_json p = canonical_json q \<longleftrightarrow> sort_key fst p = sort_key fst q"
    using canonical_json_eq_iff [OF assms [THEN flat_payload_wf]] assms
    by (simp only: sort_flat_payload json.inject)
  also have "\<dots> \<longleftrightarrow> set p = set q"
  proof
    assume "set p = set q"
    then show "sort_key fst p = sort_key fst q"
      using d by (intro sort_key_inj_key_eq)
        (auto simp: distinct_map set_eq_iff_mset_eq_distinct [symmetric])
  qed (metis set_sort)
  also have "\<dots> \<longleftrightarrow> map_of p = map_of q"
    by (rule map_of_inject_set [OF d, symmetric])
  finally show ?thesis .
qed

section \<open>Reading the bytes of an ASCII document\<close>

definition plain_char :: "char \<Rightarrow> bool" where
  "plain_char c \<longleftrightarrow> is_ascii c \<and> c \<noteq> CHR 0x00"

lemma plain_code: "plain_char c \<Longrightarrow> 0 < (of_char c :: nat) \<and> (of_char c :: nat) < 128"
proof -
  assume "plain_char c"
  moreover have "c = CHR 0x00" if "of_char c = (0 :: nat)"
    using that by (intro of_char_eqI [where 'a = nat]) simp
  ultimately show ?thesis by (auto simp: plain_char_def is_ascii_def)
qed

lemma utf8_valid_ascii: "list_all (\<lambda>b. b < 128) bs \<Longrightarrow> utf8_valid bs"
  by (induction bs) auto

lemma detect_encoding_ascii:
  assumes "\<And>x. x \<in> set b \<Longrightarrow> 0 < x \<and> x < 128"
  shows "detect_encoding b = Utf8"
proof -
  have at: "b ! i \<noteq> 0" if "i < length b" for i
    using assms [of "b ! i"] that by auto
  have "\<not> starts_with (p # ps) b" if "p = 0 \<or> 128 \<le> p" for p ps
  proof
    assume "starts_with (p # ps) b"
    then have "p \<in> set b"
      by (metis starts_with_def in_set_takeD list.set_intros(1))
    with assms [of p] that show False by simp
  qed
  moreover have "b ! 0 \<noteq> 0 \<and> b ! 1 \<noteq> 0" if "4 \<le> length b \<or> length b = 2"
  proof -
    have "0 < length b" "1 < length b" using that by linarith+
    then show ?thesis using at by blast
  qed
  ultimately show ?thesis
    unfolding detect_encoding_def
    by (cases "4 \<le> length b \<or> length b = 2") (simp_all add: Let_def)
qed

lemma decode_ascii:
  assumes "list_all plain_char t"
  shows "decode_json_bytes (utf8_encode t) = Inr t"
proof -
  let ?b = "map unat (utf8_encode t)"
  have b: "?b = map of_char t"
    by (simp add: utf8_encode_def byte_of_char_def comp_def unat_of_nat)
  have range: "x \<in> set ?b \<Longrightarrow> 0 < x \<and> x < 128" for x
    unfolding b using assms plain_code by (auto simp: list_all_iff)
  have "utf8_valid ?b"
    using range by (intro utf8_valid_ascii) (auto simp: list_all_iff)
  moreover have "detect_encoding ?b = Utf8"
    using range by (rule detect_encoding_ascii)
  ultimately show ?thesis
    by (simp add: decode_json_bytes_def decode_utf8_def valid_utf8_def Let_def)
qed

lemma plain_punctuation [simp]:
  "plain_char (CHR '','')" "plain_char (CHR '':'')" "plain_char (CHR ''['')" "plain_char (CHR '']'')"
  "plain_char (CHR ''{'')" "plain_char (CHR ''}'')" "plain_char (CHR ''-'')" "plain_char quote_char"
  "plain_char backslash"
  by (simp_all add: plain_char_def is_ascii_def)

fun plain_json :: "json \<Rightarrow> bool" where
  "plain_json (JFloat x) = list_all plain_char x"
| "plain_json (JStr s) = list_all is_ascii s"
| "plain_json (JArr xs) = list_all plain_json xs"
| "plain_json (JObj kvs) = list_all (\<lambda>(k, v). list_all is_ascii k \<and> plain_json v) kvs"
| "plain_json _ = True"

lemma plain_hex_char: "n < 16 \<Longrightarrow> plain_char (hex_char n)"
  by (auto simp: plain_char_def hex_char_def char_of_nat_eq_iff is_ascii_def)

lemma plain_escape: "is_ascii c \<Longrightarrow> list_all plain_char (escape_char c)"
proof -
  assume c: "is_ascii c"
  then have "(of_char c :: nat) < 32 \<Longrightarrow> (of_char c :: nat) div 16 < 16" by simp
  then show ?thesis
    using c by (auto simp: escape_char_def Let_def plain_hex_char) (auto simp: plain_char_def is_ascii_def)
qed

lemma plain_quote_json: "list_all is_ascii s \<Longrightarrow> list_all plain_char (quote_json s)"
  by (induction s) (auto simp: quote_json_def plain_escape)

lemma plain_commas: "list_all (list_all plain_char) xs \<Longrightarrow> list_all plain_char (commas xs)"
  by (induction xs rule: commas.induct) auto

lemma plain_digits: "list_all plain_char (show_nat n)"
proof (induction n rule: show_nat.induct)
  case (1 n)
  have "plain_char (digit_char d)" if "d < 10" for d
    using that by (auto simp: plain_char_def digit_char_def is_ascii_def char_of_nat_eq_iff)
  with 1 show ?case by (subst show_nat.simps) simp
qed

lemma plain_json_text: "plain_json j \<Longrightarrow> list_all plain_char (json_text j)"
proof (induction j)
  case (JArr xs)
  then have "list_all (list_all plain_char) (map json_text xs)"
    by (auto simp: list_all_iff)
  from plain_commas [OF this] show ?case by simp
next
  case (JObj kvs)
  then have "list_all (list_all plain_char) (map member_text kvs)"
    by (fastforce simp: list_all_iff plain_quote_json [unfolded list_all_iff])
  from plain_commas [OF this] show ?case by simp
qed (auto simp: plain_quote_json show_int_def plain_digits, auto simp: plain_char_def is_ascii_def)

theorem json_loads_json_text:
  assumes "wf_json j" "plain_json j" "json_depth j \<le> limit"
  shows "json_loads limit (utf8_encode (json_text j)) = Inr j"
  using assms by (simp add: json_loads_def decode_ascii plain_json_text loads_text_json_text)

lemma plain_sort_json: "plain_json j \<Longrightarrow> plain_json (sort_json j)"
proof (induction j rule: sort_json.induct)
  case (2 kvs)
  then show ?case by (fastforce simp: list_all_iff)
qed (auto simp: list_all_iff)

theorem json_loads_canonical:
  assumes "wf_json (JObj p)" "plain_json (JObj p)" "json_depth (JObj p) \<le> limit"
  shows "json_loads limit (canonical_json p) = Inr (sort_json (JObj p))"
  unfolding canonical_json_def
  by (intro json_loads_json_text wf_sort_json plain_sort_json json_depth_sort assms)

interpretation json_doc: codec
  "\<lambda>j. wf_json j \<and> plain_json j \<and> json_depth j \<le> limit"
  "\<lambda>j. utf8_encode (json_text j)" "json_loads limit" for limit
  by unfold_locales (simp add: json_loads_json_text)

end
