(* ===== verification/Crypto.thy ===== *)
theory Crypto
  imports Config Sha256 Json_Codec
begin

text \<open>
  \<^verbatim>\<open>shared/crypto.py\<close> over an arbitrary implementation of the primitives of the
  \<^verbatim>\<open>cryptography\<close> package: a record \<open>crypto\<close> of what the module calls, and named
  predicates for the documented behaviour a theorem relies on.  The module's own logic
  (the documents that are signed and authenticated, the idempotency key, the hybrid
  encryption with its error mapping, key loading and caching) is written out.
\<close>

section \<open>The primitives the module calls\<close>

text \<open>A key object as \<^verbatim>\<open>load_pem_*_key\<close> returns it; the class decides \<^verbatim>\<open>isinstance\<close>.\<close>

datatype pem_key =
    Ed25519PrivateKey bytes
  | Ed25519PublicKey bytes
  | RSAPrivateKey bytes
  | RSAPublicKey bytes
  | OtherKey string

record crypto =
  load_pem_private_key :: "bytes \<Rightarrow> exn + pem_key"
  load_pem_public_key :: "bytes \<Rightarrow> exn + pem_key"
  key_type_name :: "pem_key \<Rightarrow> string"
  ed25519_sign :: "bytes \<Rightarrow> bytes \<Rightarrow> bytes"
  ed25519_public :: "bytes \<Rightarrow> bytes"
  ed25519_verify :: "bytes \<Rightarrow> bytes \<Rightarrow> bytes \<Rightarrow> exn option"
  rsa_public :: "bytes \<Rightarrow> bytes"
  oaep_encrypt :: "bytes \<Rightarrow> bytes \<Rightarrow> bytes \<Rightarrow> bytes"
  oaep_decrypt :: "bytes \<Rightarrow> bytes \<Rightarrow> exn + bytes"
  gcm_encrypt :: "bytes \<Rightarrow> bytes \<Rightarrow> bytes \<Rightarrow> bytes \<Rightarrow> bytes"
  gcm_decrypt :: "bytes \<Rightarrow> bytes \<Rightarrow> bytes \<Rightarrow> bytes \<Rightarrow> exn + bytes"

text \<open>
  Documented behaviour, as hypotheses: a signature by a key verifies under its public key
  and is 64 bytes; OAEP and GCM decrypt what they encrypted; GCM raises
  \<^verbatim>\<open>InvalidTag\<close> when the associated data differ from those of the encryption.
\<close>

definition signs_correctly :: "crypto \<Rightarrow> bool" where
  "signs_correctly c \<longleftrightarrow>
     (\<forall>k m. ed25519_verify c (ed25519_public c k) (ed25519_sign c k m) m = None
        \<and> length (ed25519_sign c k m) = 64)"

definition seals_correctly :: "crypto \<Rightarrow> bool" where
  "seals_correctly c \<longleftrightarrow>
     (\<forall>k r ck. length ck = 32 \<longrightarrow>
        oaep_decrypt c k (oaep_encrypt c (rsa_public c k) r ck) = Inr ck
        \<and> oaep_encrypt c (rsa_public c k) r ck \<noteq> [])
     \<and> (\<forall>ck n p a. length ck = 32 \<longrightarrow> length n = 12 \<longrightarrow>
          gcm_decrypt c ck n (gcm_encrypt c ck n p a) a = Inr p
          \<and> gcm_encrypt c ck n p a \<noteq> [])"

definition authenticates_aad :: "crypto \<Rightarrow> bool" where
  "authenticates_aad c \<longleftrightarrow>
     (\<forall>ck n p a a'. length ck = 32 \<longrightarrow> length n = 12 \<longrightarrow> a \<noteq> a' \<longrightarrow>
        gcm_decrypt c ck n (gcm_encrypt c ck n p a) a' = Inl InvalidTag)"

section \<open>Scheme parameters\<close>

definition aes_key_bits :: nat where "aes_key_bits = 256"

definition aes_key_bytes :: nat where "aes_key_bytes = aes_key_bits div 8"

definition gcm_nonce_bytes :: nat where "gcm_nonce_bytes = 12"

definition idempotency_key_prefix :: string where "idempotency_key_prefix = ''settle:''"

section \<open>Key loading\<close>

text \<open>
  \<^verbatim>\<open>pem.encode("ascii")\<close> raises inside the \<^verbatim>\<open>try\<close> on a non-ASCII
  character, so the parse fails there as well.
\<close>

definition parse_pem :: "(bytes \<Rightarrow> exn + pem_key) \<Rightarrow> string \<Rightarrow> pem_key option" where
  "parse_pem loader pem =
     (if list_all is_ascii pem
      then (case loader (utf8_encode pem) of Inl _ \<Rightarrow> None | Inr key \<Rightarrow> Some key)
      else None)"

definition load_signing_private_key :: "crypto \<Rightarrow> string \<Rightarrow> exn + bytes" where
  "load_signing_private_key c pem =
     (if pem = [] \<or> py_strip pem = []
      then Inl (KeyConfigurationError ''signing private key PEM is empty'')
      else case parse_pem (load_pem_private_key c) pem of
        None \<Rightarrow> Inl (KeyConfigurationError ''signing private key PEM could not be parsed'')
      | Some (Ed25519PrivateKey k) \<Rightarrow> Inr k
      | Some key \<Rightarrow>
          Inl (KeyConfigurationError (''expected an Ed25519 private key, got '' @ key_type_name c key)))"

definition load_signing_public_key :: "crypto \<Rightarrow> string \<Rightarrow> exn + bytes" where
  "load_signing_public_key c pem =
     (if pem = [] \<or> py_strip pem = []
      then Inl (KeyConfigurationError ''signing public key PEM is empty'')
      else case parse_pem (load_pem_public_key c) pem of
        None \<Rightarrow> Inl (KeyConfigurationError ''signing public key PEM could not be parsed'')
      | Some (Ed25519PublicKey k) \<Rightarrow> Inr k
      | Some key \<Rightarrow>
          Inl (KeyConfigurationError (''expected an Ed25519 public key, got '' @ key_type_name c key)))"

definition load_rsa_private_key :: "crypto \<Rightarrow> string \<Rightarrow> exn + bytes" where
  "load_rsa_private_key c pem =
     (if pem = [] \<or> py_strip pem = []
      then Inl (KeyConfigurationError ''RSA private key PEM is empty'')
      else case parse_pem (load_pem_private_key c) pem of
        None \<Rightarrow> Inl (KeyConfigurationError ''RSA private key PEM could not be parsed'')
      | Some (RSAPrivateKey k) \<Rightarrow> Inr k
      | Some key \<Rightarrow>
          Inl (KeyConfigurationError (''expected an RSA private key, got '' @ key_type_name c key)))"

definition load_rsa_public_key :: "crypto \<Rightarrow> string \<Rightarrow> exn + bytes" where
  "load_rsa_public_key c pem =
     (if pem = [] \<or> py_strip pem = []
      then Inl (KeyConfigurationError ''RSA public key PEM is empty'')
      else case parse_pem (load_pem_public_key c) pem of
        None \<Rightarrow> Inl (KeyConfigurationError ''RSA public key PEM could not be parsed'')
      | Some (RSAPublicKey k) \<Rightarrow> Inr k
      | Some key \<Rightarrow>
          Inl (KeyConfigurationError (''expected an RSA public key, got '' @ key_type_name c key)))"

text \<open>The four \<^verbatim>\<open>lru_cache(maxsize=1)\<close> slots: a success is kept, a raise is not.\<close>

record key_cache =
  sender_private :: "bytes option"
  sender_public :: "bytes option"
  settlement_private :: "bytes option"
  settlement_public :: "bytes option"

definition empty_key_cache :: key_cache where
  "empty_key_cache = \<lparr> sender_private = None, sender_public = None,
     settlement_private = None, settlement_public = None \<rparr>"

definition cached :: "bytes option \<Rightarrow> (exn + bytes) \<Rightarrow> exn + bytes" where
  "cached slot fresh = (case slot of Some k \<Rightarrow> Inr k | None \<Rightarrow> fresh)"

definition keep :: "(exn + bytes) \<Rightarrow> bytes option" where
  "keep r = (case r of Inl _ \<Rightarrow> None | Inr k \<Rightarrow> Some k)"

definition sender_signing_private_key :: "crypto \<Rightarrow> settings \<Rightarrow> key_cache \<Rightarrow> (exn + bytes) \<times> key_cache" where
  "sender_signing_private_key c s kc =
     (let r = cached (sender_private kc)
                (load_signing_private_key c (normalize_pem (sender_signing_private_key_pem s)))
      in (r, kc \<lparr> sender_private := keep r \<rparr>))"

definition sender_signing_public_key :: "crypto \<Rightarrow> settings \<Rightarrow> key_cache \<Rightarrow> (exn + bytes) \<times> key_cache" where
  "sender_signing_public_key c s kc =
     (let r = cached (sender_public kc)
                (load_signing_public_key c (normalize_pem (sender_signing_public_key_pem s)))
      in (r, kc \<lparr> sender_public := keep r \<rparr>))"

definition settlement_rsa_private_key :: "crypto \<Rightarrow> settings \<Rightarrow> key_cache \<Rightarrow> (exn + bytes) \<times> key_cache" where
  "settlement_rsa_private_key c s kc =
     (let r = cached (settlement_private kc)
                (load_rsa_private_key c (normalize_pem (settlement_rsa_private_key_pem s)))
      in (r, kc \<lparr> settlement_private := keep r \<rparr>))"

definition settlement_rsa_public_key :: "crypto \<Rightarrow> settings \<Rightarrow> key_cache \<Rightarrow> (exn + bytes) \<times> key_cache" where
  "settlement_rsa_public_key c s kc =
     (let r = cached (settlement_public kc)
                (load_rsa_public_key c (normalize_pem (settlement_rsa_public_key_pem s)))
      in (r, kc \<lparr> settlement_public := keep r \<rparr>))"

definition reset_key_cache :: "key_cache \<Rightarrow> key_cache" where
  "reset_key_cache kc = empty_key_cache"

section \<open>The authenticated documents\<close>

definition build_aad :: "string \<Rightarrow> string \<Rightarrow> bytes" where
  "build_aad packet_id sender_id =
     canonical_json [(''packet_id'', JStr packet_id), (''sender_id'', JStr sender_id)]"

definition build_signing_bytes ::
  "string \<Rightarrow> string \<Rightarrow> string \<Rightarrow> bytes \<Rightarrow> bytes \<Rightarrow> bytes \<Rightarrow> bytes \<Rightarrow> bytes" where
  "build_signing_bytes packet_id sender_id created_at encrypted_key nonce ciphertext aad =
     canonical_json
       [(''packet_id'', JStr packet_id), (''sender_id'', JStr sender_id),
        (''created_at'', JStr created_at), (''encrypted_key'', JStr (b64u_encode encrypted_key)),
        (''nonce'', JStr (b64u_encode nonce)), (''ciphertext'', JStr (b64u_encode ciphertext)),
        (''aad'', JStr (b64u_encode aad))]"

definition derive_idempotency_key :: "bytes \<Rightarrow> string" where
  "derive_idempotency_key signing_bytes = idempotency_key_prefix @ hexdigest (sha256 signing_bytes)"

section \<open>Hybrid encryption\<close>

record encrypted_payload =
  ep_encrypted_key :: bytes
  ep_nonce :: bytes
  ep_ciphertext :: bytes
  ep_aad :: bytes

text \<open>
  The random values of a call (the content key, the nonce and the OAEP seed) are arguments:
  \<open>fresh_ok\<close> says they have the lengths the generators produce.
\<close>

record fresh =
  fr_content_key :: bytes
  fr_nonce :: bytes
  fr_oaep_seed :: bytes

definition fresh_ok :: "fresh \<Rightarrow> bool" where
  "fresh_ok fr \<longleftrightarrow> length (fr_content_key fr) = aes_key_bytes \<and> length (fr_nonce fr) = gcm_nonce_bytes"

definition encrypt_payload :: "crypto \<Rightarrow> fresh \<Rightarrow> bytes \<Rightarrow> bytes \<Rightarrow> bytes \<Rightarrow> encrypted_payload" where
  "encrypt_payload c fr plaintext recipient_public_key aad =
     \<lparr> ep_encrypted_key = oaep_encrypt c recipient_public_key (fr_oaep_seed fr) (fr_content_key fr),
       ep_nonce = fr_nonce fr,
       ep_ciphertext = gcm_encrypt c (fr_content_key fr) (fr_nonce fr) plaintext aad,
       ep_aad = aad \<rparr>"

definition decrypt_payload :: "crypto \<Rightarrow> bytes \<Rightarrow> bytes \<Rightarrow> bytes \<Rightarrow> bytes \<Rightarrow> bytes \<Rightarrow> exn + bytes" where
  "decrypt_payload c encrypted_key nonce ciphertext aad recipient_private_key =
     (case oaep_decrypt c recipient_private_key encrypted_key of
        Inl _ \<Rightarrow> Inl (DecryptionError ''content key could not be unwrapped'')
      | Inr content_key \<Rightarrow>
          if length content_key \<noteq> aes_key_bytes
          then Inl (DecryptionError ''unwrapped content key has the wrong length'')
          else case gcm_decrypt c content_key nonce ciphertext aad of
            Inl InvalidTag \<Rightarrow> Inl (DecryptionError ''AES-GCM authentication tag mismatch'')
          | Inl _ \<Rightarrow> Inl (DecryptionError ''payload could not be decrypted'')
          | Inr plaintext \<Rightarrow> Inr plaintext)"

section \<open>Signatures\<close>

definition sign_bytes :: "crypto \<Rightarrow> bytes \<Rightarrow> bytes \<Rightarrow> bytes" where
  "sign_bytes c signing_bytes private_key = ed25519_sign c private_key signing_bytes"

definition verify_signature :: "crypto \<Rightarrow> bytes \<Rightarrow> bytes \<Rightarrow> bytes \<Rightarrow> exn option" where
  "verify_signature c signing_bytes signature public_key =
     (case ed25519_verify c public_key signature signing_bytes of
        None \<Rightarrow> None
      | Some InvalidSignature \<Rightarrow> Some (SignatureVerificationError ''packet signature did not verify'')
      | Some _ \<Rightarrow> Some (SignatureVerificationError ''packet signature could not be checked''))"

section \<open>Facts\<close>

lemma flat_payload_strings:
  "distinct (map fst p) \<Longrightarrow> (\<And>k v. (k, v) \<in> set p \<Longrightarrow> \<exists>s. v = JStr s) \<Longrightarrow> flat_payload p"
  by (fastforce simp: flat_payload_def json_leaf_def list_all_iff)

lemma flat_aad: "flat_payload [(''packet_id'', JStr p), (''sender_id'', JStr s)]"
  by (rule flat_payload_strings) auto

lemma build_aad_eq_iff:
  "build_aad p s = build_aad p' s' \<longleftrightarrow> p = p' \<and> s = s'"
  unfolding build_aad_def canonical_json_fields [OF flat_aad flat_aad]
  by (auto dest: fun_cong [where x = "''packet_id''"] fun_cong [where x = "''sender_id''"])

lemma flat_signing:
  "flat_payload
     [(''packet_id'', JStr p), (''sender_id'', JStr s), (''created_at'', JStr t), (''encrypted_key'', JStr k),
      (''nonce'', JStr n), (''ciphertext'', JStr c), (''aad'', JStr a)]"
  by (rule flat_payload_strings) auto

lemma build_signing_bytes_eq_iff:
  "build_signing_bytes p s t k n c a = build_signing_bytes p' s' t' k' n' c' a'
   \<longleftrightarrow> p = p' \<and> s = s' \<and> t = t' \<and> k = k' \<and> n = n' \<and> c = c' \<and> a = a'"
  (is "?l \<longleftrightarrow> ?r")
proof
  assume ?l
  then have "map_of [(''packet_id'', JStr p), (''sender_id'', JStr s), (''created_at'', JStr t),
      (''encrypted_key'', JStr (b64u_encode k)), (''nonce'', JStr (b64u_encode n)),
      (''ciphertext'', JStr (b64u_encode c)), (''aad'', JStr (b64u_encode a))] x
    = map_of [(''packet_id'', JStr p'), (''sender_id'', JStr s'), (''created_at'', JStr t'),
      (''encrypted_key'', JStr (b64u_encode k')), (''nonce'', JStr (b64u_encode n')),
      (''ciphertext'', JStr (b64u_encode c')), (''aad'', JStr (b64u_encode a'))] x" for x
    unfolding build_signing_bytes_def canonical_json_fields [OF flat_signing flat_signing]
    by (rule fun_cong)
  from this [of "''packet_id''"] this [of "''sender_id''"] this [of "''created_at''"]
    this [of "''encrypted_key''"] this [of "''nonce''"] this [of "''ciphertext''"] this [of "''aad''"]
  show ?r by simp
qed simp

lemma length_idempotency_key: "length (derive_idempotency_key sb) = 71"
  by (simp add: derive_idempotency_key_def idempotency_key_prefix_def length_sha256)

lemma derive_idempotency_key_eq_iff:
  "derive_idempotency_key a = derive_idempotency_key b \<longleftrightarrow> sha256 a = sha256 b"
  by (simp add: derive_idempotency_key_def)

lemma decrypt_encrypt:
  assumes "seals_correctly c" "fresh_ok fr"
  shows "decrypt_payload c (ep_encrypted_key (encrypt_payload c fr pt (rsa_public c k) aad))
      (ep_nonce (encrypt_payload c fr pt (rsa_public c k) aad))
      (ep_ciphertext (encrypt_payload c fr pt (rsa_public c k) aad)) aad k = Inr pt"
  using assms
  by (simp add: encrypt_payload_def decrypt_payload_def seals_correctly_def fresh_ok_def
      aes_key_bytes_def aes_key_bits_def gcm_nonce_bytes_def)

lemma decrypt_other_aad:
  assumes "seals_correctly c" "authenticates_aad c" "fresh_ok fr" "aad' \<noteq> aad"
  shows "decrypt_payload c (ep_encrypted_key (encrypt_payload c fr pt (rsa_public c k) aad))
      (ep_nonce (encrypt_payload c fr pt (rsa_public c k) aad))
      (ep_ciphertext (encrypt_payload c fr pt (rsa_public c k) aad)) aad' k
    = Inl (DecryptionError ''AES-GCM authentication tag mismatch'')"
  using assms
  by (simp add: encrypt_payload_def decrypt_payload_def seals_correctly_def authenticates_aad_def
      fresh_ok_def aes_key_bytes_def aes_key_bits_def gcm_nonce_bytes_def)

lemma decrypt_payload_error:
  "decrypt_payload c ek n ct a k = Inl e \<Longrightarrow> \<exists>m. e = DecryptionError m"
  by (auto simp: decrypt_payload_def split: sum.splits if_splits exn.splits)

lemma verify_signature_error:
  "verify_signature c sb sg k = Some e \<Longrightarrow> \<exists>m. e = SignatureVerificationError m"
  by (auto simp: verify_signature_def split: option.splits exn.splits)

lemma verify_signature_ok:
  "verify_signature c sb sg k = None \<longleftrightarrow> ed25519_verify c k sg sb = None"
  by (auto simp: verify_signature_def split: option.splits exn.splits)

lemma verify_sign:
  "signs_correctly c \<Longrightarrow> verify_signature c sb (sign_bytes c sb k) (ed25519_public c k) = None"
  by (simp add: verify_signature_ok sign_bytes_def signs_correctly_def)

end
