(* ===== verification/Models.thy ===== *)
theory Models
  imports Validation Crypto
begin

text \<open>
  \<^verbatim>\<open>shared/models.py\<close>: the field types and their validators, the instruction, the
  envelope, hop records and the packet with its derived values, its construction, hops,
  verification and opening, and the request and response models of the services.
\<close>

section \<open>Field types\<close>

definition identifier_char :: "char \<Rightarrow> bool" where
  "identifier_char c =
     (let n = (of_char c :: nat) in
      (65 \<le> n \<and> n \<le> 90) \<or> (97 \<le> n \<and> n \<le> 122) \<or> (48 \<le> n \<and> n \<le> 57) \<or> n \<in> set [95, 46, 58, 45])"

definition identifier_pattern :: "string \<Rightarrow> bool" where
  "identifier_pattern s \<longleftrightarrow> list_all identifier_char s \<and> 1 \<le> length s \<and> length s \<le> 64"

definition upper_char :: "char \<Rightarrow> bool" where
  "upper_char c = (let n = (of_char c :: nat) in 65 \<le> n \<and> n \<le> 90)"

definition currency_pattern :: "string \<Rightarrow> bool" where
  "currency_pattern s \<longleftrightarrow> list_all upper_char s \<and> length s = 3"

definition max_amount_minor :: int where "max_amount_minor = 10 ^ 12"

definition uuid_str :: "uuid \<Rightarrow> string" where
  "uuid_str u =
     (let h = hexdigest (be_bytes 16 (unat u))
      in take 8 h @ ''-'' @ take 4 (drop 8 h) @ ''-'' @ take 4 (drop 12 h) @ ''-''
         @ take 4 (drop 16 h) @ ''-'' @ drop 20 h)"

definition coerce_bytes :: "pydantic \<Rightarrow> json \<Rightarrow> exn + bytes" where
  "coerce_bytes pd j =
     (case j of
        JStr s \<Rightarrow>
          (case b64u_decode s of Inl m \<Rightarrow> Inl (verrs pd (ValueErr m)) | Inr b \<Rightarrow> Inr b)
      | _ \<Rightarrow> Inl (verrs pd (ValueErr ''expected bytes or a base64url string'')))"

definition check_pattern :: "pydantic \<Rightarrow> (string \<Rightarrow> bool) \<Rightarrow> string \<Rightarrow> exn + string" where
  "check_pattern pd pat s = (if pat s then Inr s else Inl (verrs pd StringPattern))"

definition read_pattern :: "pydantic \<Rightarrow> (string \<Rightarrow> bool) \<Rightarrow> json \<Rightarrow> exn + string" where
  "read_pattern pd pat j =
     (case j of JStr s \<Rightarrow> check_pattern pd pat s | _ \<Rightarrow> Inl (verrs pd StringType))"

definition check_amount :: "pydantic \<Rightarrow> int \<Rightarrow> exn + int" where
  "check_amount pd n =
     (if \<not> n \<le> max_amount_minor then Inl (verrs pd (LessThanEqual max_amount_minor))
      else if \<not> 0 < n then Inl (verrs pd (GreaterThan 0))
      else Inr n)"

definition read_amount :: "pydantic \<Rightarrow> vmode \<Rightarrow> json \<Rightarrow> exn + int" where
  "read_amount pd mode j = sum_bind (require pd IntType (pd_int pd mode j)) (check_amount pd)"

definition read_uuid :: "pydantic \<Rightarrow> vmode \<Rightarrow> json \<Rightarrow> exn + uuid" where
  "read_uuid pd mode j = require pd UuidType (pd_uuid pd mode j)"

definition check_timestamp :: "pydantic \<Rightarrow> datetime \<Rightarrow> exn + instant" where
  "check_timestamp pd d = run_validator pd (normalize_to_utc d)"

definition read_timestamp :: "pydantic \<Rightarrow> vmode \<Rightarrow> json \<Rightarrow> exn + instant" where
  "read_timestamp pd mode j =
     sum_bind (require pd DatetimeType (pd_datetime pd mode j)) (check_timestamp pd)"

text \<open>\<^verbatim>\<open>_payee_differs_from_payer\<close>: \<open>payer\<close> is \<^verbatim>\<open>info.data.get("payer_id")\<close>.\<close>

definition payee_differs_from_payer :: "pydantic \<Rightarrow> exn + string \<Rightarrow> string \<Rightarrow> exn + string" where
  "payee_differs_from_payer pd payer payee =
     (if payer = Inr payee then Inl (verrs pd (ValueErr ''payer_id and payee_id must differ''))
      else Inr payee)"

section \<open>Enumerations\<close>

datatype error_code =
    MALFORMED_PAYLOAD
  | INVALID_SIGNATURE
  | DUPLICATE_PACKET
  | DECRYPTION_FAILED
  | PACKET_EXPIRED
  | PACKET_NOT_YET_VALID
  | INTERNAL_ERROR

fun error_code_value :: "error_code \<Rightarrow> string" where
  "error_code_value MALFORMED_PAYLOAD = ''MALFORMED_PAYLOAD''"
| "error_code_value INVALID_SIGNATURE = ''INVALID_SIGNATURE''"
| "error_code_value DUPLICATE_PACKET = ''DUPLICATE_PACKET''"
| "error_code_value DECRYPTION_FAILED = ''DECRYPTION_FAILED''"
| "error_code_value PACKET_EXPIRED = ''PACKET_EXPIRED''"
| "error_code_value PACKET_NOT_YET_VALID = ''PACKET_NOT_YET_VALID''"
| "error_code_value INTERNAL_ERROR = ''INTERNAL_ERROR''"

datatype packet_status = CREATED | RELAYED | BRIDGED | SETTLED | REJECTED

fun packet_status_value :: "packet_status \<Rightarrow> string" where
  "packet_status_value CREATED = ''created''"
| "packet_status_value RELAYED = ''relayed''"
| "packet_status_value BRIDGED = ''bridged''"
| "packet_status_value SETTLED = ''settled''"
| "packet_status_value REJECTED = ''rejected''"

section \<open>The instruction\<close>

record instruction =
  i_packet_id :: uuid
  i_payer_id :: string
  i_payee_id :: string
  i_amount_minor :: int
  i_currency :: string
  i_created_at :: instant

definition instruction_fields :: "string list" where
  "instruction_fields =
     [''packet_id'', ''payer_id'', ''payee_id'', ''amount_minor'', ''currency'', ''created_at'']"

text \<open>The model's validation over its field results, in declaration order.\<close>

definition make_instruction ::
  "exn + uuid \<Rightarrow> exn + string \<Rightarrow> exn + string \<Rightarrow> exn + int \<Rightarrow> exn + string \<Rightarrow> exn + instant
   \<Rightarrow> exn + verr list \<Rightarrow> exn + instruction" where
  "make_instruction pid payer payee amount currency created extra =
     build_model
       [field_errors pid, field_errors payer, field_errors payee, field_errors amount,
        field_errors currency, field_errors created, extra]
       \<lparr> i_packet_id = projr pid, i_payer_id = projr payer, i_payee_id = projr payee,
         i_amount_minor = projr amount, i_currency = projr currency, i_created_at = projr created \<rparr>"

text \<open>\<^verbatim>\<open>PaymentInstruction.model_validate\<close> on a decoded JSON object.\<close>

definition validate_instruction :: "pydantic \<Rightarrow> (string \<times> json) list \<Rightarrow> exn + instruction" where
  "validate_instruction pd kvs =
     (let payer = get_field pd kvs ''payer_id'' (read_pattern pd identifier_pattern)
      in make_instruction
           (get_field pd kvs ''packet_id'' (read_uuid pd PythonMode))
           payer
           (get_field pd kvs ''payee_id''
              (\<lambda>j. sum_bind (read_pattern pd identifier_pattern j) (payee_differs_from_payer pd payer)))
           (get_field pd kvs ''amount_minor'' (read_amount pd PythonMode))
           (get_default kvs ''currency'' ''INR'' (read_pattern pd currency_pattern))
           (get_field pd kvs ''created_at'' (read_timestamp pd PythonMode))
           (extra_errors pd instruction_fields kvs))"

text \<open>\<^verbatim>\<open>PaymentInstruction(packet_id=..., ...)\<close> on Python values.\<close>

definition new_instruction ::
  "pydantic \<Rightarrow> uuid \<Rightarrow> string \<Rightarrow> string \<Rightarrow> int \<Rightarrow> string \<Rightarrow> datetime \<Rightarrow> exn + instruction" where
  "new_instruction pd pid payer payee amount currency created =
     (let rpayer = at_loc ''payer_id'' (check_pattern pd identifier_pattern payer)
      in make_instruction
           (Inr pid)
           rpayer
           (at_loc ''payee_id''
              (sum_bind (check_pattern pd identifier_pattern payee) (payee_differs_from_payer pd rpayer)))
           (at_loc ''amount_minor'' (check_amount pd amount))
           (at_loc ''currency'' (check_pattern pd currency_pattern currency))
           (at_loc ''created_at'' (check_timestamp pd created))
           (Inr []))"

definition instruction_json :: "instruction \<Rightarrow> (string \<times> json) list" where
  "instruction_json i =
     [(''packet_id'', JStr (uuid_str (i_packet_id i))),
      (''payer_id'', JStr (i_payer_id i)),
      (''payee_id'', JStr (i_payee_id i)),
      (''amount_minor'', JInt (i_amount_minor i)),
      (''currency'', JStr (i_currency i)),
      (''created_at'', JStr (canonical_timestamp (i_created_at i)))]"

definition to_canonical_bytes :: "instruction \<Rightarrow> bytes" where
  "to_canonical_bytes i = canonical_json (instruction_json i)"

text \<open>\<open>limit\<close> is the nesting the interpreter's recursion limit allows \<^verbatim>\<open>json.loads\<close>.\<close>

definition from_canonical_bytes :: "pydantic \<Rightarrow> nat \<Rightarrow> bytes \<Rightarrow> exn + instruction" where
  "from_canonical_bytes pd limit raw =
     (case json_loads limit raw of
        Inl (JSONDecodeError _) \<Rightarrow> Inl (ValueError ''decrypted payload is not valid JSON'')
      | Inl e \<Rightarrow> Inl e
      | Inr (JObj kvs) \<Rightarrow> validate_instruction pd kvs
      | Inr _ \<Rightarrow> Inl (ValueError ''decrypted payload is not a JSON object''))"

definition wf_instruction :: "instruction \<Rightarrow> bool" where
  "wf_instruction i \<longleftrightarrow>
     identifier_pattern (i_payer_id i) \<and> identifier_pattern (i_payee_id i)
     \<and> i_payer_id i \<noteq> i_payee_id i \<and> 0 < i_amount_minor i \<and> i_amount_minor i \<le> max_amount_minor
     \<and> currency_pattern (i_currency i) \<and> valid_instant (i_created_at i)"

section \<open>The envelope\<close>

record envelope =
  e_encrypted_key :: bytes
  e_nonce :: bytes
  e_ciphertext :: bytes
  e_aad :: bytes

definition envelope_fields :: "string list" where
  "envelope_fields = [''encrypted_key'', ''nonce'', ''ciphertext'', ''aad'']"

definition nonce_is_96_bits :: "pydantic \<Rightarrow> bytes \<Rightarrow> exn + bytes" where
  "nonce_is_96_bits pd v =
     (if length v \<noteq> 12 then Inl (verrs pd (ValueErr ''nonce must be exactly 12 bytes (96 bits)''))
      else Inr v)"

definition not_empty :: "pydantic \<Rightarrow> bytes \<Rightarrow> exn + bytes" where
  "not_empty pd v = (if v = [] then Inl (verrs pd (ValueErr ''value must not be empty'')) else Inr v)"

definition make_envelope ::
  "exn + bytes \<Rightarrow> exn + bytes \<Rightarrow> exn + bytes \<Rightarrow> exn + bytes \<Rightarrow> exn + verr list \<Rightarrow> exn + envelope" where
  "make_envelope ek nonce ct aad extra =
     build_model [field_errors ek, field_errors nonce, field_errors ct, field_errors aad, extra]
       \<lparr> e_encrypted_key = projr ek, e_nonce = projr nonce, e_ciphertext = projr ct, e_aad = projr aad \<rparr>"

definition validate_envelope :: "pydantic \<Rightarrow> json \<Rightarrow> exn + envelope" where
  "validate_envelope pd j =
     (case j of
        JObj kvs \<Rightarrow>
          make_envelope
            (get_field pd kvs ''encrypted_key'' (\<lambda>j. sum_bind (coerce_bytes pd j) (not_empty pd)))
            (get_field pd kvs ''nonce'' (\<lambda>j. sum_bind (coerce_bytes pd j) (nonce_is_96_bits pd)))
            (get_field pd kvs ''ciphertext'' (\<lambda>j. sum_bind (coerce_bytes pd j) (not_empty pd)))
            (get_field pd kvs ''aad'' (\<lambda>j. sum_bind (coerce_bytes pd j) (not_empty pd)))
            (extra_errors pd envelope_fields kvs)
      | _ \<Rightarrow> Inl (verrs pd ModelType))"

definition new_envelope :: "pydantic \<Rightarrow> bytes \<Rightarrow> bytes \<Rightarrow> bytes \<Rightarrow> bytes \<Rightarrow> exn + envelope" where
  "new_envelope pd ek nonce ct aad =
     make_envelope (at_loc ''encrypted_key'' (not_empty pd ek)) (at_loc ''nonce'' (nonce_is_96_bits pd nonce))
       (at_loc ''ciphertext'' (not_empty pd ct)) (at_loc ''aad'' (not_empty pd aad)) (Inr [])"

definition envelope_json :: "envelope \<Rightarrow> json" where
  "envelope_json e =
     JObj [(''encrypted_key'', JStr (b64u_encode (e_encrypted_key e))),
           (''nonce'', JStr (b64u_encode (e_nonce e))),
           (''ciphertext'', JStr (b64u_encode (e_ciphertext e))),
           (''aad'', JStr (b64u_encode (e_aad e)))]"

definition wf_envelope :: "envelope \<Rightarrow> bool" where
  "wf_envelope e \<longleftrightarrow>
     e_encrypted_key e \<noteq> [] \<and> length (e_nonce e) = 12 \<and> e_ciphertext e \<noteq> [] \<and> e_aad e \<noteq> []"

section \<open>Hop records\<close>

record hop =
  h_node_id :: string
  h_received_at :: instant

definition make_hop :: "exn + string \<Rightarrow> exn + instant \<Rightarrow> exn + verr list \<Rightarrow> exn + hop" where
  "make_hop node received extra =
     build_model [field_errors node, field_errors received, extra]
       \<lparr> h_node_id = projr node, h_received_at = projr received \<rparr>"

definition validate_hop :: "pydantic \<Rightarrow> vmode \<Rightarrow> json \<Rightarrow> exn + hop" where
  "validate_hop pd mode j =
     (case j of
        JObj kvs \<Rightarrow>
          make_hop
            (get_field pd kvs ''node_id'' (read_pattern pd identifier_pattern))
            (get_field pd kvs ''received_at'' (read_timestamp pd mode))
            (extra_errors pd [''node_id'', ''received_at''] kvs)
      | _ \<Rightarrow> Inl (verrs pd ModelType))"

definition new_hop :: "pydantic \<Rightarrow> string \<Rightarrow> datetime \<Rightarrow> exn + hop" where
  "new_hop pd node received =
     make_hop (at_loc ''node_id'' (check_pattern pd identifier_pattern node))
       (at_loc ''received_at'' (check_timestamp pd received)) (Inr [])"

definition hop_json :: "hop \<Rightarrow> json" where
  "hop_json h =
     JObj [(''node_id'', JStr (h_node_id h)), (''received_at'', JStr (canonical_timestamp (h_received_at h)))]"

definition wf_hop :: "hop \<Rightarrow> bool" where
  "wf_hop h \<longleftrightarrow> identifier_pattern (h_node_id h) \<and> valid_instant (h_received_at h)"

text \<open>A tuple field validates every element; the location of an error has the index.\<close>

fun validate_hop_list :: "pydantic \<Rightarrow> vmode \<Rightarrow> nat \<Rightarrow> json list \<Rightarrow> (exn + hop) list" where
  "validate_hop_list pd mode n [] = []"
| "validate_hop_list pd mode n (j # js) =
     at_loc (show_nat n) (validate_hop pd mode j) # validate_hop_list pd mode (Suc n) js"

definition validate_hops :: "pydantic \<Rightarrow> vmode \<Rightarrow> json \<Rightarrow> exn + hop list" where
  "validate_hops pd mode j =
     (case j of
        JArr js \<Rightarrow>
          (let rs = validate_hop_list pd mode 0 js in build_model (map field_errors rs) (map projr rs))
      | _ \<Rightarrow> Inl (verrs pd TupleType))"

end
