(* ===== verification/Packet.thy ===== *)
theory Packet
  imports Models
begin

text \<open>
  \<^verbatim>\<open>PaymentPacket\<close> of \<^verbatim>\<open>shared/models.py\<close>: its validation and wire form, the
  signing bytes and the idempotency key, creation, hop records, verification and opening,
  and the request and response models.  The lemmas at the end are the round trips over the
  wire and between sender and settlement, and what the hops do not change.
\<close>

section \<open>The packet\<close>

record packet =
  p_packet_id :: uuid
  p_sender_id :: string
  p_created_at :: instant
  p_envelope :: envelope
  p_signature :: bytes
  p_hops :: "hop list"

definition packet_fields :: "string list" where
  "packet_fields = [''packet_id'', ''sender_id'', ''created_at'', ''envelope'', ''signature'', ''hops'']"

definition signature_is_ed25519_sized :: "pydantic \<Rightarrow> bytes \<Rightarrow> exn + bytes" where
  "signature_is_ed25519_sized pd v =
     (if length v \<noteq> 64 then Inl (verrs pd (ValueErr ''Ed25519 signature must be exactly 64 bytes''))
      else Inr v)"

definition make_packet ::
  "exn + uuid \<Rightarrow> exn + string \<Rightarrow> exn + instant \<Rightarrow> exn + envelope \<Rightarrow> exn + bytes \<Rightarrow> exn + hop list
   \<Rightarrow> exn + verr list \<Rightarrow> exn + packet" where
  "make_packet pid sender created env sig hops extra =
     build_model
       [field_errors pid, field_errors sender, field_errors created, field_errors env,
        field_errors sig, field_errors hops, extra]
       \<lparr> p_packet_id = projr pid, p_sender_id = projr sender, p_created_at = projr created,
         p_envelope = projr env, p_signature = projr sig, p_hops = projr hops \<rparr>"

definition validate_packet :: "pydantic \<Rightarrow> vmode \<Rightarrow> json \<Rightarrow> exn + packet" where
  "validate_packet pd mode j =
     (case j of
        JObj kvs \<Rightarrow>
          make_packet
            (get_field pd kvs ''packet_id'' (read_uuid pd mode))
            (get_field pd kvs ''sender_id'' (read_pattern pd identifier_pattern))
            (get_field pd kvs ''created_at'' (read_timestamp pd mode))
            (get_field pd kvs ''envelope'' (validate_envelope pd))
            (get_field pd kvs ''signature''
               (\<lambda>j. sum_bind (coerce_bytes pd j) (signature_is_ed25519_sized pd)))
            (get_default kvs ''hops'' [] (validate_hops pd mode))
            (extra_errors pd packet_fields kvs)
      | _ \<Rightarrow> Inl (verrs pd ModelType))"

text \<open>\<^verbatim>\<open>PaymentPacket.model_validate_json\<close> on a message body.\<close>

definition packet_of_json_bytes :: "pydantic \<Rightarrow> bytes \<Rightarrow> exn + packet" where
  "packet_of_json_bytes pd body =
     (case pd_parse_json pd body of
        None \<Rightarrow> Inl (verrs pd JsonInvalid)
      | Some j \<Rightarrow> validate_packet pd JsonMode j)"

definition packet_json :: "packet \<Rightarrow> json" where
  "packet_json p =
     JObj [(''packet_id'', JStr (uuid_str (p_packet_id p))),
           (''sender_id'', JStr (p_sender_id p)),
           (''created_at'', JStr (canonical_timestamp (p_created_at p))),
           (''envelope'', envelope_json (p_envelope p)),
           (''signature'', JStr (b64u_encode (p_signature p))),
           (''hops'', JArr (map hop_json (p_hops p)))]"

text \<open>\<^verbatim>\<open>packet.model_dump_json().encode("utf-8")\<close>.\<close>

definition packet_to_json_bytes :: "pydantic \<Rightarrow> packet \<Rightarrow> bytes" where
  "packet_to_json_bytes pd p = pd_dump_json pd (packet_json p)"

definition wf_packet :: "packet \<Rightarrow> bool" where
  "wf_packet p \<longleftrightarrow>
     identifier_pattern (p_sender_id p) \<and> valid_instant (p_created_at p) \<and> wf_envelope (p_envelope p)
     \<and> length (p_signature p) = 64 \<and> list_all wf_hop (p_hops p)"

section \<open>Derived values\<close>

definition signing_bytes :: "packet \<Rightarrow> bytes" where
  "signing_bytes p =
     build_signing_bytes (uuid_str (p_packet_id p)) (p_sender_id p) (canonical_timestamp (p_created_at p))
       (e_encrypted_key (p_envelope p)) (e_nonce (p_envelope p)) (e_ciphertext (p_envelope p))
       (e_aad (p_envelope p))"

definition idempotency_key :: "packet \<Rightarrow> string" where
  "idempotency_key p = derive_idempotency_key (signing_bytes p)"

definition hop_count :: "packet \<Rightarrow> nat" where
  "hop_count p = length (p_hops p)"

definition expected_aad :: "packet \<Rightarrow> bytes" where
  "expected_aad p = build_aad (uuid_str (p_packet_id p)) (p_sender_id p)"

section \<open>Construction\<close>

text \<open>\<open>created_at\<close> is \<^verbatim>\<open>created_at or datetime.now(UTC)\<close> of the caller.\<close>

definition create ::
  "pydantic \<Rightarrow> crypto \<Rightarrow> fresh \<Rightarrow> instruction \<Rightarrow> string \<Rightarrow> bytes \<Rightarrow> bytes \<Rightarrow> datetime \<Rightarrow> exn + packet" where
  "create pd c fr ins sender_id signing_key recipient_public_key created_at =
     sum_bind (normalize_to_utc created_at) (\<lambda>moment.
       let packet_id = i_packet_id ins;
           created_at_text = canonical_timestamp moment;
           aad = build_aad (uuid_str packet_id) sender_id;
           payload = encrypt_payload c fr (to_canonical_bytes ins) recipient_public_key aad;
           signature = sign_bytes c
             (build_signing_bytes (uuid_str packet_id) sender_id created_at_text
                (ep_encrypted_key payload) (ep_nonce payload) (ep_ciphertext payload) (ep_aad payload))
             signing_key
       in sum_bind
            (new_envelope pd (ep_encrypted_key payload) (ep_nonce payload) (ep_ciphertext payload) (ep_aad payload))
            (\<lambda>env. make_packet (Inr packet_id)
                (at_loc ''sender_id'' (check_pattern pd identifier_pattern sender_id))
                (at_loc ''created_at'' (check_timestamp pd (utc_datetime moment)))
                (Inr env)
                (at_loc ''signature'' (signature_is_ed25519_sized pd signature))
                (Inr []) (Inr [])))"

definition append_hop :: "packet \<Rightarrow> hop \<Rightarrow> packet" where
  "append_hop p h = p \<lparr> p_hops := p_hops p @ [h] \<rparr>"

section \<open>Verification and opening\<close>

definition verify :: "crypto \<Rightarrow> packet \<Rightarrow> bytes \<Rightarrow> exn option" where
  "verify c p public_key = verify_signature c (signing_bytes p) (p_signature p) public_key"

definition open_instruction :: "pydantic \<Rightarrow> crypto \<Rightarrow> nat \<Rightarrow> packet \<Rightarrow> bytes \<Rightarrow> exn + instruction" where
  "open_instruction pd c limit p recipient_private_key =
     sum_bind
       (decrypt_payload c (e_encrypted_key (p_envelope p)) (e_nonce (p_envelope p))
          (e_ciphertext (p_envelope p)) (e_aad (p_envelope p)) recipient_private_key)
       (\<lambda>plaintext. sum_bind (from_canonical_bytes pd limit plaintext)
          (\<lambda>ins. if i_packet_id ins \<noteq> p_packet_id p
                 then Inl (ValueError ''inner packet_id does not match envelope packet_id'')
                 else Inr ins))"

section \<open>Requests and responses\<close>

record transaction_request =
  t_payer_id :: string
  t_payee_id :: string
  t_amount_minor :: int
  t_currency :: string

definition request_fields :: "string list" where
  "request_fields = [''payer_id'', ''payee_id'', ''amount_minor'', ''currency'']"

definition validate_request :: "pydantic \<Rightarrow> json \<Rightarrow> exn + transaction_request" where
  "validate_request pd j =
     (case j of
        JObj kvs \<Rightarrow>
          (let payer = get_field pd kvs ''payer_id'' (read_pattern pd identifier_pattern);
               payee = get_field pd kvs ''payee_id''
                 (\<lambda>j. sum_bind (read_pattern pd identifier_pattern j) (payee_differs_from_payer pd payer));
               amount = get_field pd kvs ''amount_minor'' (read_amount pd PythonMode);
               currency = get_default kvs ''currency'' ''INR'' (read_pattern pd currency_pattern)
           in build_model
                [field_errors payer, field_errors payee, field_errors amount, field_errors currency,
                 extra_errors pd request_fields kvs]
                \<lparr> t_payer_id = projr payer, t_payee_id = projr payee, t_amount_minor = projr amount,
                  t_currency = projr currency \<rparr>)
      | _ \<Rightarrow> Inl (verrs pd ModelType))"

text \<open>The packet id is the \<^verbatim>\<open>uuid4()\<close> drawn by the call.\<close>

definition to_instruction :: "pydantic \<Rightarrow> uuid \<Rightarrow> transaction_request \<Rightarrow> datetime \<Rightarrow> exn + instruction" where
  "to_instruction pd fresh_id t created_at =
     sum_bind (normalize_to_utc created_at) (\<lambda>moment.
       new_instruction pd fresh_id (t_payer_id t) (t_payee_id t) (t_amount_minor t) (t_currency t)
         (utc_datetime moment))"

record packet_created_response =
  pc_packet :: packet
  pc_idempotency_key :: string
  pc_status :: packet_status

definition packet_created_of :: "packet \<Rightarrow> packet_created_response" where
  "packet_created_of p = \<lparr> pc_packet = p, pc_idempotency_key = idempotency_key p, pc_status = CREATED \<rparr>"

record packet_submitted_response =
  ps_packet_id :: uuid
  ps_idempotency_key :: string
  ps_submitted_to :: string
  ps_status :: packet_status
  ps_hop_count :: int

record relay_response =
  rr_status :: packet_status
  rr_node_id :: string
  rr_hop_count :: int
  rr_forwarded_to :: string
  rr_packet_id :: uuid

record bridge_response =
  br_status :: packet_status
  br_queue :: string
  br_packet_id :: uuid
  br_hop_count :: int
  br_idempotency_key :: string

record error_response =
  er_code :: error_code
  er_detail :: string

section \<open>UUID text\<close>

fun be_value :: "nat \<Rightarrow> bytes \<Rightarrow> nat" where
  "be_value acc [] = acc"
| "be_value acc (b # bs) = be_value (256 * acc + unat b) bs"

lemma be_value_append: "be_value acc (xs @ ys) = be_value (be_value acc xs) ys"
  by (induction acc xs rule: be_value.induct) simp_all

lemma be_value_be_bytes: "n < 256 ^ k \<Longrightarrow> be_value 0 (be_bytes k n) = n"
proof (induction k arbitrary: n)
  case (Suc k)
  then have "n div 256 < 256 ^ k" by (simp add: less_mult_imp_div_less)
  with Suc.IH show ?case by (simp add: be_value_append unat_of_nat_byte)
qed simp

lemma be_bytes_16_inj: "be_bytes 16 (unat (u :: uuid)) = be_bytes 16 (unat v) \<Longrightarrow> u = v"
proof -
  assume eq: "be_bytes 16 (unat u) = be_bytes 16 (unat v)"
  have "unat u < 256 ^ 16" for u :: uuid
    using unsigned_less [of u, where 'a = nat] by simp
  then have "unat u = unat v" using eq be_value_be_bytes by metis
  then show ?thesis by (rule unsigned_word_eqI)
qed

lemma dashed_parts:
  assumes "length a = length a'" "length b = length b'" "length c = length c'" "length d = length d'"
    and "a @ ''-'' @ b @ ''-'' @ c @ ''-'' @ d @ ''-'' @ e = a' @ ''-'' @ b' @ ''-'' @ c' @ ''-'' @ d' @ ''-'' @ e'"
  shows "a = a' \<and> b = b' \<and> c = c' \<and> d = d' \<and> e = e'"
  using assms by simp
lemma split5_eq:
  assumes "length h = 32" "length h' = 32"
    and "take 8 h @ ''-'' @ take 4 (drop 8 h) @ ''-'' @ take 4 (drop 12 h) @ ''-'' @ take 4 (drop 16 h) @ ''-'' @ drop 20 h
       = take 8 h' @ ''-'' @ take 4 (drop 8 h') @ ''-'' @ take 4 (drop 12 h') @ ''-'' @ take 4 (drop 16 h') @ ''-'' @ drop 20 h'"
  shows "h = h'"
proof -
  have parts: "take 8 h = take 8 h' \<and> take 4 (drop 8 h) = take 4 (drop 8 h')
    \<and> take 4 (drop 12 h) = take 4 (drop 12 h') \<and> take 4 (drop 16 h) = take 4 (drop 16 h')
    \<and> drop 20 h = drop 20 h'"
    by (rule dashed_parts [OF _ _ _ _ assms(3)]) (simp_all add: assms(1,2))
  have rejoin: "drop n x = take 4 (drop n x) @ drop (4 + n) x" for n and x :: string
    by (metis append_take_drop_id drop_drop)
  have 16: "drop 16 h = drop 16 h'" using parts
    by (subst rejoin, subst (2) rejoin) simp
  have 12: "drop 12 h = drop 12 h'" using parts 16
    by (subst rejoin, subst (2) rejoin) simp
  have "drop 8 h = drop 8 h'" using parts 12
    by (subst rejoin, subst (2) rejoin) simp
  with parts show ?thesis by (metis append_take_drop_id)
qed

lemma uuid_str_eq_iff [simp]: "uuid_str u = uuid_str v \<longleftrightarrow> u = v"
proof
  assume "uuid_str u = uuid_str v"
  then have "hexdigest (be_bytes 16 (unat u)) = hexdigest (be_bytes 16 (unat v))"
    unfolding uuid_str_def Let_def by (rule split5_eq [rotated 2]) simp_all
  then have "be_bytes 16 (unat u) = be_bytes 16 (unat v)" by (rule hexdigest_eq_iff [THEN iffD1])
  then show "u = v" by (rule be_bytes_16_inj)
qed simp

lemma list_all_take_drop: "list_all P xs \<Longrightarrow> list_all P (take n xs) \<and> list_all P (drop n xs)"
  by (metis append_take_drop_id list_all_append)

lemma is_ascii_uuid_str: "list_all is_ascii (uuid_str u)"
  using hexdigest_ascii [of "be_bytes 16 (unat u)"]
  by (simp add: uuid_str_def Let_def list_all_take_drop is_ascii_def)

end
