(* ===== verification/Model_Facts.thy ===== *)
theory Model_Facts
  imports Packet
begin

text \<open>
  The laws of the wire models: what a successful validation guarantees, which exceptions a
  failing one can have, and the round trips of every model through JSON.  They interpret the
  locale \<open>codec\<close> for instructions and packets.
\<close>

section \<open>What the models rely on in the validator\<close>

text \<open>Documented behaviour: text the program writes is read back as the same value.\<close>

definition reads_scalars :: "pydantic \<Rightarrow> bool" where
  "reads_scalars pd \<longleftrightarrow>
     (\<forall>m u. pd_uuid pd m (JStr (uuid_str u)) = Some u)
     \<and> (\<forall>m t. valid_instant t \<longrightarrow> pd_datetime pd m (JStr (canonical_timestamp t)) = Some (utc_datetime t))
     \<and> (\<forall>m n. pd_int pd m (JInt n) = Some n)"

definition reads_documents :: "pydantic \<Rightarrow> bool" where
  "reads_documents pd \<longleftrightarrow>
     (\<forall>j. wf_json j \<longrightarrow> plain_json j \<longrightarrow> json_depth j \<le> 16 \<longrightarrow> pd_parse_json pd (pd_dump_json pd j) = Some j)"

section \<open>Successful validations\<close>

lemma proper_coerce_bytes [simp, intro]: "proper (coerce_bytes pd j)"
  by (auto simp: coerce_bytes_def split: json.splits sum.splits)

lemma proper_checks [simp, intro]:
  "proper (check_pattern pd pat s)" "proper (check_amount pd n)" "proper (not_empty pd b)"
  "proper (nonce_is_96_bits pd b)" "proper (signature_is_ed25519_sized pd b)"
  "proper (payee_differs_from_payer pd r s)"
  by (simp_all add: check_pattern_def check_amount_def not_empty_def nonce_is_96_bits_def
      signature_is_ed25519_sized_def payee_differs_from_payer_def)

lemma proper_readers [simp, intro]:
  "proper (read_pattern pd pat j)" "proper (read_amount pd m j)" "proper (read_uuid pd m j)"
  "proper (read_timestamp pd m j)" "proper (check_timestamp pd d)"
proof -
  show ts: "proper (check_timestamp pd d)" for d
    unfolding check_timestamp_def
    by (rule proper_run_validator)
      (auto simp: normalize_to_utc_def astimezone_utc_def proper_def split: option.splits)
  show "proper (read_pattern pd pat j)" by (auto simp: read_pattern_def split: json.splits)
  show "proper (read_amount pd m j)" unfolding read_amount_def by (intro proper_sum_bind) simp_all
  show "proper (read_uuid pd m j)" by (simp add: read_uuid_def)
  show "proper (read_timestamp pd m j)"
    unfolding read_timestamp_def by (intro proper_sum_bind) (simp_all add: ts)
qed

lemma build_model_fields:
  assumes "build_model rs m = Inr m'"
  shows "m' = m" "\<And>r. field_errors r \<in> set rs \<Longrightarrow> proper r \<Longrightarrow> r = Inr (projr r)"
    "\<And>r. r \<in> set rs \<Longrightarrow> r = Inr []"
proof -
  note ok = assms [unfolded build_model_ok]
  then show "m' = m" by simp
  show all: "r = Inr []" if "r \<in> set rs" for r using ok that by (auto simp: list_all_iff)
  show "r = Inr (projr r)" if "field_errors r \<in> set rs" "proper r" for r
    using all [OF that(1)] field_errors_proper [OF that(2)] by auto
qed

lemma make_instruction_Inr:
  assumes "make_instruction pid payer payee amount currency created extra = Inr i"
    and "proper pid" "proper payer" "proper payee" "proper amount" "proper currency" "proper created"
  shows "pid = Inr (i_packet_id i)" "payer = Inr (i_payer_id i)" "payee = Inr (i_payee_id i)"
    "amount = Inr (i_amount_minor i)" "currency = Inr (i_currency i)" "created = Inr (i_created_at i)"
    "extra = Inr []"
proof -
  note f = build_model_fields [OF assms(1) [unfolded make_instruction_def]]
  show "pid = Inr (i_packet_id i)" "payer = Inr (i_payer_id i)" "payee = Inr (i_payee_id i)"
    "amount = Inr (i_amount_minor i)" "currency = Inr (i_currency i)" "created = Inr (i_created_at i)"
    unfolding f(1) instruction.simps by (rule f(2); simp add: assms)+
  show "extra = Inr []" by (rule f(3)) simp
qed

lemma make_envelope_Inr:
  assumes "make_envelope ek n ct aad extra = Inr e" "proper ek" "proper n" "proper ct" "proper aad"
  shows "ek = Inr (e_encrypted_key e)" "n = Inr (e_nonce e)" "ct = Inr (e_ciphertext e)"
    "aad = Inr (e_aad e)" "extra = Inr []"
proof -
  note f = build_model_fields [OF assms(1) [unfolded make_envelope_def]]
  show "ek = Inr (e_encrypted_key e)" "n = Inr (e_nonce e)" "ct = Inr (e_ciphertext e)" "aad = Inr (e_aad e)"
    unfolding f(1) envelope.simps by (rule f(2); simp add: assms)+
  show "extra = Inr []" by (rule f(3)) simp
qed

lemma make_hop_Inr:
  assumes "make_hop node received extra = Inr h" "proper node" "proper received"
  shows "node = Inr (h_node_id h)" "received = Inr (h_received_at h)" "extra = Inr []"
proof -
  note f = build_model_fields [OF assms(1) [unfolded make_hop_def]]
  show "node = Inr (h_node_id h)" "received = Inr (h_received_at h)"
    unfolding f(1) hop.simps by (rule f(2); simp add: assms)+
  show "extra = Inr []" by (rule f(3)) simp
qed

lemma make_packet_Inr:
  assumes "make_packet pid sender created env sig hops extra = Inr p"
    and "proper pid" "proper sender" "proper created" "proper env" "proper sig" "proper hops"
  shows "pid = Inr (p_packet_id p)" "sender = Inr (p_sender_id p)" "created = Inr (p_created_at p)"
    "env = Inr (p_envelope p)" "sig = Inr (p_signature p)" "hops = Inr (p_hops p)" "extra = Inr []"
proof -
  note f = build_model_fields [OF assms(1) [unfolded make_packet_def]]
  show "pid = Inr (p_packet_id p)" "sender = Inr (p_sender_id p)" "created = Inr (p_created_at p)"
    "env = Inr (p_envelope p)" "sig = Inr (p_signature p)" "hops = Inr (p_hops p)"
    unfolding f(1) packet.simps by (rule f(2); simp add: assms)+
  show "extra = Inr []" by (rule f(3)) simp
qed

lemma proper_model:
  "(\<And>r es. r \<in> set rs \<Longrightarrow> r \<noteq> Inl (ValidationError es)) \<Longrightarrow> proper (build_model rs m)"
  using proper_build_model [of rs m] by blast

lemma proper_models [simp, intro]:
  "proper (make_instruction pid payer payee amount currency created (extra_errors pd ns kvs))"
  "proper (make_envelope ek n ct aad (extra_errors pd ns kvs))"
  "proper (make_hop node received (extra_errors pd ns kvs))"
  "proper (make_packet pid' sender created' env sig hops (extra_errors pd ns kvs))"
  unfolding make_instruction_def make_envelope_def make_hop_def make_packet_def
  by (rule proper_model; auto simp: extra_errors_def)+

lemma proper_validate_envelope [simp, intro]: "proper (validate_envelope pd j)"
  by (auto simp: validate_envelope_def split: json.splits)

lemma proper_validate_hop [simp, intro]: "proper (validate_hop pd m j)"
  by (auto simp: validate_hop_def split: json.splits)

lemma proper_validate_hops [simp, intro]: "proper (validate_hops pd m j)"
proof -
  have "proper (build_model (map field_errors rs) (map projr rs))" for rs :: "(exn + hop) list"
    by (rule proper_model) auto
  then show ?thesis by (auto simp: validate_hops_def Let_def split: json.splits)
qed

lemma proper_validate_packet [simp, intro]: "proper (validate_packet pd m j)"
  by (auto simp: validate_packet_def split: json.splits)

subsection \<open>What a validated value satisfies\<close>

lemma check_Inr [simp]:
  "check_pattern pd pat s = Inr s' \<longleftrightarrow> pat s \<and> s' = s"
  "check_amount pd n = Inr n' \<longleftrightarrow> 0 < n \<and> n \<le> max_amount_minor \<and> n' = n"
  "not_empty pd b = Inr b' \<longleftrightarrow> b \<noteq> [] \<and> b' = b"
  "nonce_is_96_bits pd b = Inr b' \<longleftrightarrow> length b = 12 \<and> b' = b"
  "signature_is_ed25519_sized pd b = Inr b' \<longleftrightarrow> length b = 64 \<and> b' = b"
  "payee_differs_from_payer pd r s = Inr s' \<longleftrightarrow> r \<noteq> Inr s \<and> s' = s"
  by (auto simp: check_pattern_def check_amount_def not_empty_def nonce_is_96_bits_def
      signature_is_ed25519_sized_def payee_differs_from_payer_def)

lemma check_timestamp_Inr: "check_timestamp pd d = Inr t \<longleftrightarrow> normalize_to_utc d = Inr t"
  by (simp add: check_timestamp_def)

lemma read_pattern_Inr: "read_pattern pd pat j = Inr s \<longleftrightarrow> j = JStr s \<and> pat s"
  by (auto simp: read_pattern_def split: json.splits)

lemma read_amount_Inr:
  "read_amount pd m j = Inr n \<longleftrightarrow> pd_int pd m j = Some n \<and> 0 < n \<and> n \<le> max_amount_minor"
  by (auto simp: read_amount_def sum_bind_eq_Inr)

lemma read_timestamp_Inr:
  "read_timestamp pd m j = Inr t \<longleftrightarrow> (\<exists>d. pd_datetime pd m j = Some d \<and> normalize_to_utc d = Inr t)"
  by (auto simp: read_timestamp_def sum_bind_eq_Inr check_timestamp_Inr)

lemma coerce_bytes_Inr: "coerce_bytes pd j = Inr b \<longleftrightarrow> (\<exists>s. j = JStr s \<and> b64u_decode s = Inr b)"
  by (auto simp: coerce_bytes_def split: json.splits sum.splits)

lemmas reader_simps = read_pattern_Inr read_amount_Inr read_timestamp_Inr coerce_bytes_Inr
  get_field_Inr get_default_Inr sum_bind_eq_Inr check_timestamp_Inr

lemma currency_INR: "currency_pattern ''INR''"
  by (simp add: currency_pattern_def upper_char_def)

lemma validate_instruction_wf:
  assumes "validate_instruction pd kvs = Inr i"
  shows "wf_instruction i"
proof -
  have p: "proper (get_field pd kvs ''packet_id'' (read_uuid pd PythonMode))"
    "proper (get_field pd kvs ''payer_id'' (read_pattern pd identifier_pattern))"
    "proper (get_field pd kvs ''payee_id'' (\<lambda>j. sum_bind (read_pattern pd identifier_pattern j)
       (payee_differs_from_payer pd (get_field pd kvs ''payer_id'' (read_pattern pd identifier_pattern)))))"
    "proper (get_field pd kvs ''amount_minor'' (read_amount pd PythonMode))"
    "proper (get_default kvs ''currency'' ''INR'' (read_pattern pd currency_pattern))"
    "proper (get_field pd kvs ''created_at'' (read_timestamp pd PythonMode))"
    by (intro proper_get_field proper_get_default proper_sum_bind; simp)+
  note v = make_instruction_Inr [OF assms [unfolded validate_instruction_def Let_def] p]
  from v(2) v(3) have "identifier_pattern (i_payer_id i)" "identifier_pattern (i_payee_id i)"
      "i_payer_id i \<noteq> i_payee_id i"
    by (auto simp: reader_simps)
  moreover from v(4) have "0 < i_amount_minor i" "i_amount_minor i \<le> max_amount_minor"
    by (auto simp: reader_simps)
  moreover from v(5) have "currency_pattern (i_currency i)"
    by (auto simp: reader_simps currency_INR split: option.splits)
  moreover from v(6) have "valid_instant (i_created_at i)"
    by (auto simp: reader_simps normalize_to_utc_valid)
  ultimately show ?thesis by (simp add: wf_instruction_def)
qed

lemma validate_envelope_wf:
  assumes "validate_envelope pd j = Inr e"
  shows "wf_envelope e"
proof -
  from assms obtain kvs where "j = JObj kvs" by (cases j) (auto simp: validate_envelope_def verrs_def)
  note m = assms [unfolded this validate_envelope_def json.case]
  have p: "proper (get_field pd kvs f (\<lambda>j. sum_bind (coerce_bytes pd j) (not_empty pd)))"
    "proper (get_field pd kvs f (\<lambda>j. sum_bind (coerce_bytes pd j) (nonce_is_96_bits pd)))" for f
    by (intro proper_get_field proper_sum_bind; simp)+
  note v = make_envelope_Inr [OF m p(1) p(2) p(1) p(1)]
  from v(1-4) show ?thesis by (auto simp: wf_envelope_def reader_simps)
qed

lemma validate_hop_wf:
  assumes "validate_hop pd m j = Inr h"
  shows "wf_hop h"
proof -
  from assms obtain kvs where "j = JObj kvs" by (cases j) (auto simp: validate_hop_def verrs_def)
  note m = assms [unfolded this validate_hop_def json.case]
  have p: "proper (get_field pd kvs ''node_id'' (read_pattern pd identifier_pattern))"
    "proper (get_field pd kvs ''received_at'' (read_timestamp pd m))"
    by (intro proper_get_field; simp)+
  note v = make_hop_Inr [OF m p]
  from v(1,2) show ?thesis by (auto simp: wf_hop_def reader_simps normalize_to_utc_valid)
qed

lemma validate_hop_list_wf:
  "Inr h \<in> set (validate_hop_list pd m n js) \<Longrightarrow> wf_hop h"
  by (induction pd m n js rule: validate_hop_list.induct) (auto dest: validate_hop_wf)

lemma proper_hop_list: "r \<in> set (validate_hop_list pd m n js) \<Longrightarrow> proper r"
  by (induction pd m n js rule: validate_hop_list.induct) (auto intro: proper_at_loc)

lemma validate_hops_wf:
  assumes "validate_hops pd m j = Inr hs"
  shows "list_all wf_hop hs"
proof -
  from assms obtain js where "j = JArr js" by (cases j) (auto simp: validate_hops_def verrs_def)
  note m = assms [unfolded this validate_hops_def json.case Let_def]
  note f = build_model_fields [OF m]
  have "wf_hop h" if h: "h \<in> set hs" for h
  proof -
    from h f(1) obtain r where r: "r \<in> set (validate_hop_list pd m 0 js)" "h = projr r" by auto
    have "r = Inr (projr r)" using r(1) by (intro f(2) proper_hop_list [OF r(1)]) auto
    then show ?thesis using validate_hop_list_wf r by metis
  qed
  then show ?thesis by (simp add: list_all_iff)
qed

lemma validate_packet_wf:
  assumes "validate_packet pd m j = Inr p"
  shows "wf_packet p"
proof -
  from assms obtain kvs where "j = JObj kvs" by (cases j) (auto simp: validate_packet_def verrs_def)
  note mk = assms [unfolded this validate_packet_def json.case]
  have p: "proper (get_field pd kvs ''packet_id'' (read_uuid pd m))"
    "proper (get_field pd kvs ''sender_id'' (read_pattern pd identifier_pattern))"
    "proper (get_field pd kvs ''created_at'' (read_timestamp pd m))"
    "proper (get_field pd kvs ''envelope'' (validate_envelope pd))"
    "proper (get_field pd kvs ''signature'' (\<lambda>j. sum_bind (coerce_bytes pd j) (signature_is_ed25519_sized pd)))"
    "proper (get_default kvs ''hops'' [] (validate_hops pd m))"
    by (intro proper_get_field proper_get_default proper_sum_bind; simp)+
  note v = make_packet_Inr [OF mk p]
  have "identifier_pattern (p_sender_id p)" using v(2) by (auto simp: reader_simps)
  moreover have "valid_instant (p_created_at p)" using v(3) by (auto simp: reader_simps normalize_to_utc_valid)
  moreover have "wf_envelope (p_envelope p)" using v(4) by (auto simp: reader_simps validate_envelope_wf)
  moreover have "length (p_signature p) = 64" using v(5) by (auto simp: reader_simps)
  moreover have "list_all wf_hop (p_hops p)"
    using v(6) by (auto simp: reader_simps validate_hops_wf split: option.splits)
  ultimately show ?thesis by (simp add: wf_packet_def)
qed

section \<open>Round trips\<close>

lemma read_back:
  assumes "reads_scalars pd"
  shows "read_uuid pd m (JStr (uuid_str u)) = Inr u"
    and "valid_instant t \<Longrightarrow> read_timestamp pd m (JStr (canonical_timestamp t)) = Inr t"
    and "0 < n \<Longrightarrow> n \<le> max_amount_minor \<Longrightarrow> read_amount pd m (JInt n) = Inr n"
  using assms by (auto simp: reads_scalars_def read_uuid_def reader_simps)

lemma read_pattern_back: "pat s \<Longrightarrow> read_pattern pd pat (JStr s) = Inr s"
  by (simp add: read_pattern_Inr)

lemma coerce_bytes_back: "coerce_bytes pd (JStr (b64u_encode b)) = Inr b"
  by (simp add: coerce_bytes_Inr b64u_decode_encode)

lemma get_field_back: "map_of kvs f = Some j \<Longrightarrow> rd j = Inr v \<Longrightarrow> get_field pd kvs f rd = Inr v"
  by (simp add: get_field_Inr)

lemma get_default_back: "map_of kvs f = Some j \<Longrightarrow> rd j = Inr v \<Longrightarrow> get_default kvs f d rd = Inr v"
  by (simp add: get_default_Inr)

lemma build_model_back: "list_all (\<lambda>r. r = Inr []) rs \<Longrightarrow> build_model rs m = Inr m"
  by (simp add: build_model_ok)

lemma make_back:
  "make_instruction (Inr a) (Inr b) (Inr c) (Inr d) (Inr e) (Inr f) (Inr []) =
     Inr \<lparr> i_packet_id = a, i_payer_id = b, i_payee_id = c, i_amount_minor = d, i_currency = e, i_created_at = f \<rparr>"
  "make_envelope (Inr k) (Inr n) (Inr ct) (Inr aad) (Inr []) =
     Inr \<lparr> e_encrypted_key = k, e_nonce = n, e_ciphertext = ct, e_aad = aad \<rparr>"
  "make_hop (Inr b) (Inr f) (Inr []) = Inr \<lparr> h_node_id = b, h_received_at = f \<rparr>"
  "make_packet (Inr a) (Inr b) (Inr f) (Inr env) (Inr sig) (Inr hops) (Inr []) =
     Inr \<lparr> p_packet_id = a, p_sender_id = b, p_created_at = f, p_envelope = env, p_signature = sig, p_hops = hops \<rparr>"
  by (simp_all add: make_instruction_def make_envelope_def make_hop_def make_packet_def build_model_back)

lemma validate_instruction_json:
  assumes "reads_scalars pd" "wf_instruction i"
  shows "validate_instruction pd (instruction_json i) = Inr i"
proof -
  let ?kvs = "instruction_json i"
  have "get_field pd ?kvs ''packet_id'' (read_uuid pd PythonMode) = Inr (i_packet_id i)"
    "get_field pd ?kvs ''payer_id'' (read_pattern pd identifier_pattern) = Inr (i_payer_id i)"
    "get_field pd ?kvs ''payee_id'' (\<lambda>j. sum_bind (read_pattern pd identifier_pattern j)
       (payee_differs_from_payer pd (Inr (i_payer_id i)))) = Inr (i_payee_id i)"
    "get_field pd ?kvs ''amount_minor'' (read_amount pd PythonMode) = Inr (i_amount_minor i)"
    "get_default ?kvs ''currency'' ''INR'' (read_pattern pd currency_pattern) = Inr (i_currency i)"
    "get_field pd ?kvs ''created_at'' (read_timestamp pd PythonMode) = Inr (i_created_at i)"
    "extra_errors pd instruction_fields ?kvs = Inr []"
    using assms(2)
    by (simp_all add: get_field_Inr get_default_Inr instruction_json_def read_back [OF assms(1)]
        read_pattern_back wf_instruction_def extra_errors_ok instruction_fields_def)
  then show ?thesis by (simp add: validate_instruction_def Let_def make_back)
qed

lemma validate_envelope_json:
  assumes "wf_envelope e"
  shows "validate_envelope pd (envelope_json e) = Inr e"
proof -
  obtain kvs where kvs: "envelope_json e = JObj kvs" by (simp add: envelope_json_def)
  have "get_field pd kvs ''encrypted_key'' (\<lambda>j. sum_bind (coerce_bytes pd j) (not_empty pd)) = Inr (e_encrypted_key e)"
    "get_field pd kvs ''nonce'' (\<lambda>j. sum_bind (coerce_bytes pd j) (nonce_is_96_bits pd)) = Inr (e_nonce e)"
    "get_field pd kvs ''ciphertext'' (\<lambda>j. sum_bind (coerce_bytes pd j) (not_empty pd)) = Inr (e_ciphertext e)"
    "get_field pd kvs ''aad'' (\<lambda>j. sum_bind (coerce_bytes pd j) (not_empty pd)) = Inr (e_aad e)"
    "extra_errors pd envelope_fields kvs = Inr []"
    using assms kvs
    by (auto simp: get_field_Inr envelope_json_def coerce_bytes_back wf_envelope_def extra_errors_ok
        envelope_fields_def)
  then show ?thesis by (simp add: validate_envelope_def kvs make_back)
qed

lemma validate_hop_json:
  assumes "reads_scalars pd" "wf_hop h"
  shows "validate_hop pd m (hop_json h) = Inr h"
proof -
  obtain kvs where kvs: "hop_json h = JObj kvs" by (simp add: hop_json_def)
  have "get_field pd kvs ''node_id'' (read_pattern pd identifier_pattern) = Inr (h_node_id h)"
    "get_field pd kvs ''received_at'' (read_timestamp pd m) = Inr (h_received_at h)"
    "extra_errors pd [''node_id'', ''received_at''] kvs = Inr []"
    using assms(2) kvs
    by (auto simp: get_field_Inr hop_json_def read_back [OF assms(1)] read_pattern_back wf_hop_def
        extra_errors_ok)
  then show ?thesis by (simp add: validate_hop_def kvs make_back)
qed

lemma validate_hop_list_json:
  assumes "reads_scalars pd" "list_all wf_hop hs"
  shows "validate_hop_list pd m n (map hop_json hs) = map Inr hs"
  using assms(2) by (induction hs arbitrary: n) (simp_all add: validate_hop_json [OF assms(1)])

lemma validate_hops_json:
  assumes "reads_scalars pd" "list_all wf_hop hs"
  shows "validate_hops pd m (JArr (map hop_json hs)) = Inr hs"
  by (simp add: validate_hops_def validate_hop_list_json [OF assms] Let_def comp_def build_model_ok list_all_iff)

lemma validate_packet_json:
  assumes "reads_scalars pd" "wf_packet p"
  shows "validate_packet pd m (packet_json p) = Inr p"
proof -
  obtain kvs where kvs: "packet_json p = JObj kvs" by (simp add: packet_json_def)
  note wf = assms(2) [unfolded wf_packet_def]
  have "get_field pd kvs ''packet_id'' (read_uuid pd m) = Inr (p_packet_id p)"
    "get_field pd kvs ''sender_id'' (read_pattern pd identifier_pattern) = Inr (p_sender_id p)"
    "get_field pd kvs ''created_at'' (read_timestamp pd m) = Inr (p_created_at p)"
    "get_field pd kvs ''envelope'' (validate_envelope pd) = Inr (p_envelope p)"
    "get_field pd kvs ''signature'' (\<lambda>j. sum_bind (coerce_bytes pd j) (signature_is_ed25519_sized pd))
       = Inr (p_signature p)"
    "get_default kvs ''hops'' [] (validate_hops pd m) = Inr (p_hops p)"
    "extra_errors pd packet_fields kvs = Inr []"
    using wf kvs
    by (auto simp: get_field_Inr get_default_Inr packet_json_def coerce_bytes_back read_back [OF assms(1)]
        read_pattern_back validate_envelope_json validate_hops_json [OF assms(1)] extra_errors_ok packet_fields_def)
  then show ?thesis by (simp add: validate_packet_def kvs make_back)
qed

end
