(* ===== verification/Packet_Facts.thy ===== *)
theory Packet_Facts
  imports Model_Facts
begin

text \<open>
  The properties of packets: their text survives the wire, the signed region is exactly the
  header and the envelope, hops leave it alone, and what the sender seals the settlement
  side verifies and opens to the same instruction, under this header and no other.
\<close>

section \<open>Plain documents\<close>

lemma identifier_ascii: "identifier_pattern s \<Longrightarrow> list_all is_ascii s"
  by (fastforce simp: identifier_pattern_def identifier_char_def is_ascii_def list_all_iff Let_def)

lemma currency_ascii: "currency_pattern s \<Longrightarrow> list_all is_ascii s"
  by (fastforce simp: currency_pattern_def upper_char_def is_ascii_def list_all_iff Let_def)

lemma b64u_ascii: "list_all is_ascii (b64u_encode b)"
proof -
  have "b64u_decode (b64u_encode b) \<noteq> Inl b64u_error" by (simp add: b64u_decode_encode)
  then show ?thesis unfolding b64u_decode_def by (metis)
qed

lemma small_amount: "0 < n \<Longrightarrow> n \<le> max_amount_minor \<Longrightarrow> small_int n"
proof -
  assume n: "0 < n" "n \<le> max_amount_minor"
  have len: "length (show_nat k) \<le> w" if "k < 10 ^ w" "0 < w" for k w
    using that
  proof (induction w arbitrary: k)
    case (Suc w)
    show ?case
    proof (cases "k < 10")
      case False
      then have "0 < w" using Suc.prems by (cases w) simp_all
      moreover have "k div 10 < 10 ^ w" using Suc.prems by (simp add: less_mult_imp_div_less)
      ultimately show ?thesis using Suc.IH [of "k div 10"] False by (subst show_nat.simps) simp
    qed (subst show_nat.simps, simp)
  qed simp
  have "nat n < 10 ^ 13" using n by (simp add: max_amount_minor_def)
  then have "length (show_nat (nat n)) \<le> 13" by (rule len) simp
  then show ?thesis using n by (simp add: small_int_def)
qed

lemma plain_instruction:
  "wf_instruction i \<Longrightarrow> plain_json (JObj (instruction_json i))"
  by (auto simp: instruction_json_def wf_instruction_def identifier_ascii currency_ascii
      is_ascii_timestamp is_ascii_uuid_str) (auto simp: is_ascii_def)

lemma flat_instruction: "wf_instruction i \<Longrightarrow> flat_payload (instruction_json i)"
  by (auto simp: flat_payload_def instruction_json_def json_leaf_def wf_instruction_def small_amount)

lemma ascii_literal [simp]: "list_all is_ascii ''hops''" "list_all is_ascii ''node_id''"
  by (simp_all add: is_ascii_def)

lemma plain_envelope: "plain_json (envelope_json e)"
  by (simp add: envelope_json_def b64u_ascii) (simp add: is_ascii_def)

lemma plain_hop: "wf_hop h \<Longrightarrow> plain_json (hop_json h)"
  by (simp add: hop_json_def wf_hop_def identifier_ascii is_ascii_timestamp) (simp add: is_ascii_def)

lemma plain_hops: "list_all wf_hop hs \<Longrightarrow> list_all plain_json (map hop_json hs)"
  by (induction hs) (simp_all add: plain_hop)

lemma plain_packet: "wf_packet p \<Longrightarrow> plain_json (packet_json p)"
  by (simp add: packet_json_def wf_packet_def identifier_ascii is_ascii_timestamp is_ascii_uuid_str
      b64u_ascii plain_envelope plain_hops list.map_comp [symmetric] del: list.map_comp)
    (simp add: is_ascii_def)

lemma wf_packet_json: "wf_json (packet_json p)"
  by (auto simp: packet_json_def envelope_json_def hop_json_def list_all_iff)

lemma depth_packet_json: "json_depth (packet_json p) \<le> 3"
proof -
  have "json_depth (hop_json h) = 1" for h by (simp add: hop_json_def)
  moreover have "json_depth (envelope_json e) = 1" for e by (simp add: envelope_json_def)
  ultimately show ?thesis by (auto simp: packet_json_def)
qed

section \<open>Over the wire\<close>

lemma packet_wire:
  assumes "reads_scalars pd" "reads_documents pd" "wf_packet p"
  shows "packet_of_json_bytes pd (packet_to_json_bytes pd p) = Inr p"
proof -
  have "pd_parse_json pd (pd_dump_json pd (packet_json p)) = Some (packet_json p)"
    using assms(2) wf_packet_json plain_packet [OF assms(3)] depth_packet_json [of p]
    by (auto simp: reads_documents_def)
  then show ?thesis
    by (simp add: packet_of_json_bytes_def packet_to_json_bytes_def validate_packet_json [OF assms(1,3)])
qed

lemma packet_of_json_bytes_wf: "packet_of_json_bytes pd body = Inr p \<Longrightarrow> wf_packet p"
  by (auto simp: packet_of_json_bytes_def verrs_def dest: validate_packet_wf split: option.splits)

lemma map_of_sort_key: "distinct (map fst kvs) \<Longrightarrow> map_of (sort_key fst kvs) = map_of kvs"
  by (rule map_of_eqI) (auto simp: map_of_eq_Some_iff)

lemma validate_instruction_map:
  assumes "map_of kvs = map_of kvs'" "fst ` set kvs \<subseteq> set instruction_fields"
    "fst ` set kvs' \<subseteq> set instruction_fields"
  shows "validate_instruction pd kvs = validate_instruction pd kvs'"
  using assms(2,3)
  by (simp add: validate_instruction_def get_field_def get_default_def assms(1) extra_errors_ok [THEN iffD2])

lemma instruction_plaintext:
  assumes "reads_scalars pd" "wf_instruction i" "1 \<le> limit"
  shows "from_canonical_bytes pd limit (to_canonical_bytes i) = Inr i"
proof -
  let ?kvs = "instruction_json i"
  have flat: "flat_payload ?kvs" by (rule flat_instruction [OF assms(2)])
  have depth: "json_depth (JObj ?kvs) \<le> limit" using assms(3) by (simp add: instruction_json_def)
  have "json_loads limit (canonical_json ?kvs) = Inr (JObj (sort_key fst ?kvs))"
    using json_loads_canonical [OF flat_payload_wf [OF flat] plain_instruction [OF assms(2)] depth]
    by (simp only: sort_flat_payload [OF flat])
  moreover have "validate_instruction pd (sort_key fst ?kvs) = validate_instruction pd ?kvs"
  proof (rule validate_instruction_map)
    show "map_of (sort_key fst ?kvs) = map_of ?kvs"
      using flat by (intro map_of_sort_key) (simp add: flat_payload_def)
    show "fst ` set (sort_key fst ?kvs) \<subseteq> set instruction_fields" "fst ` set ?kvs \<subseteq> set instruction_fields"
      unfolding set_sort by (simp_all add: instruction_json_def instruction_fields_def)
  qed
  ultimately show ?thesis
    by (simp add: from_canonical_bytes_def to_canonical_bytes_def validate_instruction_json [OF assms(1,2)])
qed

section \<open>The signed region\<close>

lemma signing_bytes_eq_iff:
  assumes "wf_packet p" "wf_packet q"
  shows "signing_bytes p = signing_bytes q \<longleftrightarrow>
    p \<lparr> p_signature := [], p_hops := [] \<rparr> = q \<lparr> p_signature := [], p_hops := [] \<rparr>"
proof -
  have "canonical_timestamp (p_created_at p) = canonical_timestamp (p_created_at q)
      \<longleftrightarrow> p_created_at p = p_created_at q"
    using assms canonical_timestamp_inj by (auto simp: wf_packet_def)
  then show ?thesis
    by (cases p; cases q; cases "p_envelope p"; cases "p_envelope q")
      (auto simp: signing_bytes_def build_signing_bytes_eq_iff)
qed

lemma append_hop_signed [simp]:
  "signing_bytes (append_hop p h) = signing_bytes p"
  "idempotency_key (append_hop p h) = idempotency_key p"
  "verify c (append_hop p h) k = verify c p k"
  "open_instruction pd c limit (append_hop p h) k' = open_instruction pd c limit p k'"
  "expected_aad (append_hop p h) = expected_aad p"
  "hop_count (append_hop p h) = Suc (hop_count p)"
  by (simp_all add: append_hop_def signing_bytes_def idempotency_key_def verify_def open_instruction_def
      expected_aad_def hop_count_def)

lemma wf_append_hop: "wf_packet p \<Longrightarrow> wf_hop h \<Longrightarrow> wf_packet (append_hop p h)"
  by (simp add: wf_packet_def append_hop_def)

lemma expected_aad_eq_iff:
  "expected_aad p = expected_aad q \<longleftrightarrow> p_packet_id p = p_packet_id q \<and> p_sender_id p = p_sender_id q"
  by (simp add: expected_aad_def build_aad_eq_iff)

lemma expected_aad_nonempty: "expected_aad p \<noteq> []"
  by (simp add: expected_aad_def build_aad_def canonical_json_def utf8_encode_def sort_flat_payload [OF flat_aad]
      del: sort_json.simps)

section \<open>Sealing and opening\<close>

lemma create_Inr:
  assumes "create pd c fr ins sender sk pk created = Inr p"
  defines "a \<equiv> build_aad (uuid_str (i_packet_id ins)) sender"
  defines "ep \<equiv> encrypt_payload c fr (to_canonical_bytes ins) pk a"
  shows "normalize_to_utc created = Inr (p_created_at p)"
    and "p_packet_id p = i_packet_id ins" and "p_sender_id p = sender" and "p_hops p = []"
    and "p_envelope p = \<lparr> e_encrypted_key = ep_encrypted_key ep, e_nonce = ep_nonce ep,
           e_ciphertext = ep_ciphertext ep, e_aad = a \<rparr>"
    and "p_signature p = sign_bytes c (signing_bytes p) sk"
    and "wf_packet p"
proof -
  have ep_aad: "ep_aad ep = a" by (simp add: ep_def encrypt_payload_def)
  let ?sig = "\<lambda>moment. sign_bytes c
             (build_signing_bytes (uuid_str (i_packet_id ins)) sender (canonical_timestamp moment)
                (ep_encrypted_key ep) (ep_nonce ep) (ep_ciphertext ep) a) sk"
  from assms(1) obtain moment env where m: "normalize_to_utc created = Inr moment"
    and env: "new_envelope pd (ep_encrypted_key ep) (ep_nonce ep) (ep_ciphertext ep) a = Inr env"
    and mk: "make_packet (Inr (i_packet_id ins))
        (at_loc ''sender_id'' (check_pattern pd identifier_pattern sender))
        (at_loc ''created_at'' (check_timestamp pd (utc_datetime moment))) (Inr env)
        (at_loc ''signature'' (signature_is_ed25519_sized pd (?sig moment)))
        (Inr []) (Inr []) = Inr p"
    unfolding create_def sum_bind_eq_Inr Let_def a_def [symmetric] ep_def [symmetric] ep_aad by blast
  have vm: "valid_instant moment" by (rule normalize_to_utc_valid [OF m])
  have e: "e_encrypted_key env = ep_encrypted_key ep" "e_nonce env = ep_nonce ep"
    "e_ciphertext env = ep_ciphertext ep" "e_aad env = a" "wf_envelope env"
    using make_envelope_Inr [OF env [unfolded new_envelope_def] proper_at_loc proper_at_loc proper_at_loc proper_at_loc]
    by (simp_all add: wf_envelope_def)
  have v: "i_packet_id ins = p_packet_id p" "identifier_pattern sender" "sender = p_sender_id p"
    "moment = p_created_at p" "env = p_envelope p" "length (?sig moment) = 64" "?sig moment = p_signature p"
    "p_hops p = []"
    using make_packet_Inr [OF mk proper_Inr proper_at_loc proper_at_loc proper_Inr proper_at_loc proper_Inr] vm
    by (simp_all add: check_timestamp_Inr)
  show "normalize_to_utc created = Inr (p_created_at p)" using m v(4) by simp
  show "p_packet_id p = i_packet_id ins" "p_sender_id p = sender" "p_hops p = []" using v by simp_all
  show "p_envelope p = \<lparr> e_encrypted_key = ep_encrypted_key ep, e_nonce = ep_nonce ep,
           e_ciphertext = ep_ciphertext ep, e_aad = a \<rparr>"
    using e v(5) by (cases env) simp
  show "p_signature p = sign_bytes c (signing_bytes p) sk"
    using e v by (simp add: signing_bytes_def)
  show "wf_packet p" using e v vm by (simp add: wf_packet_def)
qed

lemma create_verifies:
  assumes "create pd c fr ins sender sk pk created = Inr p" "signs_correctly c"
  shows "verify c p (ed25519_public c sk) = None"
  unfolding verify_def create_Inr(6) [OF assms(1)] by (rule verify_sign [OF assms(2)])

lemma create_aad:
  "create pd c fr ins sender sk pk created = Inr p \<Longrightarrow> e_aad (p_envelope p) = expected_aad p"
  by (simp add: create_Inr(2,3,5) expected_aad_def)

lemma create_decrypts:
  assumes "create pd c fr ins sender sk (rsa_public c rk) created = Inr p" "seals_correctly c" "fresh_ok fr"
  shows "decrypt_payload c (e_encrypted_key (p_envelope p)) (e_nonce (p_envelope p))
      (e_ciphertext (p_envelope p)) (e_aad (p_envelope p)) rk = Inr (to_canonical_bytes ins)"
  using decrypt_encrypt [OF assms(2,3), of "to_canonical_bytes ins" rk] create_Inr(5) [OF assms(1)] by simp

lemma create_opens:
  assumes "create pd c fr ins sender sk (rsa_public c rk) created = Inr p"
    and "seals_correctly c" "fresh_ok fr" "reads_scalars pd'" "wf_instruction ins" "1 \<le> limit"
  shows "open_instruction pd' c limit p rk = Inr ins"
  by (simp add: open_instruction_def create_decrypts [OF assms(1-3)] instruction_plaintext [OF assms(4-6)]
      create_Inr(2) [OF assms(1)])

lemma create_succeeds:
  assumes "signs_correctly c" "seals_correctly c" "fresh_ok fr" "identifier_pattern sender"
    and "normalize_to_utc created = Inr moment"
  shows "\<exists>p. create pd c fr ins sender sk (rsa_public c rk) created = Inr p"
proof -
  define a where "a = build_aad (uuid_str (i_packet_id ins)) sender"
  define ep where "ep = encrypt_payload c fr (to_canonical_bytes ins) (rsa_public c rk) a"
  have ep_aad: "ep_aad ep = a" by (simp add: ep_def encrypt_payload_def)
  have "a \<noteq> []"
    by (simp add: a_def build_aad_def canonical_json_def utf8_encode_def sort_flat_payload [OF flat_aad]
        del: sort_json.simps)
  then have "new_envelope pd (ep_encrypted_key ep) (ep_nonce ep) (ep_ciphertext ep) a
      = Inr \<lparr> e_encrypted_key = ep_encrypted_key ep, e_nonce = ep_nonce ep, e_ciphertext = ep_ciphertext ep, e_aad = a \<rparr>"
    using assms(2,3)
    by (simp add: new_envelope_def not_empty_def nonce_is_96_bits_def at_loc_def make_back ep_def
        encrypt_payload_def seals_correctly_def fresh_ok_def aes_key_bytes_def aes_key_bits_def gcm_nonce_bytes_def)
  moreover have "check_timestamp pd (utc_datetime moment) = Inr moment"
    using normalize_to_utc_valid [OF assms(5)] by (simp add: check_timestamp_Inr)
  moreover have "length (sign_bytes c sb sk) = 64" for sb
    using assms(1) by (simp add: signs_correctly_def sign_bytes_def)
  ultimately show ?thesis
    by (simp add: create_def assms(4,5) Let_def a_def [symmetric] ep_def [symmetric] ep_aad at_loc_def
        check_pattern_def signature_is_ed25519_sized_def make_back)
qed

text \<open>The sealed payload under another packet id or sender: the tag check fails.\<close>

lemma reheadered_fails:
  assumes "create pd c fr ins sender sk (rsa_public c rk) created = Inr p"
    and "seals_correctly c" "authenticates_aad c" "fresh_ok fr"
    and "e_encrypted_key (p_envelope q) = e_encrypted_key (p_envelope p)"
      "e_nonce (p_envelope q) = e_nonce (p_envelope p)"
      "e_ciphertext (p_envelope q) = e_ciphertext (p_envelope p)"
      "e_aad (p_envelope q) = expected_aad q"
    and "p_packet_id q \<noteq> p_packet_id p \<or> p_sender_id q \<noteq> p_sender_id p"
  shows "open_instruction pd' c limit q rk = Inl (DecryptionError ''AES-GCM authentication tag mismatch'')"
proof -
  have "expected_aad q \<noteq> build_aad (uuid_str (i_packet_id ins)) sender"
    using assms(9) create_Inr(2,3) [OF assms(1)] by (simp add: expected_aad_def build_aad_eq_iff)
  from decrypt_other_aad [OF assms(2,3,4) this, of "to_canonical_bytes ins" rk]
  show ?thesis
    using create_Inr(5) [OF assms(1)] assms(5-8) by (simp add: open_instruction_def)
qed

section \<open>Errors of opening\<close>

lemma collect_error: "collect rs = Inl e \<Longrightarrow> Inl e \<in> set rs"
  by (induction rs) (auto simp: sum_bind_eq_Inl)

lemma field_errors_Inl: "field_errors r = Inl e \<Longrightarrow> r = Inl e"
  by (auto simp: field_errors_def split: sum.splits exn.splits)

lemma make_instruction_error:
  assumes "make_instruction pid payer payee amount currency created (extra_errors pd ns kvs) = Inl e"
    and "\<not> is_value_error e"
  shows "pid = Inl e \<or> payer = Inl e \<or> payee = Inl e \<or> amount = Inl e \<or> currency = Inl e \<or> created = Inl e"
proof -
  have "collect [field_errors pid, field_errors payer, field_errors payee, field_errors amount,
      field_errors currency, field_errors created, extra_errors pd ns kvs] = Inl e"
    using assms by (auto simp: make_instruction_def build_model_def sum_bind_eq_Inl split: if_splits)
  from collect_error [OF this] show ?thesis
    by (auto simp: extra_errors_def dest!: field_errors_Inl [OF sym])
qed

lemma at_loc_Inl: "at_loc f r = Inl e \<Longrightarrow> \<not> is_value_error e \<Longrightarrow> r = Inl e"
  by (auto simp: at_loc_def split: sum.splits exn.splits)

lemma is_value_error_verrs [simp]: "is_value_error (verrs pd e)"
  by (simp add: verrs_def)

lemma reader_errors:
  "read_pattern pd pat j = Inl e \<Longrightarrow> is_value_error e"
  "read_amount pd m j = Inl e \<Longrightarrow> is_value_error e"
  "read_uuid pd m j = Inl e \<Longrightarrow> is_value_error e"
  "payee_differs_from_payer pd r s = Inl e \<Longrightarrow> is_value_error e"
  by (auto simp: read_pattern_def check_pattern_def read_amount_def check_amount_def read_uuid_def
      require_def payee_differs_from_payer_def sum_bind_eq_Inl split: json.splits if_splits option.splits)

lemma read_timestamp_error:
  "read_timestamp pd m j = Inl e \<Longrightarrow> is_value_error e \<or> e = OverflowError ''date value out of range''"
  by (auto simp: read_timestamp_def check_timestamp_def run_validator_def normalize_to_utc_def astimezone_utc_def
      require_def sum_bind_eq_Inl split: option.splits sum.splits exn.splits if_splits)

lemma get_field_error:
  "get_field pd kvs f rd = Inl e \<Longrightarrow> \<not> is_value_error e \<Longrightarrow> \<exists>j. rd j = Inl e"
  by (auto simp: get_field_def dest!: at_loc_Inl split: option.splits)

lemma get_default_error:
  "get_default kvs f d rd = Inl e \<Longrightarrow> \<not> is_value_error e \<Longrightarrow> \<exists>j. rd j = Inl e"
  by (auto simp: get_default_def dest!: at_loc_Inl split: option.splits)

lemma validate_instruction_error:
  assumes "validate_instruction pd kvs = Inl e"
  shows "is_value_error e \<or> e = OverflowError ''date value out of range''"
proof (rule ccontr)
  assume no: "\<not> ?thesis"
  then have nv: "\<not> is_value_error e" by blast
  note fields = get_field_error [OF _ nv] get_default_error [OF _ nv]
  have u: "read_uuid pd m j \<noteq> Inl e" "read_pattern pd pat j \<noteq> Inl e" "read_amount pd m j \<noteq> Inl e"
    "read_timestamp pd m j \<noteq> Inl e" for m pat j
    using nv no reader_errors(1-3) read_timestamp_error by blast+
  have y: "sum_bind (read_pattern pd pat j) (payee_differs_from_payer pd r) \<noteq> Inl e" for pat r j
    using u(2) nv reader_errors(4) by (auto simp: sum_bind_eq_Inl)
  from make_instruction_error [OF assms [unfolded validate_instruction_def Let_def] nv]
  show False by (elim disjE) (use u y in \<open>fast dest: fields\<close>)+
qed

text \<open>Opening raises a decryption error, a \<^verbatim>\<open>ValueError\<close>, or one of two others.\<close>

definition escaping_error :: "exn \<Rightarrow> bool" where
  "escaping_error e \<longleftrightarrow> e = RecursionError \<or> e = OverflowError ''date value out of range''"

lemma from_canonical_bytes_error:
  assumes "from_canonical_bytes pd limit raw = Inl e"
  shows "is_value_error e \<or> escaping_error e"
proof (cases "json_loads limit raw")
  case (Inl e')
  then have "is_value_error e' \<or> e' = RecursionError" by (rule json_loads_error)
  with Inl assms show ?thesis
    by (auto simp: from_canonical_bytes_def escaping_error_def split: exn.splits)
next
  case (Inr j)
  with assms show ?thesis
    by (auto simp: from_canonical_bytes_def escaping_error_def split: json.splits dest: validate_instruction_error)
qed

lemma open_instruction_error:
  assumes "open_instruction pd c limit p k = Inl e"
  shows "(\<exists>m. e = DecryptionError m) \<or> is_value_error e \<or> escaping_error e"
  using assms
  by (auto simp: open_instruction_def sum_bind_eq_Inl dest: decrypt_payload_error from_canonical_bytes_error
      split: if_splits)

lemma from_canonical_bytes_wf: "from_canonical_bytes pd limit raw = Inr i \<Longrightarrow> wf_instruction i"
  by (auto simp: from_canonical_bytes_def dest: validate_instruction_wf split: sum.splits json.splits exn.splits)

lemma open_instruction_Inr:
  assumes "open_instruction pd c limit p k = Inr i"
  shows "wf_instruction i" "i_packet_id i = p_packet_id p"
  using assms by (auto simp: open_instruction_def sum_bind_eq_Inr from_canonical_bytes_wf split: if_splits)

end
