(* ===== verification/Effects.thy ===== *)
theory Effects
  imports Errors
begin

text \<open>
  Coroutines that talk to services.  An \<^verbatim>\<open>async\<close> function of the program is a
  \<open>prog\<close>: it returns, raises, or issues one command and continues with the reply.  Every
  \<^verbatim>\<open>await\<close> of a service is one \<open>Do\<close>, so the points where other tasks may run are
  exactly the commands.  \<open>bindP\<close> is sequencing and \<open>tryP\<close> is \<^verbatim>\<open>try\<close> with an
  \<^verbatim>\<open>except\<close> clause.  A \<open>path\<close> is one complete execution with the replies it saw,
  whatever the services do; \<open>run\<close> executes against a state.
\<close>

section \<open>Programs\<close>

datatype ('c, 'r, 'a) prog =
    Ret 'a
  | Raise exn
  | Do 'c "'r \<Rightarrow> ('c, 'r, 'a) prog"

primrec bindP :: "('c, 'r, 'a) prog \<Rightarrow> ('a \<Rightarrow> ('c, 'r, 'b) prog) \<Rightarrow> ('c, 'r, 'b) prog" where
  "bindP (Ret x) f = f x"
| "bindP (Raise e) f = Raise e"
| "bindP (Do c k) f = Do c (\<lambda>r. bindP (k r) f)"

text \<open>The handler answers \<^const>\<open>None\<close> for an exception its clause does not catch.\<close>

primrec tryP :: "('c, 'r, 'a) prog \<Rightarrow> (exn \<Rightarrow> ('c, 'r, 'a) prog option) \<Rightarrow> ('c, 'r, 'a) prog" where
  "tryP (Ret x) h = Ret x"
| "tryP (Raise e) h = (case h e of None \<Rightarrow> Raise e | Some p \<Rightarrow> p)"
| "tryP (Do c k) h = Do c (\<lambda>r. tryP (k r) h)"

definition lift :: "exn + 'a \<Rightarrow> ('c, 'r, 'a) prog" where
  "lift m = (case m of Inl e \<Rightarrow> Raise e | Inr x \<Rightarrow> Ret x)"

lemma lift_simps [simp]: "lift (Inl e) = Raise e" "lift (Inr x) = Ret x"
  by (simp_all add: lift_def)

lemma bindP_Ret [simp]: "bindP p Ret = p"
  by (induction p) simp_all

lemma bindP_assoc: "bindP (bindP p f) g = bindP p (\<lambda>x. bindP (f x) g)"
  by (induction p) simp_all

section \<open>Paths\<close>

type_synonym ('c, 'r) history = "('c \<times> 'r) list"

inductive path :: "('c, 'r, 'a) prog \<Rightarrow> ('c, 'r) history \<Rightarrow> exn + 'a \<Rightarrow> bool" where
  path_Ret: "path (Ret x) [] (Inr x)"
| path_Raise: "path (Raise e) [] (Inl e)"
| path_Do: "path (k r) h res \<Longrightarrow> path (Do c k) ((c, r) # h) res"

inductive_simps path_Ret_iff [simp]: "path (Ret x) h res"
inductive_simps path_Raise_iff [simp]: "path (Raise e) h res"
inductive_simps path_Do_iff: "path (Do c k) h res"

lemma path_bind:
  "path (bindP p f) h res \<longleftrightarrow>
     (\<exists>h1 h2 x. path p h1 (Inr x) \<and> path (f x) h2 res \<and> h = h1 @ h2)
     \<or> (\<exists>e. path p h (Inl e) \<and> res = Inl e)"
proof (induction p arbitrary: h)
  case (Do c k)
  show ?case (is "?l \<longleftrightarrow> ?r")
  proof
    assume ?l
    then obtain r h' where h: "h = (c, r) # h'" "path (bindP (k r) f) h' res"
      by (auto simp: path_Do_iff)
    from h(2) Do.IH [of "k r"]
    have "(\<exists>h1 h2 x. path (k r) h1 (Inr x) \<and> path (f x) h2 res \<and> h' = h1 @ h2)
        \<or> (\<exists>e. path (k r) h' (Inl e) \<and> res = Inl e)" by auto
    then show ?r
    proof (elim disjE exE conjE)
      fix h1 h2 x assume "path (k r) h1 (Inr x)" "path (f x) h2 res" "h' = h1 @ h2"
      then show ?r using path_Do [of k r h1 "Inr x" c] h(1) by (metis append_Cons)
    next
      fix e assume "path (k r) h' (Inl e)" "res = Inl e"
      then show ?r using path_Do [of k r h' "Inl e" c] h(1) by blast
    qed
  next
    assume ?r
    then show ?l
    proof (elim disjE exE conjE)
      fix h1 h2 x assume a: "path (Do c k) h1 (Inr x)" "path (f x) h2 res" "h = h1 @ h2"
      then obtain r h' where "h1 = (c, r) # h'" "path (k r) h' (Inr x)" by (auto simp: path_Do_iff)
      moreover from this a Do.IH [of "k r"] have "path (bindP (k r) f) (h' @ h2) res" by auto
      ultimately show ?l using a by (auto simp: path_Do_iff)
    next
      fix e assume a: "path (Do c k) h (Inl e)" "res = Inl e"
      then obtain r h' where "h = (c, r) # h'" "path (k r) h' (Inl e)" by (auto simp: path_Do_iff)
      moreover from this a Do.IH [of "k r"] have "path (bindP (k r) f) h' res" by auto
      ultimately show ?l by (auto simp: path_Do_iff)
    qed
  qed
qed auto

lemma path_try:
  "path (tryP p hdl) h res \<longleftrightarrow>
     (\<exists>x. path p h (Inr x) \<and> res = Inr x)
     \<or> (\<exists>e. path p h (Inl e) \<and> hdl e = None \<and> res = Inl e)
     \<or> (\<exists>h1 h2 e q. path p h1 (Inl e) \<and> hdl e = Some q \<and> path q h2 res \<and> h = h1 @ h2)"
proof (induction p arbitrary: h)
  case (Raise e)
  then show ?case by (cases "hdl e") auto
next
  case (Do c k)
  show ?case (is "?l \<longleftrightarrow> ?r")
  proof
    assume ?l
    then obtain r h' where h: "h = (c, r) # h'" "path (tryP (k r) hdl) h' res"
      by (auto simp: path_Do_iff)
    from h(2) Do.IH [of "k r"]
    have "(\<exists>x. path (k r) h' (Inr x) \<and> res = Inr x)
        \<or> (\<exists>e. path (k r) h' (Inl e) \<and> hdl e = None \<and> res = Inl e)
        \<or> (\<exists>h1 h2 e q. path (k r) h1 (Inl e) \<and> hdl e = Some q \<and> path q h2 res \<and> h' = h1 @ h2)" by auto
    then show ?r
    proof (elim disjE exE conjE)
      fix x assume "path (k r) h' (Inr x)" "res = Inr x"
      then show ?r using h(1) by (auto simp: path_Do_iff)
    next
      fix e assume "path (k r) h' (Inl e)" "hdl e = None" "res = Inl e"
      then show ?r using h(1) by (auto simp: path_Do_iff)
    next
      fix h1 h2 e q assume "path (k r) h1 (Inl e)" "hdl e = Some q" "path q h2 res" "h' = h1 @ h2"
      then show ?r using path_Do [of k r h1 "Inl e" c] h(1) by (metis append_Cons)
    qed
  next
    assume ?r
    then show ?l
    proof (elim disjE exE conjE)
      fix x assume a: "path (Do c k) h (Inr x)" "res = Inr x"
      then obtain r h' where "h = (c, r) # h'" "path (k r) h' (Inr x)" by (auto simp: path_Do_iff)
      then show ?l using Do.IH [of "k r"] a by (auto simp: path_Do_iff)
    next
      fix e assume a: "path (Do c k) h (Inl e)" "hdl e = None" "res = Inl e"
      then obtain r h' where "h = (c, r) # h'" "path (k r) h' (Inl e)" by (auto simp: path_Do_iff)
      then show ?l using Do.IH [of "k r"] a by (auto simp: path_Do_iff)
    next
      fix h1 h2 e q assume a: "path (Do c k) h1 (Inl e)" "hdl e = Some q" "path q h2 res" "h = h1 @ h2"
      then obtain r h' where "h1 = (c, r) # h'" "path (k r) h' (Inl e)" by (auto simp: path_Do_iff)
      moreover from this a have "path (tryP (k r) hdl) (h' @ h2) res"
        unfolding Do.IH [of "k r", OF rangeI] by blast
      ultimately show ?l using a by (auto simp: path_Do_iff)
    qed
  qed
qed auto

text \<open>The shapes the program uses: a mapped result, one exception caught, all caught.\<close>

lemma path_map:
  "path (bindP p (\<lambda>x. Ret (f x))) h res \<longleftrightarrow> (\<exists>y. path p h y \<and> res = map_sum id f y)"
proof
  assume "path (bindP p (\<lambda>x. Ret (f x))) h res"
  then show "\<exists>y. path p h y \<and> res = map_sum id f y"
    unfolding path_bind by (force simp: path_Ret_iff)
next
  assume "\<exists>y. path p h y \<and> res = map_sum id f y"
  then obtain y where "path p h y" "res = map_sum id f y" by blast
  then show "path (bindP p (\<lambda>x. Ret (f x))) h res"
    unfolding path_bind by (cases y) (auto intro!: exI [of _ h])
qed

lemma path_try_one:
  "path (tryP p (\<lambda>e. if e = c then Some q else None)) h res \<longleftrightarrow>
     (path p h res \<and> res \<noteq> Inl c) \<or> (\<exists>h1 h2. path p h1 (Inl c) \<and> path q h2 res \<and> h = h1 @ h2)"
  unfolding path_try by (cases res) auto

lemma path_try_all:
  "path (tryP p (\<lambda>e. Some (q e))) h res \<longleftrightarrow>
     (path p h res \<and> (\<exists>x. res = Inr x)) \<or> (\<exists>h1 h2 e. path p h1 (Inl e) \<and> path (q e) h2 res \<and> h = h1 @ h2)"
  unfolding path_try by auto

lemma path_lift [simp]: "path (lift m) h res \<longleftrightarrow> h = [] \<and> res = m"
  by (cases m) auto

section \<open>Running against a state\<close>

primrec run :: "('c \<Rightarrow> 'w \<Rightarrow> 'r \<times> 'w) \<Rightarrow> ('c, 'r, 'a) prog \<Rightarrow> 'w \<Rightarrow> (exn + 'a) \<times> 'w" where
  "run ex (Ret x) = (\<lambda>w. (Inr x, w))"
| "run ex (Raise e) = (\<lambda>w. (Inl e, w))"
| "run ex (Do c k) = (\<lambda>w. case ex c w of (r, w') \<Rightarrow> run ex (k r) w')"

lemma run_Do: "run ex (Do c k) w = run ex (k (fst (ex c w))) (snd (ex c w))"
  by (simp add: split_beta)

lemma run_bind:
  "run ex (bindP p f) w =
     (case run ex p w of (Inl e, w') \<Rightarrow> (Inl e, w') | (Inr x, w') \<Rightarrow> run ex (f x) w')"
  by (induction p arbitrary: w) (simp_all add: split_beta)

lemma run_try:
  "run ex (tryP p h) w =
     (case run ex p w of
        (Inl e, w') \<Rightarrow> (case h e of None \<Rightarrow> (Inl e, w') | Some q \<Rightarrow> run ex q w')
      | (Inr x, w') \<Rightarrow> (Inr x, w'))"
  by (induction p arbitrary: w) (simp_all add: split_beta split: option.splits)

lemma run_lift [simp]: "run ex (lift m) w = (m, w)"
  by (cases m) simp_all

text \<open>Every run follows a path.\<close>

lemma run_path: "\<exists>h. path p h (fst (run ex p w))"
proof (induction p arbitrary: w)
  case (Do c k)
  then obtain h where "path (k (fst (ex c w))) h (fst (run ex (k (fst (ex c w))) (snd (ex c w))))" by blast
  then have "path (Do c k) ((c, fst (ex c w)) # h) (fst (run ex (Do c k) w))"
    unfolding run_Do by (rule path_Do)
  then show ?case by blast
qed auto

text \<open>A path is what a list of replies replays to.\<close>

primrec replay :: "('c, 'r, 'a) prog \<Rightarrow> 'r list \<Rightarrow> (('c, 'r) history \<times> (exn + 'a)) option" where
  "replay (Ret x) = (\<lambda>rs. if rs = [] then Some ([], Inr x) else None)"
| "replay (Raise e) = (\<lambda>rs. if rs = [] then Some ([], Inl e) else None)"
| "replay (Do c k) = (\<lambda>rs. case rs of [] \<Rightarrow> None
     | r # rs' \<Rightarrow> map_option (\<lambda>(h, res). ((c, r) # h, res)) (replay (k r) rs'))"

lemma replay_path: "replay p rs = Some (h, res) \<Longrightarrow> path p h res"
proof (induction p arbitrary: rs h)
  case (Do c k)
  then show ?case by (auto simp: path_Do_iff split: list.splits)
qed (auto split: if_splits)

text \<open>The commands and replies of a run, and its final state from them.\<close>

primrec trace :: "('c \<Rightarrow> 'w \<Rightarrow> 'r \<times> 'w) \<Rightarrow> ('c, 'r, 'a) prog \<Rightarrow> 'w \<Rightarrow> ('c, 'r) history" where
  "trace ex (Ret x) = (\<lambda>w. [])"
| "trace ex (Raise e) = (\<lambda>w. [])"
| "trace ex (Do c k) = (\<lambda>w. (c, fst (ex c w)) # trace ex (k (fst (ex c w))) (snd (ex c w)))"

lemma path_trace: "path p (trace ex p w) (fst (run ex p w))"
proof (induction p arbitrary: w)
  case (Do c k)
  show ?case unfolding run_Do by (simp add: path_Do Do.IH)
qed (auto)

lemma run_trace: "snd (run ex p w) = foldl (\<lambda>w c. snd (ex c w)) w (map fst (trace ex p w))"
  by (induction p arbitrary: w) (simp_all add: run_Do del: run.simps(3))

lemma trace_first: "trace ex p w = (c, r) # h \<Longrightarrow> r = fst (ex c w)"
  by (cases p) auto

text \<open>What is left of a program after some replies; every program can be completed.\<close>

fun after :: "('c, 'r, 'a) prog \<Rightarrow> ('c, 'r) history \<Rightarrow> ('c, 'r, 'a) prog option" where
  "after p [] = Some p"
| "after (Do c k) (x # h) = (if fst x = c then after (k (snd x)) h else None)"
| "after (Ret y) (x # h) = None"
| "after (Raise e) (x # h) = None"

lemma after_append: "after p h = Some q \<Longrightarrow> after p (h @ h') = after q h'"
  by (induction p h rule: after.induct) (auto split: if_splits)

lemma after_step: "after p h = Some (Do c k) \<Longrightarrow> after p (h @ [(c, r)]) = Some (k r)"
  by (simp add: after_append)

lemma after_path: "after p h = Some q \<Longrightarrow> path q h' res \<Longrightarrow> path p (h @ h') res"
  by (induction p h rule: after.induct) (auto simp: path_Do_iff split: if_splits)

lemma path_exists: "\<exists>h res. path p h res"
proof (induction p)
  case (Do c k)
  then obtain h res where "path (k undefined) h res" by blast
  then show ?case by (blast intro: path_Do)
qed (blast intro: path.intros)+

lemma after_completes: "after p h = Some q \<Longrightarrow> \<exists>h' res. path p (h @ h') res"
  using after_path path_exists by blast

end
