(* ===== verification/Services.thy ===== *)
theory Services
  imports Effects Models
begin

text \<open>
  What the settlement service talks to, and what it says: the Redis commands of
  \<^verbatim>\<open>services/settlement/dedupe.py\<close>, one-statement transactions on the two tables of
  \<^verbatim>\<open>services/settlement/db.py\<close>, the clock and the log.  Redis is a parameter with its
  documented behaviour as a predicate; the tables follow the constraints the program declares.
\<close>

section \<open>Rows\<close>

record settlement_row =
  s_idempotency_key :: string
  s_packet_id :: uuid
  s_sender_id :: string
  s_payer_id :: string
  s_payee_id :: string
  s_amount_minor :: int
  s_currency :: string
  s_packet_created_at :: instant
  s_hop_count :: int

record stored_settlement = settlement_row +
  s_id :: int
  s_settled_at :: instant

record rejection_row =
  r_idempotency_key :: "string option"
  r_packet_id :: "uuid option"
  r_reason :: string
  r_detail :: string
  r_rejected_at :: instant

record tables =
  settlements :: "stored_settlement list"
  rejected_packets :: "rejection_row list"
  next_id :: int

section \<open>Commands and replies\<close>

text \<open>A Redis value comes back as bytes, or as text if the client decodes.\<close>

datatype redis_value = RBytes bytes | RText string

datatype cmd =
    RedisSet string bytes bool int
  | RedisGet string
  | RedisDelete string
  | RedisPing
  | InsertSettlement settlement_row
  | InsertRejection rejection_row
  | ClockNow
  | Log string string "(string \<times> string) list"

datatype reply =
    Done
  | Truth bool
  | Value "redis_value option"
  | RowId int
  | Time instant
  | Failed exn

type_synonym 'a task = "(cmd, reply, 'a) prog"

definition call :: "cmd \<Rightarrow> (reply \<Rightarrow> 'a task) \<Rightarrow> 'a task" where
  "call c f = Do c (\<lambda>r. case r of Failed e \<Rightarrow> Raise e | _ \<Rightarrow> f r)"

text \<open>A structlog call: level, event name and fields.\<close>

definition log_event :: "string \<Rightarrow> string \<Rightarrow> (string \<times> string) list \<Rightarrow> unit task" where
  "log_event level name ev = Do (Log level name ev) (\<lambda>_. Ret ())"

definition clock :: "instant task" where
  "clock = call ClockNow (\<lambda>r. case r of Time t \<Rightarrow> Ret t | _ \<Rightarrow> Raise (OtherError ''no time''))"

section \<open>The tables\<close>

text \<open>
  \<^verbatim>\<open>String(n)\<close> columns hold at most \<open>n\<close> code points and no NUL; the other
  checks are the column types and the constraints of \<^verbatim>\<open>__table_args__\<close>.
\<close>

definition fits :: "nat \<Rightarrow> string \<Rightarrow> bool" where
  "fits n s \<longleftrightarrow> py_len s \<le> n \<and> CHR 0x00 \<notin> set s"

definition settlement_storable :: "settlement_row \<Rightarrow> bool" where
  "settlement_storable r \<longleftrightarrow>
     fits 80 (s_idempotency_key r) \<and> fits 64 (s_sender_id r) \<and> fits 64 (s_payer_id r)
     \<and> fits 64 (s_payee_id r) \<and> fits 3 (s_currency r)
     \<and> - (2 ^ 63) \<le> s_amount_minor r \<and> s_amount_minor r < 2 ^ 63
     \<and> - (2 ^ 31) \<le> s_hop_count r \<and> s_hop_count r < 2 ^ 31"

definition settlement_checks :: "settlement_row \<Rightarrow> bool" where
  "settlement_checks r \<longleftrightarrow> 0 < s_amount_minor r \<and> 0 \<le> s_hop_count r"

definition settlement_conflicts :: "settlement_row \<Rightarrow> tables \<Rightarrow> bool" where
  "settlement_conflicts r t \<longleftrightarrow>
     (\<exists>s \<in> set (settlements t). s_idempotency_key s = s_idempotency_key r \<or> s_packet_id s = s_packet_id r)"

text \<open>The sequence behind \<^verbatim>\<open>id\<close> advances even when the insert fails.\<close>

definition insert_settlement :: "settlement_row \<Rightarrow> instant \<Rightarrow> tables \<Rightarrow> (exn + int) \<times> tables" where
  "insert_settlement r now t =
     (let t' = t \<lparr> next_id := next_id t + 1 \<rparr> in
      if \<not> settlement_storable r then (Inl (DatabaseError ''value out of range for its column''), t)
      else if \<not> settlement_checks r \<or> settlement_conflicts r t then (Inl IntegrityError, t')
      else (Inr (next_id t),
            t' \<lparr> settlements := settlements t @
                  [settlement_row.extend r \<lparr> s_id = next_id t, s_settled_at = now \<rparr>] \<rparr>))"

definition rejection_storable :: "rejection_row \<Rightarrow> bool" where
  "rejection_storable r \<longleftrightarrow>
     (case r_idempotency_key r of None \<Rightarrow> True | Some k \<Rightarrow> fits 80 k)
     \<and> fits 32 (r_reason r) \<and> fits 256 (r_detail r)"

definition insert_rejection :: "rejection_row \<Rightarrow> tables \<Rightarrow> (exn + unit) \<times> tables" where
  "insert_rejection r t =
     (if rejection_storable r then (Inr (), t \<lparr> rejected_packets := rejected_packets t @ [r] \<rparr>)
      else (Inl (DatabaseError ''value out of range for its column''), t))"

definition settlement_exists :: "tables \<Rightarrow> string \<Rightarrow> bool" where
  "settlement_exists t k \<longleftrightarrow> list_ex (\<lambda>s. s_idempotency_key s = k) (settlements t)"

definition get_settlement :: "tables \<Rightarrow> string \<Rightarrow> stored_settlement option" where
  "get_settlement t k = find (\<lambda>s. s_idempotency_key s = k) (settlements t)"

definition count_settlements :: "tables \<Rightarrow> string option \<Rightarrow> nat" where
  "count_settlements t k =
     (case k of
        None \<Rightarrow> length (settlements t)
      | Some key \<Rightarrow> length (filter (\<lambda>s. s_idempotency_key s = key) (settlements t)))"

definition count_rejections :: "tables \<Rightarrow> string option \<Rightarrow> nat" where
  "count_rejections t reason =
     (case reason of
        None \<Rightarrow> length (rejected_packets t)
      | Some r \<Rightarrow> length (filter (\<lambda>p. r_reason p = r) (rejected_packets t)))"

text \<open>\<^verbatim>\<open>record_rejection\<close>: the row the session adds.\<close>

definition rejection_record :: "string \<Rightarrow> string \<Rightarrow> string option \<Rightarrow> uuid option \<Rightarrow> instant \<Rightarrow> rejection_row" where
  "rejection_record reason detail key packet_id now =
     \<lparr> r_idempotency_key = key, r_packet_id = packet_id, r_reason = reason,
       r_detail = py_take 256 detail, r_rejected_at = now \<rparr>"

section \<open>Redis\<close>

text \<open>\<^verbatim>\<open>SET key value [NX] EX ttl\<close>, \<^verbatim>\<open>GET\<close> and \<^verbatim>\<open>DEL\<close> at a time.\<close>

record 'r redis =
  rd_set :: "'r \<Rightarrow> instant \<Rightarrow> string \<Rightarrow> bytes \<Rightarrow> bool \<Rightarrow> int \<Rightarrow> bool \<times> 'r"
  rd_get :: "'r \<Rightarrow> instant \<Rightarrow> string \<Rightarrow> bytes option"
  rd_delete :: "'r \<Rightarrow> instant \<Rightarrow> string \<Rightarrow> 'r"

text \<open>
  The documented behaviour: \<^verbatim>\<open>NX\<close> sets only an absent key and says whether it did;
  a key set with \<^verbatim>\<open>EX\<close> is present for that long; other keys are untouched.
\<close>

definition redis_laws :: "'r redis \<Rightarrow> bool" where
  "redis_laws R \<longleftrightarrow>
     (\<forall>r t k v nx ex. 0 < ex \<longrightarrow>
        (fst (rd_set R r t k v nx ex) \<longleftrightarrow> \<not> (nx \<and> rd_get R r t k \<noteq> None))
        \<and> (\<forall>t' k'. t \<le> t' \<longrightarrow>
             rd_get R (snd (rd_set R r t k v nx ex)) t' k' =
               (if k' = k \<and> \<not> (nx \<and> rd_get R r t k \<noteq> None)
                then (if t' < t + ex * us_per_second then Some v else None)
                else rd_get R r t' k')))
     \<and> (\<forall>r t k t' k'. t \<le> t' \<longrightarrow>
          rd_get R (rd_delete R r t k) t' k' = (if k' = k then None else rd_get R r t' k'))
     \<and> (\<forall>r t t' k. t \<le> t' \<longrightarrow> rd_get R r t k = None \<longrightarrow> rd_get R r t' k = None)"

section \<open>The world and its steps\<close>

record 'r world =
  w_redis :: 'r
  w_tables :: tables
  w_now :: instant
  w_log :: "(string \<times> string \<times> (string \<times> string) list) list"

fun perform :: "'r redis \<Rightarrow> cmd \<Rightarrow> 'r world \<Rightarrow> reply \<times> 'r world" where
  "perform R (RedisSet k v nx ex) w =
     (case rd_set R (w_redis w) (w_now w) k v nx ex of (b, r) \<Rightarrow> (Truth b, w \<lparr> w_redis := r \<rparr>))"
| "perform R (RedisGet k) w = (Value (map_option RBytes (rd_get R (w_redis w) (w_now w) k)), w)"
| "perform R (RedisDelete k) w = (Done, w \<lparr> w_redis := rd_delete R (w_redis w) (w_now w) k \<rparr>)"
| "perform R RedisPing w = (Truth True, w)"
| "perform R (InsertSettlement row) w =
     (case insert_settlement row (w_now w) (w_tables w) of
        (Inl e, t) \<Rightarrow> (Failed e, w \<lparr> w_tables := t \<rparr>)
      | (Inr n, t) \<Rightarrow> (RowId n, w \<lparr> w_tables := t \<rparr>))"
| "perform R (InsertRejection row) w =
     (case insert_rejection row (w_tables w) of
        (Inl e, t) \<Rightarrow> (Failed e, w \<lparr> w_tables := t \<rparr>)
      | (Inr _, t) \<Rightarrow> (Done, w \<lparr> w_tables := t \<rparr>))"
| "perform R ClockNow w = (Time (w_now w), w)"
| "perform R (Log level name ev) w = (Done, w \<lparr> w_log := w_log w @ [(level, name, ev)] \<rparr>)"

end
