(* ===== verification/Tables.thy ===== *)
theory Tables
  imports Services
begin

text \<open>
  The durable guarantee of \<^verbatim>\<open>services/settlement/db.py\<close>: the locale
  \<open>unique_rows\<close> is the contract of a table whose inserts refuse a key that is there, and
  is interpreted on the settlement table for both of its unique constraints.
\<close>

locale unique_rows =
  fixes rows :: "'t \<Rightarrow> 'row list"
    and key :: "'row \<Rightarrow> 'k"
    and ins :: "'new \<Rightarrow> 't \<Rightarrow> (exn + int) \<times> 't"
  assumes rows_grow: "snd (ins n t) = t' \<Longrightarrow> rows t' = rows t \<or> (\<exists>r. rows t' = rows t @ [r] \<and> key r \<notin> key ` set (rows t))"
    and rows_refused: "fst (ins n t) = Inl e \<Longrightarrow> rows (snd (ins n t)) = rows t"
begin

definition unique :: "'t \<Rightarrow> bool" where
  "unique t \<longleftrightarrow> distinct (map key (rows t))"

lemma unique_insert: "unique t \<Longrightarrow> unique (snd (ins n t))"
  using rows_grow [of n t "snd (ins n t)"] by (auto simp: unique_def)

lemma rows_kept: "set (rows t) \<subseteq> set (rows (snd (ins n t)))"
  using rows_grow [of n t "snd (ins n t)"] by auto

lemma one_row: "unique t \<Longrightarrow> length (filter (\<lambda>r. key r = k) (rows t)) \<le> 1"
proof -
  assume "unique t"
  then have "distinct (map key (filter (\<lambda>r. key r = k) (rows t)))"
    unfolding unique_def by (rule distinct_map_filter)
  moreover have "set (map key (filter (\<lambda>r. key r = k) (rows t))) \<subseteq> {k}" by auto
  ultimately show ?thesis
    by (metis card_mono distinct_card finite.emptyI finite_insert is_singletonI is_singleton_altdef length_map)
qed

lemma same_row: "unique t \<Longrightarrow> r \<in> set (rows t) \<Longrightarrow> r' \<in> set (rows t) \<Longrightarrow> key r = key r' \<Longrightarrow> r = r'"
  unfolding unique_def distinct_map by (meson inj_onD)

end

section \<open>The settlement table\<close>

lemma extend_row [simp]:
  "s_idempotency_key (settlement_row.extend r e) = s_idempotency_key r"
  "s_packet_id (settlement_row.extend r e) = s_packet_id r"
  "s_sender_id (settlement_row.extend r e) = s_sender_id r"
  "s_payer_id (settlement_row.extend r e) = s_payer_id r"
  "s_payee_id (settlement_row.extend r e) = s_payee_id r"
  "s_amount_minor (settlement_row.extend r e) = s_amount_minor r"
  "s_currency (settlement_row.extend r e) = s_currency r"
  "s_packet_created_at (settlement_row.extend r e) = s_packet_created_at r"
  "s_hop_count (settlement_row.extend r e) = s_hop_count r"
  "settlement_row.truncate (settlement_row.extend r e) = r"
  by (simp_all add: settlement_row.defs)

lemma extend_stored [simp]:
  "s_id (settlement_row.extend r \<lparr> s_id = n, s_settled_at = t \<rparr>) = n"
  "s_settled_at (settlement_row.extend r \<lparr> s_id = n, s_settled_at = t \<rparr>) = t"
  by (simp_all add: settlement_row.defs)

interpretation by_key: unique_rows settlements s_idempotency_key "\<lambda>r. insert_settlement r now" for now
  by unfold_locales (auto simp: insert_settlement_def settlement_conflicts_def Let_def)

interpretation by_packet_id: unique_rows settlements s_packet_id "\<lambda>r. insert_settlement r now" for now
  by unfold_locales (auto simp: insert_settlement_def settlement_conflicts_def Let_def)

text \<open>The invariant of the tables: both unique constraints, the checks, and fresh ids.\<close>

definition tables_ok :: "tables \<Rightarrow> bool" where
  "tables_ok t \<longleftrightarrow>
     distinct (map s_idempotency_key (settlements t)) \<and> distinct (map s_packet_id (settlements t))
     \<and> distinct (map s_id (settlements t))
     \<and> list_all (\<lambda>s. 0 < s_amount_minor s \<and> 0 \<le> s_hop_count s \<and> s_id s < next_id t) (settlements t)"

definition empty_tables :: tables where
  "empty_tables = \<lparr> settlements = [], rejected_packets = [], next_id = 1 \<rparr>"

lemma empty_tables_ok: "tables_ok empty_tables"
  by (simp add: tables_ok_def empty_tables_def)

lemma insert_settlement_ok:
  assumes "tables_ok t"
  shows "tables_ok (snd (insert_settlement r now t))"
proof -
  have "distinct (map s_idempotency_key (settlements (snd (insert_settlement r now t))))"
    using assms by_key.unique_insert [unfolded by_key.unique_def] by (simp add: tables_ok_def)
  moreover have "distinct (map s_packet_id (settlements (snd (insert_settlement r now t))))"
    using assms by_packet_id.unique_insert [unfolded by_packet_id.unique_def] by (simp add: tables_ok_def)
  ultimately show ?thesis
    using assms by (fastforce simp: tables_ok_def insert_settlement_def Let_def settlement_checks_def list_all_iff)
qed

lemma insert_rejection_tables:
  "settlements (snd (insert_rejection r t)) = settlements t"
  "next_id (snd (insert_rejection r t)) = next_id t"
  by (simp_all add: insert_rejection_def)

lemma perform_tables_ok: "tables_ok (w_tables w) \<Longrightarrow> tables_ok (w_tables (snd (perform R c w)))"
proof (cases c)
  case (InsertSettlement row)
  assume "tables_ok (w_tables w)"
  then show ?thesis
    using insert_settlement_ok [of "w_tables w" row "w_now w"] InsertSettlement
    by (auto split: prod.split sum.split)
next
  case (InsertRejection row)
  assume "tables_ok (w_tables w)"
  then show ?thesis
    using insert_rejection_tables [of row "w_tables w"] InsertRejection
    by (auto simp: tables_ok_def split: prod.split sum.split)
qed (auto split: prod.split)

lemma insert_settlement_Inr:
  "insert_settlement r now t = (Inr n, t') \<longleftrightarrow>
     settlement_storable r \<and> settlement_checks r \<and> \<not> settlement_conflicts r t \<and> n = next_id t
     \<and> t' = t \<lparr> next_id := next_id t + 1,
           settlements := settlements t @ [settlement_row.extend r \<lparr> s_id = next_id t, s_settled_at = now \<rparr>] \<rparr>"
  by (auto simp: insert_settlement_def Let_def)

lemma insert_settlement_Inl_rows: "insert_settlement r now t = (Inl e, t') \<Longrightarrow> settlements t' = settlements t"
  by (auto simp: insert_settlement_def Let_def split: if_splits)

lemma perform_settlements:
  "settlements (w_tables (snd (perform R c w))) = settlements (w_tables w)
   \<or> (\<exists>row n. c = InsertSettlement row \<and> fst (perform R c w) = RowId n
        \<and> settlement_checks row \<and> \<not> settlement_conflicts row (w_tables w) \<and> n = next_id (w_tables w)
        \<and> settlements (w_tables (snd (perform R c w))) = settlements (w_tables w)
             @ [settlement_row.extend row \<lparr> s_id = n, s_settled_at = w_now w \<rparr>])"
proof (cases c)
  case (InsertSettlement row)
  obtain res t where ins: "insert_settlement row (w_now w) (w_tables w) = (res, t)" by fastforce
  show ?thesis
  proof (cases res)
    case (Inl e)
    with ins have "settlements t = settlements (w_tables w)" by (simp add: insert_settlement_Inl_rows)
    then show ?thesis using InsertSettlement ins Inl by simp
  next
    case (Inr n)
    with ins show ?thesis
      using InsertSettlement ins [unfolded Inr insert_settlement_Inr] by simp
  qed
next
  case (InsertRejection row)
  then show ?thesis
    using insert_rejection_tables(1) [of row "w_tables w"] by (auto split: prod.split sum.split)
qed (auto split: prod.split)

subsection \<open>The queries\<close>

lemma settlement_exists_iff:
  "settlement_exists t k \<longleftrightarrow> get_settlement t k \<noteq> None"
  by (auto simp: settlement_exists_def get_settlement_def list_ex_iff find_None_iff)

lemma get_settlement_unique:
  assumes "tables_ok t" "s \<in> set (settlements t)"
  shows "get_settlement t (s_idempotency_key s) = Some s"
proof -
  from assms(2) have "get_settlement t (s_idempotency_key s) \<noteq> None"
    by (auto simp: get_settlement_def find_None_iff)
  then obtain s' where s': "get_settlement t (s_idempotency_key s) = Some s'" by blast
  then have "s' \<in> set (settlements t)" "s_idempotency_key s' = s_idempotency_key s"
    by (auto simp: get_settlement_def find_Some_iff)
  moreover have "distinct (map s_idempotency_key (settlements t))" using assms(1) by (simp add: tables_ok_def)
  ultimately have "s' = s"
    using by_key.same_row [unfolded by_key.unique_def] assms(2) by metis
  with s' show ?thesis by simp
qed

lemma count_settlements_le_1:
  "tables_ok t \<Longrightarrow> count_settlements t (Some k) \<le> 1"
  using by_key.one_row [unfolded by_key.unique_def] by (simp add: tables_ok_def count_settlements_def)

lemma count_settlements_exists:
  "tables_ok t \<Longrightarrow> count_settlements t (Some k) = (if settlement_exists t k then 1 else 0)"
  using count_settlements_le_1 [of t k]
  by (auto simp: count_settlements_def settlement_exists_def list_ex_iff filter_empty_conv le_Suc_eq)

end
