(* ===== verification/Dedupe.thy ===== *)
theory Dedupe
  imports Tables
begin

text \<open>
  \<^verbatim>\<open>services/settlement/dedupe.py\<close>: the atomic claim and its two markers.  The
  locale \<open>claim_store\<close> is what the processor relies on; it is proved for the module's
  coroutines over any Redis with the documented behaviour (\<open>redis_service\<close>), and
  interpreted on a store with expiry times.
\<close>

definition claimed_marker :: string where "claimed_marker = ''claimed''"

definition settled_marker :: string where "settled_marker = ''settled''"

datatype claim_outcome = CLAIMED | IN_FLIGHT | ALREADY_SETTLED

fun claim_outcome_value :: "claim_outcome \<Rightarrow> string" where
  "claim_outcome_value CLAIMED = ''claimed''"
| "claim_outcome_value IN_FLIGHT = ''in_flight''"
| "claim_outcome_value ALREADY_SETTLED = ''already_settled''"

record dedupe_store =
  claim_ttl :: int
  settled_ttl :: int

text \<open>\<^verbatim>\<open>a or b\<close> on an optional integer: \<^verbatim>\<open>None\<close> and 0 take the default.\<close>

definition or_default :: "int option \<Rightarrow> int \<Rightarrow> int" where
  "or_default a b = (case a of None \<Rightarrow> b | Some n \<Rightarrow> if n = 0 then b else n)"

definition new_dedupe_store :: "int option \<Rightarrow> int option \<Rightarrow> settings \<Rightarrow> dedupe_store" where
  "new_dedupe_store claim_ttl_seconds settled_ttl_seconds s =
     \<lparr> claim_ttl = or_default claim_ttl_seconds (dedupe_claim_ttl_seconds s),
       settled_ttl = or_default settled_ttl_seconds (dedupe_ttl_seconds s) \<rparr>"

text \<open>\<^verbatim>\<open>bytes.decode("utf-8", errors="replace")\<close>: U+FFFD for each maximal bad part.\<close>

definition replacement :: string where
  "replacement = map char_of [239, 191, 189 :: nat]"

definition second_ok :: "nat \<Rightarrow> nat \<Rightarrow> bool" where
  "second_ok a b =
     (if a = 224 then 160 \<le> b \<and> b < 192
      else if a = 237 then 128 \<le> b \<and> b < 160
      else if a = 240 then 144 \<le> b \<and> b < 192
      else if a = 244 then 128 \<le> b \<and> b < 144
      else 128 \<le> b \<and> b < 192)"

definition tail_ok :: "nat \<Rightarrow> bool" where
  "tail_ok b \<longleftrightarrow> 128 \<le> b \<and> b < 192"

fun good_prefix :: "nat list \<Rightarrow> nat" where
  "good_prefix (a # b # c # d # r) =
     (if a < 194 \<or> 244 < a \<or> \<not> second_ok a b then 1
      else if a < 224 then 2
      else if \<not> tail_ok c then 2
      else if a < 240 then 3
      else if \<not> tail_ok d then 3 else 4)"
| "good_prefix [a, b, c] =
     (if a < 194 \<or> 244 < a \<or> \<not> second_ok a b then 1
      else if a < 224 then 2 else if \<not> tail_ok c then 2 else 3)"
| "good_prefix [a, b] = (if a < 194 \<or> 244 < a \<or> \<not> second_ok a b then 1 else 2)"
| "good_prefix r = 1"

definition sequence_length :: "nat \<Rightarrow> nat" where
  "sequence_length a = (if a < 194 then 1 else if a < 224 then 2 else if a < 240 then 3 else 4)"

fun decode_replace :: "nat \<Rightarrow> nat list \<Rightarrow> string" where
  "decode_replace 0 bs = []"
| "decode_replace (Suc n) [] = []"
| "decode_replace (Suc n) (a # r) =
     (if a < 128 then char_of a # decode_replace n r
      else let k = good_prefix (a # r) in
        (if 194 \<le> a \<and> a \<le> 244 \<and> k = sequence_length a \<and> 2 \<le> k
         then map char_of (take k (a # r)) else replacement)
        @ decode_replace n (drop k (a # r)))"

definition as_text :: "redis_value option \<Rightarrow> string option" where
  "as_text value =
     (case value of
        None \<Rightarrow> None
      | Some (RBytes b) \<Rightarrow> Some (decode_replace (length b) (map unat b))
      | Some (RText s) \<Rightarrow> Some s)"

section \<open>The operations\<close>

text \<open>The loser reads the marker: finished, or in progress.\<close>

definition lost_outcome :: "reply \<Rightarrow> claim_outcome" where
  "lost_outcome current =
     (case current of
        Value v \<Rightarrow> if as_text v = Some settled_marker then ALREADY_SETTLED else IN_FLIGHT
      | _ \<Rightarrow> IN_FLIGHT)"

lemma lost_outcome_lost [simp]: "lost_outcome r \<noteq> CLAIMED" "CLAIMED \<noteq> lost_outcome r"
  by (auto simp: lost_outcome_def split: reply.splits)

lemma lost_outcome_Value [simp]:
  "lost_outcome (Value v) = (if as_text v = Some settled_marker then ALREADY_SETTLED else IN_FLIGHT)"
  by (simp add: lost_outcome_def)

definition claim :: "dedupe_store \<Rightarrow> string \<Rightarrow> claim_outcome task" where
  "claim d key =
     call (RedisSet key (utf8_encode claimed_marker) True (claim_ttl d)) (\<lambda>won.
       if won = Truth True then Ret CLAIMED
       else call (RedisGet key) (\<lambda>current. Ret (lost_outcome current)))"

definition mark_settled :: "dedupe_store \<Rightarrow> string \<Rightarrow> unit task" where
  "mark_settled d key =
     call (RedisSet key (utf8_encode settled_marker) False (settled_ttl d)) (\<lambda>_. Ret ())"

definition release_claim :: "dedupe_store \<Rightarrow> string \<Rightarrow> unit task" where
  "release_claim d key = call (RedisDelete key) (\<lambda>_. Ret ())"

definition state :: "dedupe_store \<Rightarrow> string \<Rightarrow> string option task" where
  "state d key =
     call (RedisGet key) (\<lambda>current. case current of Value v \<Rightarrow> Ret (as_text v) | _ \<Rightarrow> Ret None)"

definition ping :: "bool task" where
  "ping = tryP (call RedisPing (\<lambda>r. Ret (r = Truth True))) (\<lambda>e. Some (Ret False))"

section \<open>The two markers read back\<close>

lemma decode_replace_ascii:
  "list_all (\<lambda>b. b < 128) bs \<Longrightarrow> length bs \<le> n \<Longrightarrow> decode_replace n bs = map char_of bs"
proof (induction bs arbitrary: n)
  case Nil
  then show ?case by (cases n) simp_all
next
  case (Cons b bs)
  then show ?case by (cases n) simp_all
qed

lemma as_text_ascii:
  assumes "list_all is_ascii s"
  shows "as_text (Some (RBytes (utf8_encode s))) = Some s"
proof -
  have codes: "map unat (utf8_encode s) = map of_char s"
    by (simp add: utf8_encode_def byte_of_char_def comp_def unat_of_nat)
  have "list_all (\<lambda>b. b < (128 :: nat)) (map of_char s)"
    using assms by (simp add: list_all_iff is_ascii_def)
  then show ?thesis unfolding as_text_def by (simp add: codes decode_replace_ascii comp_def)
qed

lemma markers_text [simp]:
  "as_text (Some (RBytes (utf8_encode claimed_marker))) = Some claimed_marker"
  "as_text (Some (RBytes (utf8_encode settled_marker))) = Some settled_marker"
  by (rule as_text_ascii; simp add: claimed_marker_def settled_marker_def is_ascii_def)+

lemma markers_differ [simp]: "claimed_marker \<noteq> settled_marker" "settled_marker \<noteq> claimed_marker"
  by (simp_all add: claimed_marker_def settled_marker_def)

lemma as_text_None [simp]: "as_text None = None"
  by (simp add: as_text_def)

section \<open>The contract of the store\<close>

locale claim_store =
  fixes held :: "'r \<Rightarrow> instant \<Rightarrow> string \<Rightarrow> string option"
    and claim_at :: "'r \<Rightarrow> instant \<Rightarrow> string \<Rightarrow> claim_outcome \<times> 'r"
    and settle_at :: "'r \<Rightarrow> instant \<Rightarrow> string \<Rightarrow> 'r"
    and release_at :: "'r \<Rightarrow> instant \<Rightarrow> string \<Rightarrow> 'r"
    and short :: int and long :: int
  assumes claim_result: "fst (claim_at r t k) =
      (case held r t k of None \<Rightarrow> CLAIMED
       | Some m \<Rightarrow> if m = settled_marker then ALREADY_SETTLED else IN_FLIGHT)"
    and claim_effect: "t \<le> t' \<Longrightarrow> held (snd (claim_at r t k)) t' k' =
      (if k' = k \<and> held r t k = None
       then (if t' < t + short then Some claimed_marker else None) else held r t' k')"
    and settle_effect: "t \<le> t' \<Longrightarrow> held (settle_at r t k) t' k' =
      (if k' = k then (if t' < t + long then Some settled_marker else None) else held r t' k')"
    and release_effect: "t \<le> t' \<Longrightarrow> held (release_at r t k) t' k' = (if k' = k then None else held r t' k')"
begin

text \<open>Claims on one key, one after another at the given times.\<close>

fun claims :: "string \<Rightarrow> instant list \<Rightarrow> 'r \<Rightarrow> claim_outcome list" where
  "claims k [] r = []"
| "claims k (t # ts) r = fst (claim_at r t k) # claims k ts (snd (claim_at r t k))"

lemma claims_while_held:
  assumes "sorted ts" "\<And>t. t \<in> set ts \<Longrightarrow> held r t k = Some m"
  shows "claims k ts r = replicate (length ts) (if m = settled_marker then ALREADY_SETTLED else IN_FLIGHT)"
  using assms
proof (induction ts arbitrary: r)
  case (Cons t ts)
  have same: "held (snd (claim_at r t k)) t' k = Some m" if "t' \<in> set ts" for t'
    using Cons.prems that by (auto simp: claim_effect)
  show ?case
    using Cons.IH [OF _ same] Cons.prems by (simp add: claim_result)
qed simp

text \<open>However many consumers race inside the claim's lifetime, the first wins alone.\<close>

lemma one_winner:
  assumes "held r t k = None" "sorted (t # ts)" "\<And>t'. t' \<in> set ts \<Longrightarrow> t' < t + short"
  shows "claims k (t # ts) r = CLAIMED # replicate (length ts) IN_FLIGHT"
proof -
  have "held (snd (claim_at r t k)) t' k = Some claimed_marker" if "t' \<in> set ts" for t'
    using assms that by (simp add: claim_effect)
  from claims_while_held [OF _ this] assms show ?thesis by (simp add: claim_result)
qed

lemma settled_is_remembered:
  assumes "sorted (t # ts)" "\<And>t'. t' \<in> set ts \<Longrightarrow> t' < t + long"
  shows "claims k ts (settle_at r t k) = replicate (length ts) ALREADY_SETTLED"
proof -
  have "held (settle_at r t k) t' k = Some settled_marker" if "t' \<in> set ts" for t'
    using assms that by (simp add: settle_effect)
  from claims_while_held [OF _ this] assms show ?thesis by simp
qed

text \<open>A claim that was released, or that ran out, can be won again.\<close>

lemma released_can_be_claimed: "t \<le> t' \<Longrightarrow> fst (claim_at (release_at r t k) t' k) = CLAIMED"
  by (simp add: claim_result release_effect)

lemma expired_can_be_claimed:
  "held r t k = None \<Longrightarrow> 0 \<le> short \<Longrightarrow> t + short \<le> t' \<Longrightarrow> fst (claim_at (snd (claim_at r t k)) t' k) = CLAIMED"
  by (simp add: claim_result claim_effect)

end

section \<open>The module implements the contract\<close>

definition seq_world :: "'r \<Rightarrow> instant \<Rightarrow> 'r world" where
  "seq_world r t = \<lparr> w_redis = r, w_tables = empty_tables, w_now = t, w_log = [] \<rparr>"

definition held_in :: "'r redis \<Rightarrow> 'r \<Rightarrow> instant \<Rightarrow> string \<Rightarrow> string option" where
  "held_in R r t k = as_text (map_option RBytes (rd_get R r t k))"

definition claim_in :: "'r redis \<Rightarrow> dedupe_store \<Rightarrow> 'r \<Rightarrow> instant \<Rightarrow> string \<Rightarrow> claim_outcome \<times> 'r" where
  "claim_in R d r t k =
     (case run (perform R) (claim d k) (seq_world r t) of
        (Inr out, w) \<Rightarrow> (out, w_redis w) | (Inl _, w) \<Rightarrow> (IN_FLIGHT, w_redis w))"

definition settle_in :: "'r redis \<Rightarrow> dedupe_store \<Rightarrow> 'r \<Rightarrow> instant \<Rightarrow> string \<Rightarrow> 'r" where
  "settle_in R d r t k = w_redis (snd (run (perform R) (mark_settled d k) (seq_world r t)))"

definition release_in :: "'r redis \<Rightarrow> dedupe_store \<Rightarrow> 'r \<Rightarrow> instant \<Rightarrow> string \<Rightarrow> 'r" where
  "release_in R d r t k = w_redis (snd (run (perform R) (release_claim d k) (seq_world r t)))"

lemma as_text_RBytes [simp]: "as_text (Some (RBytes b)) \<noteq> None"
  by (simp add: as_text_def)

lemma held_None: "held_in R r t k = None \<longleftrightarrow> rd_get R r t k = None"
  by (cases "rd_get R r t k") (simp_all add: held_in_def as_text_def)

text \<open>What a claim does to any world.\<close>

lemma run_claim:
  "run (perform R) (claim d k) w =
     (case rd_set R (w_redis w) (w_now w) k (utf8_encode claimed_marker) True (claim_ttl d) of
        (True, r) \<Rightarrow> (Inr CLAIMED, w \<lparr> w_redis := r \<rparr>)
      | (False, r) \<Rightarrow>
          (Inr (if held_in R r (w_now w) k = Some settled_marker then ALREADY_SETTLED else IN_FLIGHT),
           w \<lparr> w_redis := r \<rparr>))"
  by (simp add: claim_def call_def held_in_def split: prod.split bool.split)

lemma run_mark_settled:
  "run (perform R) (mark_settled d k) w =
     (Inr (), w \<lparr> w_redis := snd (rd_set R (w_redis w) (w_now w) k (utf8_encode settled_marker) False (settled_ttl d)) \<rparr>)"
  by (simp add: mark_settled_def call_def split: prod.split)

lemma run_release_claim:
  "run (perform R) (release_claim d k) w = (Inr (), w \<lparr> w_redis := rd_delete R (w_redis w) (w_now w) k \<rparr>)"
  by (simp add: release_claim_def call_def)

locale redis_service =
  fixes R :: "'r redis" and d :: dedupe_store
  assumes laws: "redis_laws R"
    and ttls: "0 < claim_ttl d" "0 < settled_ttl d"
begin

lemma set_ok: "0 < ex \<Longrightarrow> fst (rd_set R r t k v nx ex) \<longleftrightarrow> \<not> (nx \<and> rd_get R r t k \<noteq> None)"
  using laws unfolding redis_laws_def by blast

lemma set_get: "0 < ex \<Longrightarrow> t \<le> t' \<Longrightarrow>
    rd_get R (snd (rd_set R r t k v nx ex)) t' k' =
      (if k' = k \<and> \<not> (nx \<and> rd_get R r t k \<noteq> None)
       then (if t' < t + ex * us_per_second then Some v else None) else rd_get R r t' k')"
  using laws unfolding redis_laws_def by blast

lemma delete_get: "t \<le> t' \<Longrightarrow> rd_get R (rd_delete R r t k) t' k' = (if k' = k then None else rd_get R r t' k')"
  using laws unfolding redis_laws_def by blast

lemma claim_in_simps:
  "claim_in R d r t k =
     (case rd_set R r t k (utf8_encode claimed_marker) True (claim_ttl d) of
        (b, r') \<Rightarrow> (if b then CLAIMED else if held_in R r' t k = Some settled_marker then ALREADY_SETTLED
                    else IN_FLIGHT, r'))"
  by (simp add: claim_in_def run_claim seq_world_def split: prod.split bool.split)

end

sublocale redis_service \<subseteq> claim_store "held_in R" "claim_in R d" "settle_in R d" "release_in R d"
    "claim_ttl d * us_per_second" "settled_ttl d * us_per_second"
proof
  show "fst (claim_in R d r t k) =
      (case held_in R r t k of None \<Rightarrow> CLAIMED
       | Some m \<Rightarrow> if m = settled_marker then ALREADY_SETTLED else IN_FLIGHT)" for r t k
  proof -
    obtain b r' where st: "rd_set R r t k (utf8_encode claimed_marker) True (claim_ttl d) = (b, r')" by fastforce
    have b: "b \<longleftrightarrow> rd_get R r t k = None" using set_ok [OF ttls(1), of r t k _ True] st by (metis fst_conv)
    have "held_in R r' t k = held_in R r t k" if "\<not> b"
      using set_get [OF ttls(1) order_refl, of r t k "utf8_encode claimed_marker" True k] st b that
      by (simp add: held_in_def)
    then show ?thesis using b held_None [of R r t k] by (auto simp: claim_in_simps st split: option.splits)
  qed
  show "held_in R (snd (claim_in R d r t k)) t' k' =
      (if k' = k \<and> held_in R r t k = None
       then (if t' < t + claim_ttl d * us_per_second then Some claimed_marker else None)
       else held_in R r t' k')" if "t \<le> t'" for t t' r k k'
    using set_get [OF ttls(1) that, of r k "utf8_encode claimed_marker" True k']
    by (auto simp: claim_in_simps held_None held_in_def split: prod.split)
  show "held_in R (settle_in R d r t k) t' k' =
      (if k' = k then (if t' < t + settled_ttl d * us_per_second then Some settled_marker else None)
       else held_in R r t' k')" if "t \<le> t'" for t t' r k k'
    using set_get [OF ttls(2) that, of r k "utf8_encode settled_marker" False k']
    by (auto simp: settle_in_def run_mark_settled seq_world_def held_in_def)
  show "held_in R (release_in R d r t k) t' k' = (if k' = k then None else held_in R r t' k')"
    if "t \<le> t'" for t t' r k k'
    using delete_get [OF that, of r k k']
    by (auto simp: release_in_def run_release_claim seq_world_def held_in_def)
qed

text \<open>Consumers claiming one key one after another, at the given times.\<close>

fun claim_sequence :: "'r redis \<Rightarrow> dedupe_store \<Rightarrow> string \<Rightarrow> instant list \<Rightarrow> 'r \<Rightarrow> claim_outcome list" where
  "claim_sequence R d k [] r = []"
| "claim_sequence R d k (t # ts) r = fst (claim_in R d r t k) # claim_sequence R d k ts (snd (claim_in R d r t k))"

context redis_service begin

lemma claim_sequence_claims: "claim_sequence R d k ts r = claims k ts r"
  by (induction ts arbitrary: r) simp_all

lemmas sequence_one_winner = one_winner [folded claim_sequence_claims, unfolded held_None]
lemmas sequence_remembered = settled_is_remembered [folded claim_sequence_claims]

end

section \<open>A store with expiry times\<close>

type_synonym expiring = "string \<Rightarrow> (bytes \<times> instant) option"

definition expiring_get :: "expiring \<Rightarrow> instant \<Rightarrow> string \<Rightarrow> bytes option" where
  "expiring_get r t k = (case r k of None \<Rightarrow> None | Some (v, until) \<Rightarrow> if t < until then Some v else None)"

definition expiring_redis :: "expiring redis" where
  "expiring_redis =
     \<lparr> rd_set = (\<lambda>r t k v nx ex.
         if nx \<and> expiring_get r t k \<noteq> None then (False, r) else (True, r (k \<mapsto> (v, t + ex * us_per_second)))),
       rd_get = expiring_get,
       rd_delete = (\<lambda>r t k. r (k := None)) \<rparr>"

lemma expiring_redis_laws: "redis_laws expiring_redis"
  by (auto simp: redis_laws_def expiring_redis_def expiring_get_def split: option.splits if_splits)

definition default_dedupe :: dedupe_store where
  "default_dedupe = new_dedupe_store None None default_settings"

interpretation expiring: redis_service expiring_redis default_dedupe
  by unfold_locales
    (simp_all add: expiring_redis_laws default_dedupe_def new_dedupe_store_def or_default_def default_settings_def)

end
