(* ===== verification/Logging.thy ===== *)
theory Logging
  imports Sha256
begin

text \<open>
  \<^verbatim>\<open>shared/logging.py\<close>: the structlog processor that redacts secret-looking keys
  and the truncated SHA-256 fingerprint.  An event is the association list of its
  \<^verbatim>\<open>dict\<close>, whose keys are the (ASCII) keyword names of the log calls.
\<close>

definition redact_key_markers :: "string list" where
  "redact_key_markers =
     [''password'', ''passwd'', ''secret'', ''token'', ''credential'', ''private_key'', ''signing_key'',
      ''content_key'', ''encrypted_key'', ''pem'', ''authorization'', ''api_key'']"

definition redacted :: string where "redacted = ''[redacted]''"

definition lower_char :: "char \<Rightarrow> char" where
  "lower_char c =
     (let n = (of_char c :: nat) in if 65 \<le> n \<and> n \<le> 90 then char_of (n + 32) else c)"

fun contains :: "string \<Rightarrow> string \<Rightarrow> bool" where
  "contains m [] = (m = [])"
| "contains m (c # cs) = (take (length m) (c # cs) = m \<or> contains m cs)"

definition secret_key :: "string \<Rightarrow> bool" where
  "secret_key key =
     (let lowered = map lower_char key in list_ex (\<lambda>marker. contains marker lowered) redact_key_markers)"

type_synonym event = "(string \<times> string) list"

definition redact_secrets :: "event \<Rightarrow> event" where
  "redact_secrets ev = map (\<lambda>(k, v). (k, if secret_key k then redacted else v)) ev"

definition safe_fingerprint :: "bytes \<Rightarrow> nat \<Rightarrow> string" where
  "safe_fingerprint raw n = take n (hexdigest (sha256 raw))"

lemma contains_prefix: "contains m (m @ ys)"
proof (cases "m @ ys")
  case (Cons c cs)
  moreover have "take (length m) (m @ ys) = m" by simp
  ultimately show ?thesis by (metis contains.simps(2))
qed simp

lemma contains_append: "contains m (xs @ m @ ys)"
  by (induction xs) (simp_all add: contains_prefix)

lemma map_of_redact:
  "map_of (redact_secrets ev) k = (if secret_key k then map_option (\<lambda>_. redacted) (map_of ev k) else map_of ev k)"
  by (induction ev) (auto simp: redact_secrets_def)

lemma redact_idem: "redact_secrets (redact_secrets ev) = redact_secrets ev"
  by (auto simp: redact_secrets_def)

lemma length_safe_fingerprint: "length (safe_fingerprint raw n) = min n 64"
  by (simp add: safe_fingerprint_def length_sha256 min.commute)

end
