(* ===== verification/Processor.thy ===== *)
theory Processor
  imports Packet_Facts Dedupe Logging
begin

text \<open>
  \<^verbatim>\<open>services/settlement/processor.py\<close>: the settlement pipeline as a coroutine over
  the services, one \<^verbatim>\<open>await\<close> per command, with its outcomes, its metrics and the
  log lines it writes.  The theorems about it are in \<^verbatim>\<open>Pipeline\<close>.
\<close>

section \<open>Outcomes and metrics\<close>

record outcome =
  o_status :: packet_status
  o_detail :: string
  o_code :: "error_code option"
  o_idempotency_key :: "string option"
  o_packet_id :: "uuid option"
  o_settlement_id :: "int option"
  o_retryable :: bool

definition settled :: "outcome \<Rightarrow> bool" where
  "settled out \<longleftrightarrow> o_status out = SETTLED"

definition rejected_outcome :: "error_code \<Rightarrow> string \<Rightarrow> string option \<Rightarrow> uuid option \<Rightarrow> outcome" where
  "rejected_outcome code detail key packet_id =
     \<lparr> o_status = REJECTED, o_detail = detail, o_code = Some code, o_idempotency_key = key,
       o_packet_id = packet_id, o_settlement_id = None, o_retryable = False \<rparr>"

record metrics =
  m_settled :: int
  m_duplicates :: int
  m_invalid_signature :: int
  m_malformed :: int
  m_decryption_failed :: int
  m_expired :: int
  m_not_yet_valid :: int
  m_internal_errors :: int
  m_by_code :: "(string \<times> int) list"

definition empty_metrics :: metrics where
  "empty_metrics =
     \<lparr> m_settled = 0, m_duplicates = 0, m_invalid_signature = 0, m_malformed = 0,
       m_decryption_failed = 0, m_expired = 0, m_not_yet_valid = 0, m_internal_errors = 0, m_by_code = [] \<rparr>"

definition dict_get :: "(string \<times> int) list \<Rightarrow> string \<Rightarrow> int \<Rightarrow> int" where
  "dict_get d k def = (case map_of d k of None \<Rightarrow> def | Some v \<Rightarrow> v)"

definition record_outcome :: "metrics \<Rightarrow> outcome \<Rightarrow> metrics" where
  "record_outcome m out =
     (if settled out then m \<lparr> m_settled := m_settled m + 1 \<rparr>
      else case o_code out of
        None \<Rightarrow> m
      | Some code \<Rightarrow>
          (let v = error_code_value code;
               m' = m \<lparr> m_by_code := AList.update v (dict_get (m_by_code m) v 0 + 1) (m_by_code m) \<rparr>
           in case code of
                DUPLICATE_PACKET \<Rightarrow> m' \<lparr> m_duplicates := m_duplicates m + 1 \<rparr>
              | INVALID_SIGNATURE \<Rightarrow> m' \<lparr> m_invalid_signature := m_invalid_signature m + 1 \<rparr>
              | MALFORMED_PAYLOAD \<Rightarrow> m' \<lparr> m_malformed := m_malformed m + 1 \<rparr>
              | DECRYPTION_FAILED \<Rightarrow> m' \<lparr> m_decryption_failed := m_decryption_failed m + 1 \<rparr>
              | PACKET_EXPIRED \<Rightarrow> m' \<lparr> m_expired := m_expired m + 1 \<rparr>
              | PACKET_NOT_YET_VALID \<Rightarrow> m' \<lparr> m_not_yet_valid := m_not_yet_valid m + 1 \<rparr>
              | INTERNAL_ERROR \<Rightarrow> m' \<lparr> m_internal_errors := m_internal_errors m + 1 \<rparr>))"

definition rejected_total :: "metrics \<Rightarrow> int" where
  "rejected_total m = sum_list (map snd (m_by_code m))"

definition snapshot :: "metrics \<Rightarrow> (string \<times> int) list" where
  "snapshot m =
     [(''settled'', m_settled m), (''rejected'', rejected_total m), (''duplicates'', m_duplicates m),
      (''invalid_signature'', m_invalid_signature m), (''malformed'', m_malformed m),
      (''decryption_failed'', m_decryption_failed m), (''expired'', m_expired m),
      (''not_yet_valid'', m_not_yet_valid m), (''internal_errors'', m_internal_errors m)]"

section \<open>The processor\<close>

text \<open>
  \<open>pr_validator\<close>, \<open>pr_crypto\<close> and \<open>pr_json_depth\<close> are the libraries the process runs on.
\<close>

record processor =
  pr_validator :: pydantic
  pr_crypto :: crypto
  pr_json_depth :: nat
  pr_dedupe :: dedupe_store
  pr_sender_public_key :: bytes
  pr_settlement_private_key :: bytes
  pr_freshness_window :: int
  pr_clock_skew :: int

definition new_processor ::
  "pydantic \<Rightarrow> crypto \<Rightarrow> nat \<Rightarrow> settings \<Rightarrow> dedupe_store \<Rightarrow> bytes \<Rightarrow> bytes \<Rightarrow> int option \<Rightarrow> int option \<Rightarrow> processor" where
  "new_processor pd c depth s d public_key private_key window skew =
     \<lparr> pr_validator = pd, pr_crypto = c, pr_json_depth = depth, pr_dedupe = d,
       pr_sender_public_key = public_key, pr_settlement_private_key = private_key,
       pr_freshness_window = (case window of None \<Rightarrow> freshness_window_seconds s | Some n \<Rightarrow> n),
       pr_clock_skew = (case skew of None \<Rightarrow> clock_skew_tolerance_seconds s | Some n \<Rightarrow> n) \<rparr>"

fun join_dots :: "string list \<Rightarrow> string" where
  "join_dots [] = []"
| "join_dots [x] = x"
| "join_dots (x # y # ys) = x @ ''.'' @ join_dots (y # ys)"

definition summarize_validation_error :: "verr list \<Rightarrow> string" where
  "summarize_validation_error es =
     (case es of
        [] \<Rightarrow> ''packet failed schema validation''
      | e # _ \<Rightarrow>
          (let location = join_dots (loc e)
           in py_take 256 ((if location = [] then ''packet'' else location) @ '': '' @ msg e)))"

text \<open>\<^verbatim>\<open>str(exc)\<close>: the text of the program's own errors is known, the rest is the library's.\<close>

definition exn_text :: "pydantic \<Rightarrow> exn \<Rightarrow> string" where
  "exn_text pd e = (case e of ValueError m \<Rightarrow> m | _ \<Rightarrow> pd_exn_text pd e)"

definition persist_rejection :: "error_code \<Rightarrow> string \<Rightarrow> string option \<Rightarrow> uuid option \<Rightarrow> unit task" where
  "persist_rejection code detail key packet_id =
     tryP
       (bindP clock (\<lambda>now.
          call (InsertRejection (rejection_record (error_code_value code) detail key packet_id now)) (\<lambda>_. Ret ())))
       (\<lambda>e. Some (log_event ''warning'' ''settlement.rejection_not_persisted''
                    [(''reason'', error_code_value code)]))"

definition reject_before_claim :: "error_code \<Rightarrow> string \<Rightarrow> packet \<Rightarrow> outcome task" where
  "reject_before_claim code detail packet =
     (let key = idempotency_key packet in
      bindP (log_event ''warning'' ''settlement.packet_rejected''
               [(''reason'', error_code_value code), (''packet_id'', uuid_str (p_packet_id packet)),
                (''idempotency_key'', key), (''detail'', detail)]) (\<lambda>_.
      bindP (persist_rejection code detail (Some key) (Some (p_packet_id packet))) (\<lambda>_.
      Ret (rejected_outcome code detail (Some key) (Some (p_packet_id packet))))))"

definition reject_after_claim :: "processor \<Rightarrow> error_code \<Rightarrow> string \<Rightarrow> packet \<Rightarrow> string \<Rightarrow> unit task" where
  "reject_after_claim pr code detail packet key =
     bindP (log_event ''warning'' ''settlement.packet_rejected''
              [(''reason'', error_code_value code), (''packet_id'', uuid_str (p_packet_id packet)),
               (''idempotency_key'', key), (''detail'', detail)]) (\<lambda>_.
     bindP (persist_rejection code detail (Some key) (Some (p_packet_id packet))) (\<lambda>_.
     release_claim (pr_dedupe pr) key))"

text \<open>\<^verbatim>\<open>int(x)\<close> of a number of seconds: truncation towards zero.\<close>

definition whole_seconds :: "int \<Rightarrow> int" where
  "whole_seconds us = (if 0 \<le> us then us div us_per_second else - ((- us) div us_per_second))"

definition expired_detail :: "processor \<Rightarrow> int \<Rightarrow> string" where
  "expired_detail pr age =
     ''packet is '' @ show_int (whole_seconds age) @ ''s old, older than the ''
     @ show_int (pr_freshness_window pr) @ ''s freshness window''"

definition future_detail :: "processor \<Rightarrow> int \<Rightarrow> string" where
  "future_detail pr age =
     ''packet is dated '' @ show_int (whole_seconds (- age)) @ ''s in the future, beyond the ''
     @ show_int (pr_clock_skew pr) @ ''s clock-skew tolerance''"

definition check_freshness :: "processor \<Rightarrow> packet \<Rightarrow> outcome option task" where
  "check_freshness pr packet =
     bindP clock (\<lambda>now.
       let age = now - p_created_at packet in
       if pr_freshness_window pr * us_per_second < age
       then bindP (reject_before_claim PACKET_EXPIRED (expired_detail pr age) packet) (\<lambda>out. Ret (Some out))
       else if pr_clock_skew pr * us_per_second < - age
       then bindP (reject_before_claim PACKET_NOT_YET_VALID (future_detail pr age) packet) (\<lambda>out. Ret (Some out))
       else Ret None)"

definition settlement_of :: "packet \<Rightarrow> instruction \<Rightarrow> string \<Rightarrow> settlement_row" where
  "settlement_of packet ins key =
     \<lparr> s_idempotency_key = key, s_packet_id = p_packet_id packet, s_sender_id = p_sender_id packet,
       s_payer_id = i_payer_id ins, s_payee_id = i_payee_id ins, s_amount_minor = i_amount_minor ins,
       s_currency = i_currency ins, s_packet_created_at = i_created_at ins,
       s_hop_count = int (hop_count packet) \<rparr>"

definition settled_outcome :: "packet \<Rightarrow> string \<Rightarrow> int \<Rightarrow> outcome" where
  "settled_outcome packet key n =
     \<lparr> o_status = SETTLED, o_detail = ''settled'', o_code = None, o_idempotency_key = Some key,
       o_packet_id = Some (p_packet_id packet), o_settlement_id = Some n, o_retryable = False \<rparr>"

text \<open>The transaction, its \<^verbatim>\<open>except IntegrityError\<close> clause, and what follows the commit.\<close>

definition insert_row :: "packet \<Rightarrow> instruction \<Rightarrow> string \<Rightarrow> int task" where
  "insert_row packet ins key =
     call (InsertSettlement (settlement_of packet ins key)) (\<lambda>r.
       case r of RowId n \<Rightarrow> Ret n | _ \<Rightarrow> Raise (OtherError ''no row id''))"

definition refused_row :: "processor \<Rightarrow> packet \<Rightarrow> string \<Rightarrow> outcome task" where
  "refused_row pr packet key =
     bindP (log_event ''info'' ''settlement.packet_rejected''
              [(''reason'', error_code_value DUPLICATE_PACKET), (''packet_id'', uuid_str (p_packet_id packet)),
               (''idempotency_key'', key), (''caught_by'', ''postgres_unique_constraint'')]) (\<lambda>_.
     bindP (mark_settled (pr_dedupe pr) key) (\<lambda>_.
     Ret (rejected_outcome DUPLICATE_PACKET ''packet was already settled'' (Some key) (Some (p_packet_id packet)))))"

definition committed_row :: "processor \<Rightarrow> packet \<Rightarrow> string \<Rightarrow> int \<Rightarrow> outcome task" where
  "committed_row pr packet key n =
     bindP (mark_settled (pr_dedupe pr) key) (\<lambda>_.
     bindP (log_event ''info'' ''settlement.packet_settled''
              [(''packet_id'', uuid_str (p_packet_id packet)), (''idempotency_key'', key),
               (''settlement_id'', show_int n), (''hop_count'', show_nat (hop_count packet))]) (\<lambda>_.
     Ret (settled_outcome packet key n)))"

definition write_settlement :: "processor \<Rightarrow> packet \<Rightarrow> instruction \<Rightarrow> string \<Rightarrow> outcome task" where
  "write_settlement pr packet ins key =
     bindP
       (tryP (bindP (insert_row packet ins key) (\<lambda>n. Ret (Inr n)))
          (\<lambda>e. if e = IntegrityError
               then Some (bindP (refused_row pr packet key) (\<lambda>out. Ret (Inl out)))
               else None))
       (\<lambda>res. case res of Inl out \<Rightarrow> Ret out | Inr n \<Rightarrow> committed_row pr packet key n)"

definition internal_error_outcome :: "packet \<Rightarrow> string \<Rightarrow> outcome" where
  "internal_error_outcome packet key =
     (rejected_outcome INTERNAL_ERROR ''settlement failed unexpectedly'' (Some key) (Some (p_packet_id packet)))
       \<lparr> o_retryable := True \<rparr>"

text \<open>Steps 4 to 6, with the claim held: the body of the outer \<^verbatim>\<open>try\<close>.\<close>

definition settle_claimed :: "processor \<Rightarrow> packet \<Rightarrow> string \<Rightarrow> outcome task" where
  "settle_claimed pr packet key =
     (case open_instruction (pr_validator pr) (pr_crypto pr) (pr_json_depth pr) packet
             (pr_settlement_private_key pr) of
        Inl (DecryptionError _) \<Rightarrow>
          bindP (reject_after_claim pr DECRYPTION_FAILED ''packet payload could not be decrypted'' packet key)
            (\<lambda>_. Ret (rejected_outcome DECRYPTION_FAILED ''packet payload could not be decrypted''
                      (Some key) (Some (p_packet_id packet))))
      | Inl e \<Rightarrow>
          (if is_value_error e then
             (let detail = py_take 256 (exn_text (pr_validator pr) e) in
              bindP (reject_after_claim pr MALFORMED_PAYLOAD detail packet key)
                (\<lambda>_. Ret (rejected_outcome MALFORMED_PAYLOAD detail (Some key) (Some (p_packet_id packet)))))
           else Raise e)
      | Inr ins \<Rightarrow> write_settlement pr packet ins key)"

definition with_claim :: "processor \<Rightarrow> packet \<Rightarrow> string \<Rightarrow> outcome task" where
  "with_claim pr packet key =
     tryP (settle_claimed pr packet key)
       (\<lambda>e. Some (
          bindP (release_claim (pr_dedupe pr) key) (\<lambda>_.
          bindP (log_event ''error'' ''settlement.internal_error''
                   [(''packet_id'', uuid_str (p_packet_id packet)), (''idempotency_key'', key)]) (\<lambda>_.
          Ret (internal_error_outcome packet key)))))"

definition claim_detail :: "claim_outcome \<Rightarrow> string" where
  "claim_detail cl =
     (if cl = ALREADY_SETTLED then ''packet was already settled''
      else ''packet is already being settled by another consumer'')"

definition claim_and_settle :: "processor \<Rightarrow> packet \<Rightarrow> string \<Rightarrow> outcome task" where
  "claim_and_settle pr packet key =
     bindP (claim (pr_dedupe pr) key) (\<lambda>cl.
       if cl \<noteq> CLAIMED then
         bindP (log_event ''info'' ''settlement.packet_rejected''
                  [(''reason'', error_code_value DUPLICATE_PACKET),
                   (''packet_id'', uuid_str (p_packet_id packet)), (''idempotency_key'', key),
                   (''claim_state'', claim_outcome_value cl)]) (\<lambda>_.
         Ret (rejected_outcome DUPLICATE_PACKET (claim_detail cl) (Some key) (Some (p_packet_id packet))))
       else with_claim pr packet key)"

text \<open>The rejections written out in \<^verbatim>\<open>_process\<close>: signature (step 2) and AAD (2b).\<close>

definition reject_signature :: "packet \<Rightarrow> string \<Rightarrow> outcome task" where
  "reject_signature packet key =
     bindP (log_event ''warning'' ''settlement.packet_rejected''
              [(''reason'', error_code_value INVALID_SIGNATURE), (''packet_id'', uuid_str (p_packet_id packet)),
               (''idempotency_key'', key), (''signature_fp'', safe_fingerprint (p_signature packet) 12)]) (\<lambda>_.
     bindP (persist_rejection INVALID_SIGNATURE ''packet signature did not verify'' (Some key)
              (Some (p_packet_id packet))) (\<lambda>_.
     Ret (rejected_outcome INVALID_SIGNATURE ''packet signature did not verify'' (Some key)
            (Some (p_packet_id packet)))))"

definition aad_detail :: string where
  "aad_detail = ''envelope AAD does not match the packet header''"

definition reject_aad :: "packet \<Rightarrow> string \<Rightarrow> outcome task" where
  "reject_aad packet key =
     bindP (log_event ''warning'' ''settlement.packet_rejected''
              [(''reason'', error_code_value MALFORMED_PAYLOAD), (''packet_id'', uuid_str (p_packet_id packet)),
               (''idempotency_key'', key), (''detail'', aad_detail)]) (\<lambda>_.
     bindP (persist_rejection MALFORMED_PAYLOAD aad_detail (Some key) (Some (p_packet_id packet))) (\<lambda>_.
     Ret (rejected_outcome MALFORMED_PAYLOAD aad_detail (Some key) (Some (p_packet_id packet)))))"

text \<open>Everything after parsing: steps 2 to 6.\<close>

definition process_packet :: "processor \<Rightarrow> packet \<Rightarrow> outcome task" where
  "process_packet pr packet =
     (let key = idempotency_key packet in
      case verify (pr_crypto pr) packet (pr_sender_public_key pr) of
        Some (SignatureVerificationError _) \<Rightarrow> reject_signature packet key
      | Some e \<Rightarrow> Raise e
      | None \<Rightarrow>
          bindP (check_freshness pr packet) (\<lambda>freshness.
            case freshness of
              Some out \<Rightarrow> Ret out
            | None \<Rightarrow>
                if e_aad (p_envelope packet) \<noteq> expected_aad packet then reject_aad packet key
                else claim_and_settle pr packet key))"

definition process_body :: "processor \<Rightarrow> bytes \<Rightarrow> outcome task" where
  "process_body pr raw =
     (case packet_of_json_bytes (pr_validator pr) raw of
        Inl (ValidationError es) \<Rightarrow>
          (let detail = summarize_validation_error es in
           bindP (log_event ''warning'' ''settlement.packet_rejected''
                    [(''reason'', error_code_value MALFORMED_PAYLOAD), (''detail'', detail)]) (\<lambda>_.
           bindP (persist_rejection MALFORMED_PAYLOAD detail None None) (\<lambda>_.
           Ret (rejected_outcome MALFORMED_PAYLOAD detail None None))))
      | Inl e \<Rightarrow> Raise e
      | Inr packet \<Rightarrow> process_packet pr packet)"

end
