(* ===== verification/Pipeline.thy ===== *)
theory Pipeline
  imports Processor
begin

text \<open>
  The order of operations of the settlement pipeline, over every reply the services may give:
  what must have happened before the claim, before the insert and before an outcome, what
  every rejection logs, and which exceptions can leave it.
\<close>

section \<open>Paths of the building blocks\<close>

named_theorems path_simps

fun failed :: "reply \<Rightarrow> bool" where
  "failed (Failed e) = True"
| "failed r = False"

lemma path_call [path_simps]:
  "path (call c f) h res \<longleftrightarrow>
     (\<exists>e. h = [(c, Failed e)] \<and> res = Inl e)
     \<or> (\<exists>r h'. h = (c, r) # h' \<and> \<not> failed r \<and> path (f r) h' res)"
proof
  assume "path (call c f) h res"
  then obtain r h' where "h = (c, r) # h'" "path (case r of Failed e \<Rightarrow> Raise e | _ \<Rightarrow> f r) h' res"
    by (auto simp: call_def path_Do_iff)
  then show "(\<exists>e. h = [(c, Failed e)] \<and> res = Inl e)
     \<or> (\<exists>r h'. h = (c, r) # h' \<and> \<not> failed r \<and> path (f r) h' res)"
    by (cases r) auto
next
  assume "(\<exists>e. h = [(c, Failed e)] \<and> res = Inl e)
     \<or> (\<exists>r h'. h = (c, r) # h' \<and> \<not> failed r \<and> path (f r) h' res)"
  then show "path (call c f) h res"
  proof (elim disjE exE conjE)
    fix r h' assume "h = (c, r) # h'" "\<not> failed r" "path (f r) h' res"
    then show ?thesis by (cases r) (auto simp: call_def path_Do_iff)
  qed (auto simp: call_def path_Do_iff)
qed

lemma path_log_event [path_simps]:
  "path (log_event l n ev) h res \<longleftrightarrow> (\<exists>r. h = [(Log l n ev, r)] \<and> res = Inr ())"
  by (auto simp: log_event_def path_Do_iff)

lemma path_clock:
  assumes "path clock h res"
  shows "(\<exists>t. h = [(ClockNow, Time t)] \<and> res = Inr t) \<or> (\<exists>r e. h = [(ClockNow, r)] \<and> (\<forall>t. r \<noteq> Time t) \<and> res = Inl e)"
  using assms unfolding clock_def path_call
proof (elim disjE exE conjE)
  fix r h' assume "h = (ClockNow, r) # h'" "path (case r of Time t \<Rightarrow> Ret t | _ \<Rightarrow> Raise (OtherError ''no time'')) h' res"
  then show ?thesis by (cases r) auto
qed auto

lemma path_release_claim [path_simps]:
  "path (release_claim d k) h res \<longleftrightarrow>
     (\<exists>e. h = [(RedisDelete k, Failed e)] \<and> res = Inl e)
     \<or> (\<exists>r. h = [(RedisDelete k, r)] \<and> \<not> failed r \<and> res = Inr ())"
  by (auto simp: release_claim_def path_call)

lemma path_mark_settled [path_simps]:
  "path (mark_settled d k) h res \<longleftrightarrow>
     (\<exists>e. h = [(RedisSet k (utf8_encode settled_marker) False (settled_ttl d), Failed e)] \<and> res = Inl e)
     \<or> (\<exists>r. h = [(RedisSet k (utf8_encode settled_marker) False (settled_ttl d), r)] \<and> \<not> failed r \<and> res = Inr ())"
  by (auto simp: mark_settled_def path_call)

text \<open>A quiet history touches neither Redis nor the settlements table.\<close>

fun quiet :: "cmd \<Rightarrow> bool" where
  "quiet (Log _ _ _) = True"
| "quiet ClockNow = True"
| "quiet (InsertRejection _) = True"
| "quiet _ = False"

definition quiet_history :: "(cmd, reply) history \<Rightarrow> bool" where
  "quiet_history h \<longleftrightarrow> (\<forall>x \<in> set h. quiet (fst x))"

lemma quiet_history_simps [simp]:
  "quiet_history []"
  "quiet_history (x # h) \<longleftrightarrow> quiet (fst x) \<and> quiet_history h"
  "quiet_history (h @ h') \<longleftrightarrow> quiet_history h \<and> quiet_history h'"
  by (auto simp: quiet_history_def)

lemma path_persist_rejection:
  "path (persist_rejection code detail key pid) h res \<Longrightarrow> res = Inr () \<and> quiet_history h"
  unfolding persist_rejection_def
  by (auto simp: path_try path_bind path_simps dest!: path_clock)

text \<open>The log line a rejection with this code has written.\<close>

fun is_rejection_log :: "error_code \<Rightarrow> cmd \<Rightarrow> bool" where
  "is_rejection_log code (Log l name ev) \<longleftrightarrow>
     name = ''settlement.packet_rejected'' \<and> map_of ev ''reason'' = Some (error_code_value code)"
| "is_rejection_log code _ = False"

definition logged_reason :: "(cmd, reply) history \<Rightarrow> error_code \<Rightarrow> bool" where
  "logged_reason h code \<longleftrightarrow> (\<exists>x \<in> set h. is_rejection_log code (fst x))"

lemma logged_reason_simps [simp]:
  "\<not> logged_reason [] code"
  "logged_reason (x # h) code \<longleftrightarrow> is_rejection_log code (fst x) \<or> logged_reason h code"
  "logged_reason (h @ h') code \<longleftrightarrow> logged_reason h code \<or> logged_reason h' code"
  by (auto simp: logged_reason_def)

lemma path_reject_before_claim:
  assumes "path (reject_before_claim code detail p) h res"
  shows "quiet_history h \<and> logged_reason h code
    \<and> res = Inr (rejected_outcome code detail (Some (idempotency_key p)) (Some (p_packet_id p)))"
  using assms unfolding reject_before_claim_def Let_def
  by (auto simp: path_bind path_simps dest!: path_persist_rejection)

lemma path_reject_after_claim:
  assumes "path (reject_after_claim pr code detail p k) h res"
  shows "\<exists>h' r. h = h' @ [(RedisDelete k, r)] \<and> quiet_history h' \<and> logged_reason h' code
    \<and> (if failed r then (\<exists>e. r = Failed e \<and> res = Inl e) else res = Inr ())"
  using assms unfolding reject_after_claim_def
  by (fastforce simp: path_bind path_simps dest!: path_persist_rejection)

section \<open>Before the claim\<close>

definition fresh_at :: "processor \<Rightarrow> packet \<Rightarrow> instant \<Rightarrow> bool" where
  "fresh_at pr p now \<longleftrightarrow>
     now - p_created_at p \<le> pr_freshness_window pr * us_per_second
     \<and> p_created_at p - now \<le> pr_clock_skew pr * us_per_second"

definition no_clock :: "(cmd, reply) history \<Rightarrow> bool" where
  "no_clock h \<longleftrightarrow> (\<exists>r. h = [(ClockNow, r)] \<and> (\<forall>t. r \<noteq> Time t))"

lemma path_check_freshness:
  assumes "path (check_freshness pr p) h res"
  shows "quiet_history h \<and>
    ((\<exists>now. h = [(ClockNow, Time now)] \<and> fresh_at pr p now \<and> res = Inr None)
     \<or> (\<exists>now code detail. (ClockNow, Time now) \<in> set h \<and> \<not> fresh_at pr p now \<and> logged_reason h code
          \<and> code \<in> {PACKET_EXPIRED, PACKET_NOT_YET_VALID}
          \<and> res = Inr (Some (rejected_outcome code detail (Some (idempotency_key p)) (Some (p_packet_id p)))))
     \<or> (\<exists>e. no_clock h \<and> res = Inl e))"
  using assms unfolding check_freshness_def no_clock_def Let_def fresh_at_def
  by (force simp: path_bind split: if_split_asm dest!: path_reject_before_claim path_clock)

text \<open>The conditions under which the claim is attempted.\<close>

definition admissible :: "processor \<Rightarrow> packet \<Rightarrow> instant \<Rightarrow> bool" where
  "admissible pr p now \<longleftrightarrow>
     verify (pr_crypto pr) p (pr_sender_public_key pr) = None
     \<and> e_aad (p_envelope p) = expected_aad p \<and> fresh_at pr p now"

definition early_codes :: "error_code set" where
  "early_codes = {MALFORMED_PAYLOAD, INVALID_SIGNATURE, PACKET_EXPIRED, PACKET_NOT_YET_VALID}"

lemma path_reject_signature:
  assumes "path (reject_signature p k) h res"
  shows "quiet_history h \<and> logged_reason h INVALID_SIGNATURE
    \<and> res = Inr (rejected_outcome INVALID_SIGNATURE ''packet signature did not verify'' (Some k) (Some (p_packet_id p)))"
  using assms unfolding reject_signature_def
  by (auto simp: path_bind path_simps dest!: path_persist_rejection)

lemma path_reject_aad:
  assumes "path (reject_aad p k) h res"
  shows "quiet_history h \<and> logged_reason h MALFORMED_PAYLOAD
    \<and> res = Inr (rejected_outcome MALFORMED_PAYLOAD aad_detail (Some k) (Some (p_packet_id p)))"
  using assms unfolding reject_aad_def
  by (auto simp: path_bind path_simps dest!: path_persist_rejection)

definition early_exit :: "packet \<Rightarrow> (cmd, reply) history \<Rightarrow> exn + outcome \<Rightarrow> bool" where
  "early_exit p h res \<longleftrightarrow>
     quiet_history h \<and> ((\<exists>e. no_clock h \<and> res = Inl e) \<or>
       (\<exists>code detail. code \<in> early_codes \<and> logged_reason h code
          \<and> res = Inr (rejected_outcome code detail (Some (idempotency_key p)) (Some (p_packet_id p)))))"

lemma path_process_packet:
  assumes "path (process_packet pr p) h res"
  shows "early_exit p h res
     \<or> (\<exists>now h2. h = (ClockNow, Time now) # h2 \<and> admissible pr p now
          \<and> path (claim_and_settle pr p (idempotency_key p)) h2 res)"
proof (cases "verify (pr_crypto pr) p (pr_sender_public_key pr)")
  case (Some e)
  then obtain m where e: "e = SignatureVerificationError m"
    using verify_signature_error unfolding verify_def by blast
  from assms have "path (reject_signature p (idempotency_key p)) h res"
    unfolding process_packet_def Let_def Some e by simp
  from path_reject_signature [OF this] show ?thesis
    unfolding early_exit_def early_codes_def by blast
next
  case None
  from assms show ?thesis
    unfolding process_packet_def Let_def None option.case path_bind
  proof (elim disjE exE conjE)
    fix e assume "path (check_freshness pr p) h (Inl e)" "res = Inl e"
    then show ?thesis using path_check_freshness unfolding early_exit_def by blast
  next
    fix h1 h2 x
    assume x: "path (check_freshness pr p) h1 (Inr x)" and h: "h = h1 @ h2"
      and rest: "path (case x of Some out \<Rightarrow> Ret out | None \<Rightarrow>
          if e_aad (p_envelope p) \<noteq> expected_aad p then reject_aad p (idempotency_key p)
          else claim_and_settle pr p (idempotency_key p)) h2 res"
    note fr = path_check_freshness [OF x]
    show ?thesis
    proof (cases x)
      case (Some out)
      then have "h2 = []" "res = Inr out" using rest by simp_all
      then show ?thesis using fr Some h unfolding early_exit_def early_codes_def by fastforce
    next
      case None': None
      show ?thesis
      proof (cases "e_aad (p_envelope p) = expected_aad p")
        case True
        from fr None' obtain now where "h1 = [(ClockNow, Time now)]" "fresh_at pr p now" by auto
        moreover from this have "admissible pr p now" using None True by (simp add: admissible_def)
        ultimately show ?thesis using rest h None' True by auto
      next
        case False
        then have "path (reject_aad p (idempotency_key p)) h2 res" using rest None' by simp
        from path_reject_aad [OF this] show ?thesis
          using fr h unfolding early_exit_def early_codes_def by auto
      qed
    qed
  qed
qed

section \<open>From the claim on\<close>

fun redis_key :: "cmd \<Rightarrow> string option" where
  "redis_key (RedisSet k v nx ex) = Some k"
| "redis_key (RedisGet k) = Some k"
| "redis_key (RedisDelete k) = Some k"
| "redis_key _ = None"

definition claim_cmd :: "processor \<Rightarrow> string \<Rightarrow> cmd" where
  "claim_cmd pr k = RedisSet k (utf8_encode claimed_marker) True (claim_ttl (pr_dedupe pr))"

definition settled_cmd :: "processor \<Rightarrow> string \<Rightarrow> cmd" where
  "settled_cmd pr k = RedisSet k (utf8_encode settled_marker) False (settled_ttl (pr_dedupe pr))"

lemma claim_cmd_key [simp]: "redis_key (claim_cmd pr k) = Some k"
  by (simp add: claim_cmd_def)

lemma path_claim:
  assumes "path (claim (pr_dedupe pr) k) h res"
  shows "(h = [(claim_cmd pr k, Truth True)] \<and> res = Inr CLAIMED)
    \<or> (\<exists>r h'. h = (claim_cmd pr k, r) # h' \<and> r \<noteq> Truth True \<and> fst ` set h' \<subseteq> {RedisGet k} \<and> res \<noteq> Inr CLAIMED
         \<and> (\<forall>e. res = Inl e \<longrightarrow> (\<exists>x \<in> set h. snd x = Failed e \<and> redis_key (fst x) \<noteq> None)))"
  using assms unfolding claim_def path_call claim_cmd_def [symmetric]
proof (elim disjE exE conjE)
  fix r h' assume h: "h = (claim_cmd pr k, r) # h'" and rest: "path (if r = Truth True then Ret CLAIMED
      else call (RedisGet k) (\<lambda>current. Ret (lost_outcome current))) h' res"
  show ?thesis
  proof (cases "r = Truth True")
    case False
    with rest have "fst ` set h' \<subseteq> {RedisGet k} \<and> res \<noteq> Inr CLAIMED
        \<and> (\<forall>e. res = Inl e \<longrightarrow> (\<exists>x \<in> set h'. snd x = Failed e \<and> redis_key (fst x) \<noteq> None))"
      by (auto simp: path_call)
    with False h show ?thesis by auto
  qed (use h rest in simp)
qed auto

definition claim_lost :: "processor \<Rightarrow> packet \<Rightarrow> string \<Rightarrow> (cmd, reply) history \<Rightarrow> exn + outcome \<Rightarrow> bool" where
  "claim_lost pr p k h res \<longleftrightarrow>
     (\<exists>r h'. h = (claim_cmd pr k, r) # h' \<and> r \<noteq> Truth True
        \<and> fst ` set h' \<subseteq> {RedisGet k} \<union> {c. quiet c \<and> (\<forall>row. c \<noteq> InsertRejection row)}
        \<and> ((\<exists>e. (\<exists>x \<in> set h. snd x = Failed e \<and> redis_key (fst x) \<noteq> None) \<and> res = Inl e) \<or>
           (\<exists>detail. logged_reason h' DUPLICATE_PACKET
              \<and> res = Inr (rejected_outcome DUPLICATE_PACKET detail (Some k) (Some (p_packet_id p))))))"

lemma path_claim_and_settle:
  assumes "path (claim_and_settle pr p k) h res"
  shows "claim_lost pr p k h res
    \<or> (\<exists>h'. h = (claim_cmd pr k, Truth True) # h' \<and> path (with_claim pr p k) h' res)"
  using assms unfolding claim_and_settle_def path_bind
proof (elim disjE exE conjE)
  fix e assume c: "path (claim (pr_dedupe pr) k) h (Inl e)" and res: "res = Inl e"
  from path_claim [OF c] obtain r h' where
    "h = (claim_cmd pr k, r) # h'" "r \<noteq> Truth True" "fst ` set h' \<subseteq> {RedisGet k}" by auto
  moreover have "\<exists>x \<in> set h. snd x = Failed e \<and> redis_key (fst x) \<noteq> None" using path_claim [OF c] by (elim disjE exE conjE) simp_all
  ultimately show ?thesis using res unfolding claim_lost_def by (intro disjI1 exI [of _ r] exI [of _ h']) auto
next
  fix h1 h2 cl
  assume cl: "path (claim (pr_dedupe pr) k) h1 (Inr cl)" and h: "h = h1 @ h2"
    and rest: "path (if cl \<noteq> CLAIMED then
         bindP (log_event ''info'' ''settlement.packet_rejected''
                  [(''reason'', error_code_value DUPLICATE_PACKET),
                   (''packet_id'', uuid_str (p_packet_id p)), (''idempotency_key'', k),
                   (''claim_state'', claim_outcome_value cl)]) (\<lambda>_.
         Ret (rejected_outcome DUPLICATE_PACKET (claim_detail cl) (Some k) (Some (p_packet_id p))))
       else with_claim pr p k) h2 res"
  show ?thesis
  proof (cases "cl = CLAIMED")
    case True
    then show ?thesis using path_claim [OF cl] h rest by auto
  next
    case False
    then obtain r where h2: "h2 = [(Log ''info'' ''settlement.packet_rejected''
                  [(''reason'', error_code_value DUPLICATE_PACKET),
                   (''packet_id'', uuid_str (p_packet_id p)), (''idempotency_key'', k),
                   (''claim_state'', claim_outcome_value cl)], r)]"
      and res: "res = Inr (rejected_outcome DUPLICATE_PACKET (claim_detail cl) (Some k) (Some (p_packet_id p)))"
      using rest by (auto simp: path_bind path_simps)
    from path_claim [OF cl] False obtain r' h' where
      "h1 = (claim_cmd pr k, r') # h'" "r' \<noteq> Truth True" "fst ` set h' \<subseteq> {RedisGet k}" by auto
    then show ?thesis using h h2 res unfolding claim_lost_def
      by (intro disjI1 exI [of _ r'] exI [of _ "h' @ h2"]) auto
  qed
qed

definition insert_cmd :: "packet \<Rightarrow> instruction \<Rightarrow> string \<Rightarrow> cmd" where
  "insert_cmd p ins k = InsertSettlement (settlement_of p ins k)"

text \<open>The ways the write can go: refused, a duplicate row, or inserted.\<close>

definition write_failed :: "processor \<Rightarrow> packet \<Rightarrow> instruction \<Rightarrow> string \<Rightarrow> (cmd, reply) history \<Rightarrow> exn + outcome \<Rightarrow> bool" where
  "write_failed pr p ins k h res \<longleftrightarrow>
     (\<exists>e r. res = Inl e \<and>
        (h = [(insert_cmd p ins k, r)]
         \<or> (\<exists>e'. h = [(insert_cmd p ins k, r), (settled_cmd pr k, Failed e')])
         \<or> (\<exists>l e'. quiet (fst l) \<and> h = [(insert_cmd p ins k, r), l, (settled_cmd pr k, Failed e')])))"

definition write_duplicate :: "processor \<Rightarrow> packet \<Rightarrow> instruction \<Rightarrow> string \<Rightarrow> (cmd, reply) history \<Rightarrow> exn + outcome \<Rightarrow> bool" where
  "write_duplicate pr p ins k h res \<longleftrightarrow>
     (\<exists>l r. h = [(insert_cmd p ins k, Failed IntegrityError), l, (settled_cmd pr k, r)] \<and> \<not> failed r
        \<and> quiet (fst l) \<and> is_rejection_log DUPLICATE_PACKET (fst l)
        \<and> res = Inr (rejected_outcome DUPLICATE_PACKET ''packet was already settled'' (Some k) (Some (p_packet_id p))))"

definition write_done :: "processor \<Rightarrow> packet \<Rightarrow> instruction \<Rightarrow> string \<Rightarrow> (cmd, reply) history \<Rightarrow> exn + outcome \<Rightarrow> bool" where
  "write_done pr p ins k h res \<longleftrightarrow>
     (\<exists>n r l. h = [(insert_cmd p ins k, RowId n), (settled_cmd pr k, r), l] \<and> \<not> failed r \<and> quiet (fst l)
        \<and> res = Inr (settled_outcome p k n))"

lemma path_refused_row:
  assumes "path (refused_row pr p k) h res"
  shows "(\<exists>l e. quiet (fst l) \<and> h = [l, (settled_cmd pr k, Failed e)] \<and> res = Inl e)
    \<or> (\<exists>l r. h = [l, (settled_cmd pr k, r)] \<and> \<not> failed r \<and> quiet (fst l)
         \<and> is_rejection_log DUPLICATE_PACKET (fst l)
         \<and> res = Inr (rejected_outcome DUPLICATE_PACKET ''packet was already settled'' (Some k) (Some (p_packet_id p))))"
  using assms unfolding refused_row_def by (auto simp: path_bind path_simps settled_cmd_def)

lemma path_committed_row:
  assumes "path (committed_row pr p k n) h res"
  shows "(\<exists>e. h = [(settled_cmd pr k, Failed e)] \<and> res = Inl e)
    \<or> (\<exists>l r. h = [(settled_cmd pr k, r), l] \<and> \<not> failed r \<and> quiet (fst l) \<and> res = Inr (settled_outcome p k n))"
  using assms unfolding committed_row_def by (auto simp: path_bind path_simps settled_cmd_def)

lemma path_insert_row:
  assumes "path (insert_row p ins k) h res"
  shows "(\<exists>n. h = [(insert_cmd p ins k, RowId n)] \<and> res = Inr n)
    \<or> (\<exists>e. h = [(insert_cmd p ins k, Failed e)] \<and> res = Inl e)
    \<or> (\<exists>r. h = [(insert_cmd p ins k, r)] \<and> res = Inl (OtherError ''no row id''))"
  using assms unfolding insert_row_def path_call insert_cmd_def
proof (elim disjE exE conjE)
  fix r h' assume "h = (InsertSettlement (settlement_of p ins k), r) # h'"
    "path (case r of RowId n \<Rightarrow> Ret n | _ \<Rightarrow> Raise (OtherError ''no row id'')) h' res"
  then show "(\<exists>n. h = [(InsertSettlement (settlement_of p ins k), RowId n)] \<and> res = Inr n)
    \<or> (\<exists>e. h = [(InsertSettlement (settlement_of p ins k), Failed e)] \<and> res = Inl e)
    \<or> (\<exists>r. h = [(InsertSettlement (settlement_of p ins k), r)] \<and> res = Inl (OtherError ''no row id''))"
    by (cases r) auto
qed auto

lemma path_write_settlement:
  assumes "path (write_settlement pr p ins k) h res"
  shows "write_failed pr p ins k h res \<or> write_duplicate pr p ins k h res \<or> write_done pr p ins k h res"
proof -
  let ?T = "tryP (bindP (insert_row p ins k) (\<lambda>n. Ret (Inr n)))
          (\<lambda>e. if e = IntegrityError
               then Some (bindP (refused_row pr p k) (\<lambda>out. Ret (Inl out))) else None)"
  have T: "(\<exists>n. h = [(insert_cmd p ins k, RowId n)] \<and> x = Inr (Inr n))
      \<or> write_failed pr p ins k h x'
      \<or> (\<exists>out. x = Inr (Inl out) \<and> write_duplicate pr p ins k h (Inr out))"
    if "path ?T h x" "x' = (case x of Inl e \<Rightarrow> Inl e | Inr _ \<Rightarrow> x')" for h x x'
  proof -
    note parts = that(1) [unfolded path_try_one path_map]
    consider (ok) n where "path (insert_row p ins k) h (Inr n)" "x = Inr (Inr n)"
      | (raise) e where "path (insert_row p ins k) h (Inl e)" "x = Inl e"
      | (dup) h1 h2 y where "path (insert_row p ins k) h1 (Inl IntegrityError)"
          "path (refused_row pr p k) h2 y" "h = h1 @ h2" "x = map_sum id Inl y"
    proof -
      from parts show ?thesis
      proof (elim disjE exE conjE)
        fix y assume "path (insert_row p ins k) h y" "x = map_sum id Inr y"
        then show ?thesis using ok raise by (cases y) simp_all
      next
        fix h1 h2 y z assume a: "path (insert_row p ins k) h1 y" "Inl IntegrityError = map_sum id Inr y"
          "path (refused_row pr p k) h2 z" "h = h1 @ h2" "x = map_sum id Inl z"
        then have "y = Inl IntegrityError" by (cases y) simp_all
        then show ?thesis using a dup by simp
      qed
    qed
    then show ?thesis
    proof cases
      case ok
      then show ?thesis by (auto dest!: path_insert_row)
    next
      case raise
      then have "\<exists>r. h = [(insert_cmd p ins k, r)]" by (auto dest!: path_insert_row)
      then show ?thesis using raise(2) that(2) unfolding write_failed_def by auto
    next
      case dup
      then have h1: "h1 = [(insert_cmd p ins k, Failed IntegrityError)]" by (auto dest!: path_insert_row)
      from path_refused_row [OF dup(2)] show ?thesis
        using h1 dup(3,4) that(2) unfolding write_failed_def write_duplicate_def by (elim disjE) force+
    qed
  qed
  from assms show ?thesis
    unfolding write_settlement_def path_bind [of ?T]
  proof (elim disjE exE conjE)
    fix e assume "path ?T h (Inl e)" "res = Inl e"
    then show ?thesis using T [of h "Inl e" res] by auto
  next
    fix h1 h2 x assume x: "path ?T h1 (Inr x)" and h: "h = h1 @ h2"
      and rest: "path (case x of Inl out \<Rightarrow> Ret out | Inr n \<Rightarrow> committed_row pr p k n) h2 res"
    from T [OF x, of "Inr undefined"] consider (row) n where "h1 = [(insert_cmd p ins k, RowId n)]" "x = Inr n"
      | (dup) out where "x = Inl out" "write_duplicate pr p ins k h1 (Inr out)"
      by (auto simp: write_failed_def)
    then show ?thesis
    proof cases
      case row
      then have "path (committed_row pr p k n) h2 res" using rest by simp
      from path_committed_row [OF this] show ?thesis
        using row(1) h unfolding write_failed_def write_done_def by (elim disjE) force+
    next
      case dup
      then show ?thesis using rest h by simp
    qed
  qed
qed

section \<open>With the claim held\<close>

definition opens_to :: "processor \<Rightarrow> packet \<Rightarrow> instruction \<Rightarrow> bool" where
  "opens_to pr p ins \<longleftrightarrow>
     open_instruction (pr_validator pr) (pr_crypto pr) (pr_json_depth pr) p (pr_settlement_private_key pr) = Inr ins"

text \<open>
  The exits of the \<^verbatim>\<open>try\<close> block: rejected and released, written, or an exception
  after which the claim is released and the outcome asks for a redelivery.
\<close>

definition rejected_released :: "packet \<Rightarrow> string \<Rightarrow> (cmd, reply) history \<Rightarrow> exn + outcome \<Rightarrow> bool" where
  "rejected_released p k h res \<longleftrightarrow>
     (\<exists>h' r code detail. h = h' @ [(RedisDelete k, r)] \<and> \<not> failed r \<and> quiet_history h' \<and> logged_reason h' code
        \<and> code \<in> {DECRYPTION_FAILED, MALFORMED_PAYLOAD}
        \<and> res = Inr (rejected_outcome code detail (Some k) (Some (p_packet_id p))))"

definition settle_raised :: "processor \<Rightarrow> packet \<Rightarrow> string \<Rightarrow> (cmd, reply) history \<Rightarrow> bool" where
  "settle_raised pr p k h \<longleftrightarrow>
     h = [] \<or> (\<exists>h' r. h = h' @ [(RedisDelete k, r)] \<and> quiet_history h')
     \<or> (\<exists>ins e. opens_to pr p ins \<and> write_failed pr p ins k h (Inl e))"

lemma path_rejected:
  assumes "path (bindP (reject_after_claim pr code detail p k)
      (\<lambda>_. Ret (rejected_outcome code detail (Some k) (Some (p_packet_id p))))) h res"
    and "code \<in> {DECRYPTION_FAILED, MALFORMED_PAYLOAD}"
  shows "rejected_released p k h res \<or> (settle_raised pr p k h \<and> (\<exists>e. res = Inl e))"
proof -
  from assms(1) obtain y where y: "path (reject_after_claim pr code detail p k) h y"
    "res = map_sum id (\<lambda>_. rejected_outcome code detail (Some k) (Some (p_packet_id p))) y"
    unfolding path_map by blast
  from path_reject_after_claim [OF y(1)] obtain h' r where
    h: "h = h' @ [(RedisDelete k, r)]" "quiet_history h'" "logged_reason h' code"
    and r: "if failed r then \<exists>e. r = Failed e \<and> y = Inl e else y = Inr ()" by blast
  show ?thesis
  proof (cases "failed r")
    case True
    then show ?thesis using h r y(2) unfolding settle_raised_def by auto
  next
    case False
    then show ?thesis using h r y(2) assms(2) unfolding rejected_released_def by fastforce
  qed
qed

lemma path_settle_claimed:
  assumes "path (settle_claimed pr p k) h res"
  shows "rejected_released p k h res
    \<or> (\<exists>ins. opens_to pr p ins \<and> (write_duplicate pr p ins k h res \<or> write_done pr p ins k h res))
    \<or> (settle_raised pr p k h \<and> (\<exists>e. res = Inl e))"
proof (cases "open_instruction (pr_validator pr) (pr_crypto pr) (pr_json_depth pr) p (pr_settlement_private_key pr)")
  case (Inr ins)
  then have "path (write_settlement pr p ins k) h res" using assms by (simp add: settle_claimed_def)
  from path_write_settlement [OF this] show ?thesis
    using Inr unfolding opens_to_def settle_raised_def write_failed_def by blast
next
  case (Inl e)
  consider (dec) m where "e = DecryptionError m" | (val) "\<nexists>m. e = DecryptionError m" "is_value_error e"
    | (other) "\<nexists>m. e = DecryptionError m" "\<not> is_value_error e" by blast
  then show ?thesis
  proof cases
    case dec
    then have "path (bindP (reject_after_claim pr DECRYPTION_FAILED ''packet payload could not be decrypted'' p k)
        (\<lambda>_. Ret (rejected_outcome DECRYPTION_FAILED ''packet payload could not be decrypted''
                    (Some k) (Some (p_packet_id p))))) h res"
      using assms Inl by (simp add: settle_claimed_def)
    from path_rejected [OF this] show ?thesis by blast
  next
    case val
    then have "path (bindP (reject_after_claim pr MALFORMED_PAYLOAD (py_take 256 (exn_text (pr_validator pr) e)) p k)
        (\<lambda>_. Ret (rejected_outcome MALFORMED_PAYLOAD (py_take 256 (exn_text (pr_validator pr) e))
                    (Some k) (Some (p_packet_id p))))) h res"
      using assms Inl unfolding settle_claimed_def by (cases e) (simp_all add: Let_def)
    from path_rejected [OF this] show ?thesis by blast
  next
    case other
    then have "h = [] \<and> res = Inl e"
      using assms Inl unfolding settle_claimed_def by (cases e) simp_all
    then show ?thesis unfolding settle_raised_def by blast
  qed
qed

text \<open>The handler of the outer \<^verbatim>\<open>try\<close>.\<close>

definition internal_error :: "packet \<Rightarrow> string \<Rightarrow> (cmd, reply) history \<Rightarrow> exn + outcome \<Rightarrow> bool" where
  "internal_error p k h res \<longleftrightarrow>
     (\<exists>e. h = [(RedisDelete k, Failed e)] \<and> res = Inl e)
     \<or> (\<exists>r l ev r'. h = [(RedisDelete k, r), (Log l ''settlement.internal_error'' ev, r')] \<and> \<not> failed r
          \<and> res = Inr (internal_error_outcome p k))"

lemma path_with_claim:
  assumes "path (with_claim pr p k) h res"
  shows "rejected_released p k h res
    \<or> (\<exists>ins. opens_to pr p ins \<and> (write_duplicate pr p ins k h res \<or> write_done pr p ins k h res))
    \<or> (\<exists>h1 h2. h = h1 @ h2 \<and> settle_raised pr p k h1 \<and> internal_error p k h2 res)"
  using assms unfolding with_claim_def path_try_all
proof (elim disjE exE conjE)
  fix x assume "path (settle_claimed pr p k) h res" "res = Inr x"
  then show ?thesis using path_settle_claimed by blast
next
  fix h1 h2 e
  assume a: "path (settle_claimed pr p k) h1 (Inl e)" and h: "h = h1 @ h2"
    and b: "path (bindP (release_claim (pr_dedupe pr) k) (\<lambda>_.
          bindP (log_event ''error'' ''settlement.internal_error''
                   [(''packet_id'', uuid_str (p_packet_id p)), (''idempotency_key'', k)]) (\<lambda>_.
          Ret (internal_error_outcome p k)))) h2 res"
  have "settle_raised pr p k h1"
    using path_settle_claimed [OF a]
    unfolding rejected_released_def write_duplicate_def write_done_def by blast
  moreover have "internal_error p k h2 res"
    using b unfolding internal_error_def by (auto simp: path_bind path_simps)
  ultimately show ?thesis using h by blast
qed

section \<open>The whole pipeline\<close>

lemma path_process_body:
  assumes "path (process_body pr raw) h res"
  shows "(\<exists>es. packet_of_json_bytes (pr_validator pr) raw = Inl (ValidationError es) \<and> quiet_history h
            \<and> logged_reason h MALFORMED_PAYLOAD
            \<and> res = Inr (rejected_outcome MALFORMED_PAYLOAD (summarize_validation_error es) None None))
    \<or> (\<exists>e. packet_of_json_bytes (pr_validator pr) raw = Inl e \<and> (\<forall>es. e \<noteq> ValidationError es)
          \<and> h = [] \<and> res = Inl e)
    \<or> (\<exists>p. packet_of_json_bytes (pr_validator pr) raw = Inr p \<and> early_exit p h res)
    \<or> (\<exists>p now h2. packet_of_json_bytes (pr_validator pr) raw = Inr p \<and> h = (ClockNow, Time now) # h2
          \<and> admissible pr p now \<and> path (claim_and_settle pr p (idempotency_key p)) h2 res)"
proof (cases "packet_of_json_bytes (pr_validator pr) raw")
  case (Inr p)
  with assms have "path (process_packet pr p) h res" by (simp add: process_body_def)
  from path_process_packet [OF this] Inr show ?thesis by blast
next
  case (Inl e)
  show ?thesis
  proof (cases "\<exists>es. e = ValidationError es")
    case True
    then obtain es where e: "e = ValidationError es" by blast
    from assms Inl e have "quiet_history h \<and> logged_reason h MALFORMED_PAYLOAD
        \<and> res = Inr (rejected_outcome MALFORMED_PAYLOAD (summarize_validation_error es) None None)"
      unfolding process_body_def
      by (auto simp: path_bind path_simps Let_def dest!: path_persist_rejection)
    then show ?thesis using Inl e by blast
  next
    case False
    then have "h = [] \<and> res = Inl e"
      using assms Inl unfolding process_body_def by (cases e) auto
    then show ?thesis using Inl False by blast
  qed
qed

fun writes_database :: "cmd \<Rightarrow> bool" where
  "writes_database (InsertSettlement row) = True"
| "writes_database (InsertRejection row) = True"
| "writes_database _ = False"

lemma quiet_redis_key [simp]: "quiet c \<Longrightarrow> redis_key c = None"
  by (cases c) simp_all

lemma quiet_no_settlement [simp]: "\<not> quiet (InsertSettlement row)"
  by simp

lemma quiet_history_mem: "quiet_history h \<Longrightarrow> x \<in> set h \<Longrightarrow> quiet (fst x)"
  by (simp add: quiet_history_def)

lemma cmds_simps [simp]:
  "redis_key (settled_cmd pr k) = Some k"
  "redis_key (insert_cmd p ins k) = None"
  "\<not> quiet (claim_cmd pr k)" "\<not> quiet (settled_cmd pr k)" "\<not> quiet (insert_cmd p ins k)"
  "\<not> writes_database (claim_cmd pr k)" "\<not> writes_database (settled_cmd pr k)"
  "claim_cmd pr k \<noteq> InsertSettlement row" "settled_cmd pr k \<noteq> InsertSettlement row"
  "claim_cmd pr k \<noteq> settled_cmd pr k'" "claim_cmd pr k \<noteq> insert_cmd p ins k'"
  by (simp_all add: claim_cmd_def settled_cmd_def insert_cmd_def)

lemma early_quiet: "early_exit p h res \<Longrightarrow> quiet_history h"
  by (simp add: early_exit_def)

text \<open>The commands of each part.\<close>

lemma write_cmds:
  "write_failed pr p ins k h res \<or> write_duplicate pr p ins k h res \<or> write_done pr p ins k h res \<Longrightarrow>
    x \<in> set h \<Longrightarrow> fst x = insert_cmd p ins k \<or> fst x = settled_cmd pr k \<or> quiet (fst x)"
  unfolding write_failed_def write_duplicate_def write_done_def by auto

lemma released_cmds: "rejected_released p k h res \<Longrightarrow> x \<in> set h \<Longrightarrow> fst x = RedisDelete k \<or> quiet (fst x)"
  unfolding rejected_released_def by (auto dest: quiet_history_mem)

lemma raised_cmds:
  "settle_raised pr p k h \<Longrightarrow> x \<in> set h \<Longrightarrow>
    fst x = RedisDelete k \<or> quiet (fst x) \<or> fst x = settled_cmd pr k
    \<or> (\<exists>ins. opens_to pr p ins \<and> fst x = insert_cmd p ins k)"
  unfolding settle_raised_def
proof (elim disjE exE conjE)
  fix ins e assume "x \<in> set h" "opens_to pr p ins" "write_failed pr p ins k h (Inl e)"
  then show ?thesis using write_cmds [of pr p ins k h "Inl e" x] by blast
qed (auto dest: quiet_history_mem)

lemma internal_cmds: "internal_error p k h res \<Longrightarrow> x \<in> set h \<Longrightarrow> fst x = RedisDelete k \<or> quiet (fst x)"
  unfolding internal_error_def by auto

lemma with_claim_cmds:
  assumes "path (with_claim pr p k) h res" "x \<in> set h"
  shows "fst x = RedisDelete k \<or> quiet (fst x) \<or> fst x = settled_cmd pr k
    \<or> (\<exists>ins. opens_to pr p ins \<and> fst x = insert_cmd p ins k)"
  using path_with_claim [OF assms(1)]
proof (elim disjE exE conjE)
  fix h1 h2 assume "h = h1 @ h2" "settle_raised pr p k h1" "internal_error p k h2 res"
  then show ?thesis
    using assms(2) raised_cmds [of pr p k h1 x] internal_cmds [of p k h2 res x] by force
qed (use assms(2) released_cmds write_cmds in blast)+

lemma path_with_claim_insert:
  assumes "path (with_claim pr p k) h res" "(InsertSettlement row, r) \<in> set h"
  shows "\<exists>ins. opens_to pr p ins \<and> row = settlement_of p ins k"
  using with_claim_cmds [OF assms] by (auto simp: insert_cmd_def settled_cmd_def)

lemma claim_lost_no_write: "claim_lost pr p k h res \<Longrightarrow> x \<in> set h \<Longrightarrow> \<not> writes_database (fst x)"
proof -
  assume lost: "claim_lost pr p k h res" and x: "x \<in> set h"
  then obtain r h' where h: "h = (claim_cmd pr k, r) # h'"
    and sub: "fst ` set h' \<subseteq> {RedisGet k} \<union> {c. quiet c \<and> (\<forall>row. c \<noteq> InsertRejection row)}"
    unfolding claim_lost_def by blast
  have "fst x \<in> {RedisGet k} \<union> {c. quiet c \<and> (\<forall>row. c \<noteq> InsertRejection row)}" if "x \<in> set h'"
    using that by (intro subsetD [OF sub] imageI)
  then have "fst x = claim_cmd pr k \<or> fst x = RedisGet k \<or> (quiet (fst x) \<and> (\<forall>row. fst x \<noteq> InsertRejection row))"
    using h x by auto
  then show ?thesis by (auto elim: quiet.elims)
qed

text \<open>After the claim, Redis sees only this packet's key.\<close>

lemma path_claim_and_settle_key:
  assumes "path (claim_and_settle pr p k) h res" "x \<in> set h" "redis_key (fst x) = Some k'"
  shows "k' = k"
  using path_claim_and_settle [OF assms(1)]
proof (elim disjE exE conjE)
  assume "claim_lost pr p k h res"
  then show ?thesis using assms(2,3) unfolding claim_lost_def by fastforce
next
  fix h' assume h: "h = (claim_cmd pr k, Truth True) # h'" and w: "path (with_claim pr p k) h' res"
  show ?thesis
  proof (cases "x \<in> set h'")
    case True
    with with_claim_cmds [OF w True] assms(3) show ?thesis by auto
  qed (use h assms in auto)
qed

text \<open>A history is split at its one clock reading.\<close>

lemma not_quiet_after:
  "h1 @ x # h2 = y # h \<Longrightarrow> fst x \<noteq> fst y \<Longrightarrow> \<exists>h1'. h1 = y # h1' \<and> h = h1' @ x # h2"
  by (cases h1) auto

lemma first_claim:
  assumes "path (process_body pr raw) (h1 @ (c, r) # h2) res" "\<not> quiet c"
  shows "\<exists>p now h1'. packet_of_json_bytes (pr_validator pr) raw = Inr p \<and> admissible pr p now
    \<and> h1 = (ClockNow, Time now) # h1'
    \<and> path (claim_and_settle pr p (idempotency_key p)) (h1' @ (c, r) # h2) res"
  using path_process_body [OF assms(1)]
proof (elim disjE exE conjE)
  fix p now h assume "packet_of_json_bytes (pr_validator pr) raw = Inr p" "admissible pr p now"
    "h1 @ (c, r) # h2 = (ClockNow, Time now) # h" "path (claim_and_settle pr p (idempotency_key p)) h res"
  moreover have "c \<noteq> ClockNow" using assms(2) by auto
  ultimately show ?thesis using not_quiet_after [of h1 "(c, r)" h2] by fastforce
qed (use assms(2) in \<open>auto dest!: early_quiet\<close>)

lemma claim_comes_first:
  assumes "path (process_body pr raw) (h1 @ (c, r) # h2) res" "redis_key c = Some k"
  shows "\<exists>p now. packet_of_json_bytes (pr_validator pr) raw = Inr p \<and> k = idempotency_key p
    \<and> admissible pr p now \<and> h1 = (ClockNow, Time now) # tl h1"
proof -
  have "\<not> quiet c" using assms(2) by auto
  from first_claim [OF assms(1) this] obtain p now h1' where
    a: "packet_of_json_bytes (pr_validator pr) raw = Inr p" "admissible pr p now"
      "h1 = (ClockNow, Time now) # h1'" "path (claim_and_settle pr p (idempotency_key p)) (h1' @ (c, r) # h2) res"
    by blast
  then have "k = idempotency_key p"
    using path_claim_and_settle_key [OF a(4), of "(c, r)" k] assms(2) by simp
  with a show ?thesis by auto
qed

lemma insert_under_claim:
  assumes "path (process_body pr raw) (h1 @ (InsertSettlement row, r) # h2) res"
  shows "\<exists>p ins now. packet_of_json_bytes (pr_validator pr) raw = Inr p \<and> admissible pr p now
    \<and> opens_to pr p ins \<and> row = settlement_of p ins (idempotency_key p)
    \<and> (\<exists>h1'. h1 = (ClockNow, Time now) # (claim_cmd pr (idempotency_key p), Truth True) # h1')"
proof -
  from first_claim [OF assms] obtain p now h1' where
    a: "packet_of_json_bytes (pr_validator pr) raw = Inr p" "admissible pr p now"
      "h1 = (ClockNow, Time now) # h1'"
      "path (claim_and_settle pr p (idempotency_key p)) (h1' @ (InsertSettlement row, r) # h2) res"
    by auto
  from path_claim_and_settle [OF a(4)] obtain h where
    w: "h1' @ (InsertSettlement row, r) # h2 = (claim_cmd pr (idempotency_key p), Truth True) # h"
      "path (with_claim pr p (idempotency_key p)) h res"
  proof
    assume "claim_lost pr p (idempotency_key p) (h1' @ (InsertSettlement row, r) # h2) res"
    from claim_lost_no_write [OF this, of "(InsertSettlement row, r)"] show ?thesis by simp
  qed blast
  have "InsertSettlement row \<noteq> claim_cmd pr (idempotency_key p)" by (simp add: claim_cmd_def)
  with not_quiet_after [OF w(1)] obtain h1'' where
    s: "h1' = (claim_cmd pr (idempotency_key p), Truth True) # h1''" "h = h1'' @ (InsertSettlement row, r) # h2"
    by auto
  from path_with_claim_insert [OF w(2)] s(2) obtain ins where
    "opens_to pr p ins" "row = settlement_of p ins (idempotency_key p)" by auto
  with a s(1) show ?thesis by blast
qed

section \<open>Outcomes\<close>

lemma rejected_outcome_simps [simp]:
  "o_status (rejected_outcome c d k p) = REJECTED" "o_code (rejected_outcome c d k p) = Some c"
  "o_detail (rejected_outcome c d k p) = d" "o_idempotency_key (rejected_outcome c d k p) = k"
  "o_packet_id (rejected_outcome c d k p) = p" "o_settlement_id (rejected_outcome c d k p) = None"
  "o_retryable (rejected_outcome c d k p) = False" "\<not> settled (rejected_outcome c d k p)"
  by (simp_all add: rejected_outcome_def settled_def)

lemma settled_outcome_simps [simp]:
  "settled (settled_outcome p k n)" "o_code (settled_outcome p k n) = None"
  "o_retryable (settled_outcome p k n) = False" "o_settlement_id (settled_outcome p k n) = Some n"
  "o_idempotency_key (settled_outcome p k n) = Some k" "o_packet_id (settled_outcome p k n) = Some (p_packet_id p)"
  by (simp_all add: settled_outcome_def settled_def)

lemma internal_error_outcome_simps [simp]:
  "o_code (internal_error_outcome p k) = Some INTERNAL_ERROR" "o_retryable (internal_error_outcome p k)"
  "\<not> settled (internal_error_outcome p k)"
  by (simp_all add: internal_error_outcome_def rejected_outcome_def settled_def)

text \<open>The three kinds of outcome, with what the history must hold for each.\<close>

definition settled_exit :: "processor \<Rightarrow> bytes \<Rightarrow> (cmd, reply) history \<Rightarrow> outcome \<Rightarrow> bool" where
  "settled_exit pr raw h out \<longleftrightarrow>
     (\<exists>p ins n now r l. packet_of_json_bytes (pr_validator pr) raw = Inr p \<and> opens_to pr p ins
        \<and> admissible pr p now \<and> \<not> failed r \<and> quiet (fst l)
        \<and> h = [(ClockNow, Time now), (claim_cmd pr (idempotency_key p), Truth True),
               (insert_cmd p ins (idempotency_key p), RowId n), (settled_cmd pr (idempotency_key p), r), l]
        \<and> out = settled_outcome p (idempotency_key p) n)"

definition rejected_exit :: "(cmd, reply) history \<Rightarrow> outcome \<Rightarrow> bool" where
  "rejected_exit h out \<longleftrightarrow>
     (\<exists>code detail k pid. out = rejected_outcome code detail k pid \<and> code \<noteq> INTERNAL_ERROR \<and> logged_reason h code)"

definition internal_exit :: "(cmd, reply) history \<Rightarrow> outcome \<Rightarrow> bool" where
  "internal_exit h out \<longleftrightarrow>
     (\<exists>p k h' r l ev r'. out = internal_error_outcome p k \<and> \<not> failed r
        \<and> h = h' @ [(RedisDelete k, r), (Log l ''settlement.internal_error'' ev, r')])"

lemma process_body_exits:
  assumes "path (process_body pr raw) h (Inr out)"
  shows "settled_exit pr raw h out \<or> rejected_exit h out \<or> internal_exit h out"
  using path_process_body [OF assms]
proof (elim disjE exE conjE)
  fix p assume "early_exit p h (Inr out)"
  then show ?thesis unfolding early_exit_def rejected_exit_def early_codes_def by fastforce
next
  fix p now h2
  let ?k = "idempotency_key p"
  assume p: "packet_of_json_bytes (pr_validator pr) raw = Inr p" "admissible pr p now"
    and h: "h = (ClockNow, Time now) # h2" and c: "path (claim_and_settle pr p ?k) h2 (Inr out)"
  from path_claim_and_settle [OF c] show ?thesis
  proof (elim disjE exE conjE)
    assume "claim_lost pr p ?k h2 (Inr out)"
    then obtain detail where "logged_reason h2 DUPLICATE_PACKET"
      "out = rejected_outcome DUPLICATE_PACKET detail (Some ?k) (Some (p_packet_id p))"
      unfolding claim_lost_def by fastforce
    then show ?thesis using h unfolding rejected_exit_def by fastforce
  next
    fix h' assume h2: "h2 = (claim_cmd pr ?k, Truth True) # h'" and w: "path (with_claim pr p ?k) h' (Inr out)"
    from path_with_claim [OF w] show ?thesis
    proof (elim disjE exE conjE)
      assume "rejected_released p ?k h' (Inr out)"
      then show ?thesis using h h2 unfolding rejected_released_def rejected_exit_def by fastforce
    next
      fix ins assume "write_duplicate pr p ins ?k h' (Inr out)"
      then have "logged_reason h' DUPLICATE_PACKET"
        "out = rejected_outcome DUPLICATE_PACKET ''packet was already settled'' (Some ?k) (Some (p_packet_id p))"
        unfolding write_duplicate_def by auto
      then show ?thesis using h h2 unfolding rejected_exit_def by fastforce
    next
      fix ins assume "opens_to pr p ins" "write_done pr p ins ?k h' (Inr out)"
      then show ?thesis using p h h2 unfolding write_done_def settled_exit_def by auto
    next
      fix h3 h4 assume "h' = h3 @ h4" "internal_error p ?k h4 (Inr out)"
      then obtain r l ev r' where "\<not> failed r" "out = internal_error_outcome p ?k"
        "h = ((ClockNow, Time now) # (claim_cmd pr ?k, Truth True) # h3)
              @ [(RedisDelete ?k, r), (Log l ''settlement.internal_error'' ev, r')]"
        using h h2 unfolding internal_error_def by auto
      then show ?thesis unfolding internal_exit_def by blast
    qed
  qed
qed (auto simp: rejected_exit_def)

text \<open>A packet that is not admissible with an opened instruction never reaches the table.\<close>

lemma settled_inserts:
  assumes "path (process_body pr raw) h (Inr out)" "settled out"
  shows "\<exists>row n. (InsertSettlement row, RowId n) \<in> set h"
proof -
  have "settled_exit pr raw h out"
    using process_body_exits [OF assms(1)] assms(2) by (auto simp: rejected_exit_def internal_exit_def)
  then obtain p ins n now r l where "h = [(ClockNow, Time now), (claim_cmd pr (idempotency_key p), Truth True),
      (insert_cmd p ins (idempotency_key p), RowId n), (settled_cmd pr (idempotency_key p), r), l]"
    unfolding settled_exit_def by blast
  then have "(insert_cmd p ins (idempotency_key p), RowId n) \<in> set h" by simp
  then show ?thesis unfolding insert_cmd_def by blast
qed

lemma insert_needs:
  assumes "path (process_body pr raw) h res" "(InsertSettlement row, r) \<in> set h"
  shows "\<exists>p ins now. packet_of_json_bytes (pr_validator pr) raw = Inr p \<and> admissible pr p now \<and> opens_to pr p ins"
proof -
  obtain h1 h2 where "h = h1 @ (InsertSettlement row, r) # h2" using split_list [OF assms(2)] by blast
  with insert_under_claim assms(1) show ?thesis by blast
qed

lemma redis_needs:
  assumes "path (process_body pr raw) h res" "x \<in> set h" "redis_key (fst x) = Some k"
  shows "\<exists>p now. packet_of_json_bytes (pr_validator pr) raw = Inr p \<and> admissible pr p now"
proof -
  obtain h1 h2 where "h = h1 @ (fst x, snd x) # h2" using split_list [OF assms(2)] by auto
  with claim_comes_first assms(1,3) show ?thesis by blast
qed

text \<open>
  A won claim is either promoted to the settled marker or released: Redis took the command, and
  no later command of the run touches Redis again.
\<close>

lemma with_claim_discharges:
  assumes "path (with_claim pr p k) h (Inr out)"
  shows "\<exists>h1 c r h2. h = h1 @ (c, r) # h2 \<and> c \<in> {settled_cmd pr k, RedisDelete k} \<and> \<not> failed r
    \<and> (\<forall>x \<in> set h2. redis_key (fst x) = None)"
proof -
  from path_with_claim [OF assms] consider
      (rejected) h1 r where "h = h1 @ [(RedisDelete k, r)]" "\<not> failed r"
    | (duplicate) i l r where "h = [i, l, (settled_cmd pr k, r)]" "\<not> failed r"
    | (written) i r l where "h = [i, (settled_cmd pr k, r), l]" "\<not> failed r" "quiet (fst l)"
    | (internal) h1 r lv ev r' where "h = h1 @ [(RedisDelete k, r), (Log lv ''settlement.internal_error'' ev, r')]"
        "\<not> failed r"
    unfolding rejected_released_def write_duplicate_def write_done_def internal_error_def by fastforce
  then show ?thesis
  proof cases
    case rejected
    then show ?thesis by (intro exI [of _ h1] exI [of _ "RedisDelete k"] exI [of _ r] exI [of _ "[]"]) simp
  next
    case duplicate
    then show ?thesis by (intro exI [of _ "[i, l]"] exI [of _ "settled_cmd pr k"] exI [of _ r] exI [of _ "[]"]) simp
  next
    case written
    then show ?thesis by (intro exI [of _ "[i]"] exI [of _ "settled_cmd pr k"] exI [of _ r] exI [of _ "[l]"]) simp
  next
    case internal
    then show ?thesis
      by (intro exI [of _ h1] exI [of _ "RedisDelete k"] exI [of _ r]
          exI [of _ "[(Log lv ''settlement.internal_error'' ev, r')]"]) simp
  qed
qed

lemma claim_is_discharged:
  assumes "path (process_body pr raw) h (Inr out)" "(claim_cmd pr k, Truth True) \<in> set h"
  shows "\<exists>h1 c r h2. h = h1 @ (c, r) # h2 \<and> (claim_cmd pr k, Truth True) \<in> set h1
    \<and> c \<in> {settled_cmd pr k, RedisDelete k} \<and> \<not> failed r \<and> (\<forall>x \<in> set h2. redis_key (fst x) = None)"
  using path_process_body [OF assms(1)]
proof (elim disjE exE conjE)
  fix p now h2
  assume h: "h = (ClockNow, Time now) # h2" and c: "path (claim_and_settle pr p (idempotency_key p)) h2 (Inr out)"
  have mem: "(claim_cmd pr k, Truth True) \<in> set h2" using assms(2) h by (simp add: claim_cmd_def)
  then have k: "k = idempotency_key p" using path_claim_and_settle_key [OF c mem] by simp
  from path_claim_and_settle [OF c] show ?thesis
  proof (elim disjE exE conjE)
    assume "claim_lost pr p (idempotency_key p) h2 (Inr out)"
    then show ?thesis using mem k unfolding claim_lost_def by (auto simp: claim_cmd_def) force+
  next
    fix h' assume h2: "h2 = (claim_cmd pr (idempotency_key p), Truth True) # h'"
      and w: "path (with_claim pr p (idempotency_key p)) h' (Inr out)"
    from with_claim_discharges [OF w] obtain g1 c r g2 where g: "h' = g1 @ (c, r) # g2"
      "c \<in> {settled_cmd pr k, RedisDelete k}" "\<not> failed r" "\<forall>x \<in> set g2. redis_key (fst x) = None"
      unfolding k by blast
    have "h = ((ClockNow, Time now) # (claim_cmd pr k, Truth True) # g1) @ (c, r) # g2" by (simp add: h h2 k g(1))
    moreover have "(claim_cmd pr k, Truth True) \<in> set ((ClockNow, Time now) # (claim_cmd pr k, Truth True) # g1)" by simp
    ultimately show ?thesis using g(2-4) by blast
  qed
qed (use assms(2) in \<open>auto dest!: early_quiet quiet_history_mem\<close>)

lemma duplicate_skips_database:
  assumes "path (process_body pr raw) h res" "(claim_cmd pr k, r) \<in> set h" "r \<noteq> Truth True" "x \<in> set h"
  shows "\<not> writes_database (fst x)"
  using path_process_body [OF assms(1)]
proof (elim disjE exE conjE)
  fix p now h2
  assume h: "h = (ClockNow, Time now) # h2" and c: "path (claim_and_settle pr p (idempotency_key p)) h2 res"
  have mem: "(claim_cmd pr k, r) \<in> set h2" using assms(2) h by (simp add: claim_cmd_def)
  then have k: "k = idempotency_key p" using path_claim_and_settle_key [OF c mem] by simp
  from path_claim_and_settle [OF c] show ?thesis
  proof (elim disjE exE conjE)
    assume l: "claim_lost pr p (idempotency_key p) h2 res"
    show ?thesis using claim_lost_no_write [OF l, of x] assms(4) h by auto
  next
    fix h' assume h2: "h2 = (claim_cmd pr (idempotency_key p), Truth True) # h'"
      and w: "path (with_claim pr p (idempotency_key p)) h' res"
    with mem assms(3) have "(claim_cmd pr k, r) \<in> set h'" by auto
    moreover have "claim_cmd pr k \<noteq> RedisDelete (idempotency_key p)" by (simp add: claim_cmd_def)
    ultimately show ?thesis using with_claim_cmds [OF w, of "(claim_cmd pr k, r)"] by simp
  qed
qed (use assms(2) in \<open>auto dest!: early_quiet quiet_history_mem\<close>)

text \<open>Which exceptions leave the pipeline.\<close>

lemma process_body_escapes:
  assumes "path (process_body pr raw) h (Inl e)"
  shows "packet_of_json_bytes (pr_validator pr) raw = Inl e \<or> no_clock h
    \<or> (\<exists>x \<in> set h. snd x = Failed e \<and> redis_key (fst x) \<noteq> None)"
  using path_process_body [OF assms]
proof (elim disjE exE conjE)
  fix p assume "early_exit p h (Inl e)"
  then show ?thesis unfolding early_exit_def by auto
next
  fix p now h2
  assume h: "h = (ClockNow, Time now) # h2" and c: "path (claim_and_settle pr p (idempotency_key p)) h2 (Inl e)"
  from path_claim_and_settle [OF c] have "\<exists>x \<in> set h2. snd x = Failed e \<and> redis_key (fst x) \<noteq> None"
  proof (elim disjE exE conjE)
    assume l: "claim_lost pr p (idempotency_key p) h2 (Inl e)"
    then show ?thesis unfolding claim_lost_def by auto
  next
    fix h' assume "h2 = (claim_cmd pr (idempotency_key p), Truth True) # h'"
      and w: "path (with_claim pr p (idempotency_key p)) h' (Inl e)"
    then show ?thesis
      using path_with_claim [OF w]
      unfolding rejected_released_def write_duplicate_def write_done_def internal_error_def
      by (elim disjE exE conjE) auto
  qed
  then show ?thesis using h by auto
qed auto

end
