(* ===== verification/Settlement_Run.thy ===== *)
theory Settlement_Run
  imports Pipeline
begin

text \<open>
  What the pipeline computes when it runs alone against a store that behaves as documented
  and the tables of \<^verbatim>\<open>db.py\<close>: the result and the final state of every branch.
  The interleaved and faulty executions are in \<^verbatim>\<open>Broker\<close>.
\<close>

section \<open>Running the building blocks\<close>

lemma run_call [simp]:
  "run ex (call c f) w =
     (case ex c w of (Failed e, w') \<Rightarrow> (Inl e, w') | (r, w') \<Rightarrow> run ex (f r) w')"
  by (simp add: call_def split: prod.split reply.split)

lemma run_log_event [simp]: "run (perform R) (log_event l n ev) w = (Inr (), w \<lparr> w_log := w_log w @ [(l, n, ev)] \<rparr>)"
  by (simp add: log_event_def)

lemma run_clock [simp]: "run (perform R) clock w = (Inr (w_now w), w)"
  by (simp add: clock_def)

text \<open>A rejection row, when it fits its columns, is one row more and nothing else.\<close>

definition add_rejection :: "error_code \<Rightarrow> string \<Rightarrow> string option \<Rightarrow> uuid option \<Rightarrow> 'r world \<Rightarrow> 'r world" where
  "add_rejection code detail key pid w =
     (let row = rejection_record (error_code_value code) detail key pid (w_now w) in
      if rejection_storable row
      then w \<lparr> w_tables := w_tables w \<lparr> rejected_packets := rejected_packets (w_tables w) @ [row] \<rparr> \<rparr>
      else w \<lparr> w_log := w_log w @ [(''warning'', ''settlement.rejection_not_persisted'',
                                    [(''reason'', error_code_value code)])] \<rparr>)"

lemma run_persist_rejection [simp]:
  "run (perform R) (persist_rejection code detail key pid) w = (Inr (), add_rejection code detail key pid w)"
  by (simp add: persist_rejection_def run_try run_bind insert_rejection_def add_rejection_def Let_def)

lemma add_rejection_keeps [simp]:
  "w_redis (add_rejection c d k p w) = w_redis w" "w_now (add_rejection c d k p w) = w_now w"
  "settlements (w_tables (add_rejection c d k p w)) = settlements (w_tables w)"
  by (simp_all add: add_rejection_def Let_def)

definition add_log :: "string \<Rightarrow> string \<Rightarrow> (string \<times> string) list \<Rightarrow> 'r world \<Rightarrow> 'r world" where
  "add_log l n ev w = w \<lparr> w_log := w_log w @ [(l, n, ev)] \<rparr>"

lemma add_log_keeps [simp]:
  "w_redis (add_log l n ev w) = w_redis w" "w_now (add_log l n ev w) = w_now w"
  "w_tables (add_log l n ev w) = w_tables w"
  by (simp_all add: add_log_def)

section \<open>Before the claim\<close>

lemma run_check_freshness_ok:
  "fresh_at pr p (w_now w) \<Longrightarrow> run (perform R) (check_freshness pr p) w = (Inr None, w)"
  by (auto simp: check_freshness_def run_bind fresh_at_def Let_def)

text \<open>The state and the outcome of a rejection before the claim.\<close>

lemma run_reject_before_claim:
  "\<exists>w'. run (perform R) (reject_before_claim code detail p) w =
      (Inr (rejected_outcome code detail (Some (idempotency_key p)) (Some (p_packet_id p))), w')
    \<and> w_redis w' = w_redis w \<and> settlements (w_tables w') = settlements (w_tables w)"
  by (simp add: reject_before_claim_def Let_def run_bind)

lemma run_stale:
  assumes "pr_freshness_window pr * us_per_second < w_now w - p_created_at p"
  shows "\<exists>w'. run (perform R) (check_freshness pr p) w =
      (Inr (Some (rejected_outcome PACKET_EXPIRED (expired_detail pr (w_now w - p_created_at p))
         (Some (idempotency_key p)) (Some (p_packet_id p)))), w')
    \<and> w_redis w' = w_redis w \<and> settlements (w_tables w') = settlements (w_tables w)"
  using assms run_reject_before_claim [of R PACKET_EXPIRED "expired_detail pr (w_now w - p_created_at p)" p w]
  by (auto simp: check_freshness_def run_bind Let_def)

lemma run_early:
  assumes "w_now w - p_created_at p \<le> pr_freshness_window pr * us_per_second"
    and "pr_clock_skew pr * us_per_second < p_created_at p - w_now w"
  shows "\<exists>w'. run (perform R) (check_freshness pr p) w =
      (Inr (Some (rejected_outcome PACKET_NOT_YET_VALID (future_detail pr (w_now w - p_created_at p))
         (Some (idempotency_key p)) (Some (p_packet_id p)))), w')
    \<and> w_redis w' = w_redis w \<and> settlements (w_tables w') = settlements (w_tables w)"
  using assms run_reject_before_claim [of R PACKET_NOT_YET_VALID "future_detail pr (w_now w - p_created_at p)" p w]
  by (auto simp: check_freshness_def run_bind Let_def)

lemma run_process_admissible:
  assumes "packet_of_json_bytes (pr_validator pr) raw = Inr p" "admissible pr p (w_now w)"
  shows "run (perform R) (process_body pr raw) w = run (perform R) (claim_and_settle pr p (idempotency_key p)) w"
  using assms by (simp add: process_body_def process_packet_def admissible_def Let_def run_bind run_check_freshness_ok)

section \<open>The rows that are written\<close>

lemma fits_ascii: "list_all is_ascii s \<Longrightarrow> length s \<le> n \<Longrightarrow> CHR 0x00 \<notin> set s \<Longrightarrow> fits n s"
  by (simp add: fits_def py_len_ascii)

lemma identifier_fits: "identifier_pattern s \<Longrightarrow> fits 64 s"
  by (rule fits_ascii) (auto simp: identifier_ascii, auto simp: identifier_pattern_def identifier_char_def list_all_iff)

lemma currency_fits: "currency_pattern s \<Longrightarrow> fits 3 s"
  by (rule fits_ascii) (auto simp: currency_ascii, auto simp: currency_pattern_def upper_char_def list_all_iff)

lemma hex_char_not_nul: "n < 16 \<Longrightarrow> hex_char n \<noteq> CHR 0x00"
  by (auto simp: hex_char_def char_of_nat_eq_iff)

lemma hexdigest_no_nul: "CHR 0x00 \<notin> set (hexdigest bs)"
  by (auto simp: hexdigest_def hex_byte_def less_mult_imp_div_less hex_char_not_nul [symmetric])

lemma key_fits: "fits 80 (derive_idempotency_key sb)"
proof (rule fits_ascii)
  show "list_all is_ascii (derive_idempotency_key sb)"
    by (simp add: derive_idempotency_key_def idempotency_key_prefix_def hexdigest_ascii) (simp add: is_ascii_def)
  show "length (derive_idempotency_key sb) \<le> 80" by (simp add: length_idempotency_key)
  show "CHR 0x00 \<notin> set (derive_idempotency_key sb)"
    by (simp add: derive_idempotency_key_def idempotency_key_prefix_def hexdigest_no_nul)
qed

lemma settlement_of_storable:
  assumes "wf_packet p" "wf_instruction ins" "int (hop_count p) < 2 ^ 31"
  shows "settlement_storable (settlement_of p ins (idempotency_key p))"
    and "settlement_checks (settlement_of p ins (idempotency_key p))"
  using assms
  by (simp_all add: settlement_storable_def settlement_checks_def settlement_of_def idempotency_key_def key_fits
      wf_packet_def wf_instruction_def identifier_fits currency_fits max_amount_minor_def)

section \<open>Histories of the two common outcomes\<close>

text \<open>Every service answers: the packet settles under the row id the database gave.\<close>

lemmas pipeline_defs = process_body_def process_packet_def check_freshness_def clock_def claim_and_settle_def
  claim_def with_claim_def settle_claimed_def write_settlement_def insert_row_def committed_row_def
  mark_settled_def log_event_def call_def Let_def

lemma settling_path:
  assumes "packet_of_json_bytes (pr_validator pr) raw = Inr p" "admissible pr p now" "opens_to pr p ins"
  defines "k \<equiv> idempotency_key p"
  shows "\<exists>l. path (process_body pr raw)
      [(ClockNow, Time now), (claim_cmd pr k, Truth True), (insert_cmd p ins k, RowId n), (settled_cmd pr k, Truth True),
       (l, Done)] (Inr (settled_outcome p k n))"
proof -
  have "\<exists>l. replay (process_body pr raw) [Time now, Truth True, RowId n, Truth True, Done] = Some
      ([(ClockNow, Time now), (claim_cmd pr k, Truth True), (insert_cmd p ins k, RowId n), (settled_cmd pr k, Truth True),
       (l, Done)], Inr (settled_outcome p k n))"
    using assms(1-3) unfolding admissible_def fresh_at_def opens_to_def k_def
    by (simp add: pipeline_defs claim_cmd_def settled_cmd_def insert_cmd_def)
  then show ?thesis using replay_path by blast
qed

text \<open>The claim is held by another consumer: nothing but the log follows.\<close>

lemma losing_path:
  assumes "packet_of_json_bytes (pr_validator pr) raw = Inr p" "admissible pr p now"
  defines "k \<equiv> idempotency_key p"
  shows "\<exists>l. path (process_body pr raw)
      [(ClockNow, Time now), (claim_cmd pr k, Truth False), (RedisGet k, Value None), (l, Done)]
      (Inr (rejected_outcome DUPLICATE_PACKET (claim_detail IN_FLIGHT) (Some k) (Some (p_packet_id p))))"
proof -
  have "\<exists>l. replay (process_body pr raw) [Time now, Truth False, Value None, Done] = Some
      ([(ClockNow, Time now), (claim_cmd pr k, Truth False), (RedisGet k, Value None), (l, Done)],
       Inr (rejected_outcome DUPLICATE_PACKET (claim_detail IN_FLIGHT) (Some k) (Some (p_packet_id p))))"
    using assms(1,2) unfolding admissible_def fresh_at_def k_def
    by (simp add: pipeline_defs claim_cmd_def)
  then show ?thesis using replay_path by blast
qed

section \<open>From the claim on\<close>

context redis_service begin

lemma run_claim_in:
  "run (perform R) (claim d k) w =
     (Inr (fst (claim_in R d (w_redis w) (w_now w) k)), w \<lparr> w_redis := snd (claim_in R d (w_redis w) (w_now w) k) \<rparr>)"
  by (simp add: run_claim claim_in_simps split: prod.split bool.split)

lemma run_mark_in:
  "run (perform R) (mark_settled d k) w = (Inr (), w \<lparr> w_redis := settle_in R d (w_redis w) (w_now w) k \<rparr>)"
  by (simp add: run_mark_settled settle_in_def seq_world_def)

lemma run_release_in:
  "run (perform R) (release_claim d k) w = (Inr (), w \<lparr> w_redis := release_in R d (w_redis w) (w_now w) k \<rparr>)"
  by (simp add: run_release_claim release_in_def seq_world_def)

text \<open>The claim is won and the row goes in.\<close>

lemma run_settles:
  assumes "pr_dedupe pr = d" "opens_to pr p ins" "held_in R (w_redis w) (w_now w) k = None"
    and "insert_settlement (settlement_of p ins k) (w_now w) (w_tables w) = (Inr n, t)"
  shows "\<exists>w'. run (perform R) (claim_and_settle pr p k) w = (Inr (settled_outcome p k n), w')
    \<and> w_now w' = w_now w \<and> w_tables w' = t
    \<and> w_redis w' = settle_in R d (snd (claim_in R d (w_redis w) (w_now w) k)) (w_now w) k"
  using assms
  by (simp add: claim_and_settle_def run_bind run_claim_in claim_result with_claim_def run_try settle_claimed_def
      opens_to_def write_settlement_def insert_row_def committed_row_def run_mark_in)

text \<open>The claim is won but the unique constraints refuse the row.\<close>

lemma run_refused:
  assumes "pr_dedupe pr = d" "opens_to pr p ins" "held_in R (w_redis w) (w_now w) k = None"
    and "insert_settlement (settlement_of p ins k) (w_now w) (w_tables w) = (Inl IntegrityError, t)"
  shows "\<exists>w'. run (perform R) (claim_and_settle pr p k) w =
      (Inr (rejected_outcome DUPLICATE_PACKET ''packet was already settled'' (Some k) (Some (p_packet_id p))), w')
    \<and> w_now w' = w_now w \<and> w_tables w' = t
    \<and> w_redis w' = settle_in R d (snd (claim_in R d (w_redis w) (w_now w) k)) (w_now w) k"
  using assms
  by (simp add: claim_and_settle_def run_bind run_claim_in claim_result with_claim_def run_try settle_claimed_def
      opens_to_def write_settlement_def insert_row_def refused_row_def run_mark_in)

text \<open>The claim is lost: a log line, nothing else.\<close>

lemma run_lost:
  assumes "pr_dedupe pr = d" "held_in R (w_redis w) (w_now w) k = Some m"
  shows "\<exists>w'. run (perform R) (claim_and_settle pr p k) w =
      (Inr (rejected_outcome DUPLICATE_PACKET (claim_detail (if m = settled_marker then ALREADY_SETTLED else IN_FLIGHT))
            (Some k) (Some (p_packet_id p))), w')
    \<and> w_now w' = w_now w \<and> w_tables w' = w_tables w
    \<and> w_redis w' = snd (claim_in R d (w_redis w) (w_now w) k)"
  using assms by (simp add: claim_and_settle_def run_bind run_claim_in claim_result)

text \<open>The payload does not open: a rejection is recorded and the claim released.\<close>

lemma run_unopened:
  assumes "pr_dedupe pr = d" "held_in R (w_redis w) (w_now w) k = None"
    and "open_instruction (pr_validator pr) (pr_crypto pr) (pr_json_depth pr) p (pr_settlement_private_key pr) = Inl e"
  shows "\<exists>out w'. run (perform R) (claim_and_settle pr p k) w = (Inr out, w')
    \<and> \<not> settled out \<and> w_now w' = w_now w \<and> settlements (w_tables w') = settlements (w_tables w)
    \<and> w_redis w' = release_in R d (snd (claim_in R d (w_redis w) (w_now w) k)) (w_now w) k"
proof -
  define w1 where "w1 = w \<lparr> w_redis := snd (claim_in R d (w_redis w) (w_now w) k) \<rparr>"
  have claimed: "run (perform R) (claim_and_settle pr p k) w = run (perform R) (with_claim pr p k) w1"
    using assms(1,2) by (simp add: claim_and_settle_def run_bind run_claim_in claim_result w1_def)
  have reject: "\<exists>w'. run (perform R) (bindP (reject_after_claim pr code detail p k) (\<lambda>_. Ret out)) w1 = (Inr out, w')
    \<and> w_now w' = w_now w1 \<and> settlements (w_tables w') = settlements (w_tables w1)
    \<and> w_redis w' = release_in R d (w_redis w1) (w_now w1) k" for code detail out
    using assms(1) by (simp add: reject_after_claim_def run_bind run_release_in add_rejection_keeps)
  have handled: ?thesis if eq: "settle_claimed pr p k = bindP (reject_after_claim pr code detail p k) (\<lambda>_. Ret out)"
    and un: "\<not> settled out" for code detail out
  proof -
    obtain w' where w': "run (perform R) (settle_claimed pr p k) w1 = (Inr out, w')"
      "w_now w' = w_now w1" "settlements (w_tables w') = settlements (w_tables w1)"
      "w_redis w' = release_in R d (w_redis w1) (w_now w1) k"
      unfolding eq using reject [of code detail out] by blast
    then show ?thesis unfolding claimed using un by (simp add: with_claim_def run_try w1_def)
  qed
  consider (decryption) m where "e = DecryptionError m" | (malformed) "is_value_error e"
    | (other) "\<forall>m. e \<noteq> DecryptionError m" "\<not> is_value_error e" by blast
  then show ?thesis
  proof cases
    case decryption
    then show ?thesis using assms(3) by - (rule handled, simp add: settle_claimed_def, simp)
  next
    case malformed
    then show ?thesis
      using assms(3) by (cases e) (auto intro!: handled simp: settle_claimed_def Let_def)
  next
    case other
    then have "run (perform R) (with_claim pr p k) w1 =
      run (perform R) (bindP (release_claim (pr_dedupe pr) k) (\<lambda>_.
          bindP (log_event ''error'' ''settlement.internal_error''
                   [(''packet_id'', uuid_str (p_packet_id p)), (''idempotency_key'', k)]) (\<lambda>_.
          Ret (internal_error_outcome p k)))) w1"
      using assms(3) by (cases e) (simp_all add: with_claim_def run_try settle_claimed_def)
    then show ?thesis unfolding claimed using assms(1)
      by (simp add: run_bind run_release_in w1_def)
  qed
qed

end

end
