(* ===== verification/Reference.thy ===== *)
theory Reference
  imports Packet_Facts
begin

text \<open>
  A concrete validator and concrete primitives that satisfy every named hypothesis of the
  development, so that the theorems that assume one are applied to something.  They are
  readers of the program's own text and a transparent (insecure) scheme; nothing of the
  program's model depends on them.
\<close>

section \<open>Readers of the canonical texts\<close>

definition parse_uuid :: "string \<Rightarrow> uuid option" where
  "parse_uuid s =
     (case unhex (filter (\<lambda>c. c \<noteq> CHR ''-'') s) of
        Inl _ \<Rightarrow> None
      | Inr bs \<Rightarrow> if length bs = 16 then Some (of_nat (be_value 0 bs)) else None)"

definition parse_timestamp :: "string \<Rightarrow> datetime option" where
  "parse_timestamp s =
     (case (read_digits 0 (take 4 s), read_digits 0 (take 2 (drop 5 s)), read_digits 0 (take 2 (drop 8 s)),
            read_digits 0 (take 2 (drop 11 s)), read_digits 0 (take 2 (drop 14 s)),
            read_digits 0 (take 2 (drop 17 s)),
            if take 1 (drop 19 s) = ''.'' then read_digits 0 (take 6 (drop 20 s)) else Some 0) of
        (Some y, Some m, Some d, Some h, Some mi, Some sec, Some us) \<Rightarrow>
          Some (utc_datetime ((int (ymd_to_ord (y, m, d)) - 1) * us_per_day
            + int (h * 3600 + mi * 60 + sec) * us_per_second + int us))
      | _ \<Rightarrow> None)"

definition reference_pydantic :: pydantic where
  "reference_pydantic =
     \<lparr> pd_parse_json = (\<lambda>b. case json_loads 16 b of Inl _ \<Rightarrow> None | Inr j \<Rightarrow> Some j),
       pd_dump_json = (\<lambda>j. utf8_encode (json_text j)),
       pd_uuid = (\<lambda>m j. case j of JStr s \<Rightarrow> parse_uuid s | _ \<Rightarrow> None),
       pd_datetime = (\<lambda>m j. case j of JStr s \<Rightarrow> parse_timestamp s | _ \<Rightarrow> None),
       pd_int = (\<lambda>m j. case j of JInt n \<Rightarrow> Some n | _ \<Rightarrow> None),
       pd_msg = (\<lambda>e. ''invalid''),
       pd_exn_text = (\<lambda>e. ''validation error'') \<rparr>"

lemma hex_char_not_dash: "n < 16 \<Longrightarrow> hex_char n \<noteq> CHR ''-''"
  by (auto simp: hex_char_def char_of_nat_eq_iff)

lemma hexdigest_no_dash: "c \<in> set (hexdigest bs) \<Longrightarrow> c \<noteq> CHR ''-''"
  by (auto simp: hexdigest_def hex_byte_def less_mult_imp_div_less hex_char_not_dash hex_char_not_dash [symmetric])

lemma filter_hex: "filter (\<lambda>c. c \<noteq> CHR ''-'') (uuid_str u) = hexdigest (be_bytes 16 (unat u))"
proof -
  let ?h = "hexdigest (be_bytes 16 (unat u))"
  have id: "filter (\<lambda>c. c \<noteq> CHR ''-'') xs = xs" if "set xs \<subseteq> set ?h" for xs
    using that hexdigest_no_dash by (intro filter_True) blast
  have "take 8 ?h @ take 4 (drop 8 ?h) @ take 4 (drop 12 ?h) @ take 4 (drop 16 ?h) @ drop 20 ?h = ?h"
  proof -
    have rejoin: "take 4 (drop n x) @ drop (4 + n) x = drop n x" for n and x :: string
      by (metis append_take_drop_id drop_drop)
    have "take 4 (drop 16 ?h) @ drop 20 ?h = drop 16 ?h" using rejoin [of 16 ?h] by simp
    moreover have "take 4 (drop 12 ?h) @ drop 16 ?h = drop 12 ?h" using rejoin [of 12 ?h] by simp
    moreover have "take 4 (drop 8 ?h) @ drop 12 ?h = drop 8 ?h" using rejoin [of 8 ?h] by simp
    ultimately show ?thesis by simp
  qed
  moreover have "set (take n (drop m ?h)) \<subseteq> set ?h" "set (take n ?h) \<subseteq> set ?h" "set (drop n ?h) \<subseteq> set ?h" for n m
    by (meson in_set_takeD in_set_dropD subsetI)+
  ultimately show ?thesis
    by (simp add: uuid_str_def Let_def id)
qed

lemma parse_uuid_str: "parse_uuid (uuid_str u) = Some u"
proof -
  have "unat u < 256 ^ 16" using unsigned_less [of u, where 'a = nat] by simp
  then show ?thesis
    by (simp add: parse_uuid_def filter_hex unhex_hexdigest be_value_be_bytes)
qed

lemma timestamp_pieces:
  fixes r :: string
  assumes "length a = 4" "length b = 2" "length c = 2" "length d = 2" "length e = 2" "length f = 2"
  defines "s \<equiv> a @ ''-'' @ b @ ''-'' @ c @ ''T'' @ d @ '':'' @ e @ '':'' @ f @ r"
  shows "take 4 s = a" "take 2 (drop 5 s) = b" "take 2 (drop 8 s) = c" "take 2 (drop 11 s) = d"
    "take 2 (drop 14 s) = e" "take 2 (drop 17 s) = f" "drop 19 s = r" "drop 20 s = drop 1 r"
  using assms by simp_all

lemma parse_canonical_timestamp:
  assumes "valid_instant t"
  shows "parse_timestamp (canonical_timestamp t) = Some (utc_datetime t)"
proof -
  let ?day = "nat (t div us_per_day) + 1" and ?us = "nat (t mod us_per_day)"
  have pos: "(0 :: int) < us_per_day" by (simp add: us_per_day_def)
  have div: "0 \<le> t div us_per_day" "t div us_per_day < int max_ordinal"
    using instant_day [OF assms] by simp_all
  have mod: "0 \<le> t mod us_per_day" "t mod us_per_day < us_per_day" using pos by simp_all
  obtain y m d where ymd: "ord_to_ymd ?day = (y, m, d)" by (metis prod_cases3)
  have small: "y < 10 ^ 4" "m < 10 ^ 2" "d < 10 ^ 2"
    using ord_to_ymd_bounds [OF _ _ ymd] div by simp_all
  define s f where sf: "s = ?us div 1000000" "f = ?us mod 1000000"
  have us: "?us < 86400000000" using mod by (simp add: us_per_day_def)
  have less: "s < 86400" "f < 10 ^ 6" using us unfolding sf by (simp_all add: less_mult_imp_div_less)
  have clock: "s div 3600 < 10 ^ 2" "s div 60 mod 60 < 10 ^ 2" "s mod 60 < 10 ^ 2"
    using less by (simp_all add: less_mult_imp_div_less less_trans [OF mod_less_divisor])
  define r where "r = (if f = 0 then [] else ''.'' @ show_padded 6 f) @ ''+00:00''"
  have iso: "canonical_timestamp t = show_padded 4 y @ ''-'' @ show_padded 2 m @ ''-'' @ show_padded 2 d @ ''T''
      @ show_padded 2 (s div 3600) @ '':'' @ show_padded 2 (s div 60 mod 60) @ '':'' @ show_padded 2 (s mod 60) @ r"
    unfolding canonical_timestamp_def isoformat_utc_def Let_def ymd prod.case sf r_def by (rule refl)
  have frac: "(if take 1 r = ''.'' then read_digits 0 (take 6 (drop 1 r)) else Some 0) = Some f"
    using read_digits_show_padded [OF less(2)] by (simp add: r_def)
  note pieces = timestamp_pieces [OF length_show_padded length_show_padded length_show_padded
      length_show_padded length_show_padded length_show_padded, of y m d "s div 3600" "s div 60 mod 60" "s mod 60" r]
  have secs: "(s div 3600) * 3600 + (s div 60 mod 60) * 60 + s mod 60 = s" by (rule sixty_join)
  have whole: "int (s div 3600 * 3600 + s div 60 mod 60 * 60 + s mod 60) * us_per_second + int f = t mod us_per_day"
  proof -
    have "s * 1000000 + f = ?us" unfolding sf by (rule div_mult_mod_eq)
    then have "int s * 1000000 + int f = int ?us" by (metis of_nat_add of_nat_mult of_nat_numeral)
    then show ?thesis using mod(1) unfolding secs by (simp add: us_per_second_def)
  qed
  have ord: "int (ymd_to_ord (y, m, d)) - 1 = t div us_per_day"
    using ymd_to_ord_inverse [of ?day, unfolded ymd] div(1) by simp
  have "parse_timestamp (canonical_timestamp t) =
      Some (utc_datetime ((int (ymd_to_ord (y, m, d)) - 1) * us_per_day
        + int (s div 3600 * 3600 + s div 60 mod 60 * 60 + s mod 60) * us_per_second + int f))"
    unfolding parse_timestamp_def iso pieces
    by (simp only: frac prod.case option.case
        read_digits_show_padded [OF small(1)] read_digits_show_padded [OF small(2)]
        read_digits_show_padded [OF small(3)] read_digits_show_padded [OF clock(1)]
        read_digits_show_padded [OF clock(2)] read_digits_show_padded [OF clock(3)])
  also have "\<dots> = Some (utc_datetime (t div us_per_day * us_per_day + t mod us_per_day))"
    unfolding ord using whole by (simp only: add.assoc)
  finally show ?thesis by simp
qed

lemma reference_reads_scalars: "reads_scalars reference_pydantic"
  by (simp add: reads_scalars_def reference_pydantic_def parse_uuid_str parse_canonical_timestamp)

lemma reference_reads_documents: "reads_documents reference_pydantic"
  by (simp add: reads_documents_def reference_pydantic_def json_loads_json_text)

section \<open>A transparent scheme\<close>

text \<open>
  Signatures are two digests of key and message; a wrapped key carries the recipient's key
  behind the content key; a ciphertext carries its associated data, length first in unary.
\<close>

definition transparent_sign :: "bytes \<Rightarrow> bytes \<Rightarrow> bytes" where
  "transparent_sign k m = sha256 (k @ m) @ sha256 (m @ k)"

definition aad_prefix :: "bytes \<Rightarrow> bytes" where
  "aad_prefix a = replicate (length a) 1 @ [0] @ a"

definition reference_crypto :: crypto where
  "reference_crypto =
     \<lparr> load_pem_private_key = (\<lambda>b. Inl (ValueError ''unsupported'')),
       load_pem_public_key = (\<lambda>b. Inl (ValueError ''unsupported'')),
       key_type_name = (\<lambda>k. ''OtherKey''),
       ed25519_sign = transparent_sign,
       ed25519_public = (\<lambda>k. k),
       ed25519_verify = (\<lambda>k s m. if s = transparent_sign k m then None else Some InvalidSignature),
       rsa_public = (\<lambda>k. k),
       oaep_encrypt = (\<lambda>pk r ck. ck @ pk),
       oaep_decrypt = (\<lambda>sk b. if drop 32 b = sk then Inr (take 32 b) else Inl (ValueError ''decryption failed'')),
       gcm_encrypt = (\<lambda>ck n p a. aad_prefix a @ p),
       gcm_decrypt = (\<lambda>ck n b a.
          if take (length (aad_prefix a)) b = aad_prefix a then Inr (drop (length (aad_prefix a)) b)
          else Inl InvalidTag) \<rparr>"

lemma aad_prefix_eq:
  assumes "take (length (aad_prefix a')) (aad_prefix a @ p) = aad_prefix a'"
  shows "a' = a"
proof -
  from assms obtain q where q: "aad_prefix a @ p = aad_prefix a' @ q" by (metis append_take_drop_id)
  have ones: "takeWhile (\<lambda>b. b = 1) (aad_prefix x @ y) = replicate (length x) 1" for x y
    by (simp add: aad_prefix_def takeWhile_append)
  have "length a = length a'" using arg_cong [OF q, of "\<lambda>x. length (takeWhile (\<lambda>b. b = 1) x)"] by (simp add: ones)
  with q show ?thesis by (simp add: aad_prefix_def)
qed

lemma reference_signs_correctly: "signs_correctly reference_crypto"
  by (simp add: signs_correctly_def reference_crypto_def transparent_sign_def length_sha256)

lemma reference_seals_correctly: "seals_correctly reference_crypto"
  by (auto simp: seals_correctly_def reference_crypto_def aad_prefix_def)

lemma reference_authenticates_aad: "authenticates_aad reference_crypto"
  unfolding authenticates_aad_def reference_crypto_def crypto.simps using aad_prefix_eq by metis

end
