(* ===== verification/Examples.thy ===== *)
theory Examples
  imports Settlement_Run Reference
begin

text \<open>
  A concrete instruction, packet, message and processor over the reference validator and
  primitives, for the theorems that are applied to something.  The packet is the one
  \<open>create\<close> builds; what it satisfies follows from the theorems about \<open>create\<close>.
\<close>

section \<open>A packet\<close>

definition ex_now :: instant where "ex_now = 63000000000000000"

definition ex_instruction :: instruction where
  "ex_instruction =
     \<lparr> i_packet_id = 42, i_payer_id = ''alice'', i_payee_id = ''bob'', i_amount_minor = 2500,
       i_currency = ''INR'', i_created_at = ex_now \<rparr>"

definition ex_fresh :: fresh where
  "ex_fresh = \<lparr> fr_content_key = replicate 32 7, fr_nonce = replicate 12 9, fr_oaep_seed = [] \<rparr>"

definition ex_create :: "exn + packet" where
  "ex_create = create reference_pydantic reference_crypto ex_fresh ex_instruction ''sender-1'' [1]
     (rsa_public reference_crypto [2]) (utc_datetime ex_now)"

definition ex_packet :: packet where "ex_packet = projr ex_create"

definition ex_raw :: bytes where "ex_raw = packet_to_json_bytes reference_pydantic ex_packet"

definition ex_processor :: processor where
  "ex_processor = new_processor reference_pydantic reference_crypto 16 default_settings default_dedupe
     (ed25519_public reference_crypto [1]) [2] None None"

lemma ex_valid_now: "valid_instant ex_now"
  by (simp add: valid_instant_def ex_now_def max_ordinal_def us_per_day_def)

lemma ex_fresh_ok: "fresh_ok ex_fresh"
  by (simp add: fresh_ok_def ex_fresh_def aes_key_bytes_def aes_key_bits_def gcm_nonce_bytes_def)

lemma ex_identifiers:
  "identifier_pattern ''sender-1''" "identifier_pattern ''alice''" "identifier_pattern ''bob''"
  "identifier_pattern ''relay-1''"
  by (simp_all add: identifier_pattern_def identifier_char_def)

lemma ex_instruction_wf: "wf_instruction ex_instruction"
  by (simp add: wf_instruction_def ex_instruction_def ex_identifiers ex_valid_now max_amount_minor_def
      currency_pattern_def upper_char_def)

lemma ex_created: "ex_create = Inr ex_packet"
  using create_succeeds [OF reference_signs_correctly reference_seals_correctly ex_fresh_ok ex_identifiers(1)
      normalize_utc_datetime [OF ex_valid_now], of reference_pydantic ex_instruction "[1]" "[2]"]
  unfolding ex_packet_def ex_create_def by force

lemmas ex_created_create = ex_created [unfolded ex_create_def]

lemma ex_packet_wf: "wf_packet ex_packet"
  by (rule create_Inr(7) [OF ex_created_create])

lemma ex_packet_fields:
  "p_packet_id ex_packet = 42" "p_sender_id ex_packet = ''sender-1''" "p_hops ex_packet = []"
  "p_created_at ex_packet = ex_now"
  using create_Inr(1-4) [OF ex_created_create] ex_valid_now by (simp_all add: ex_instruction_def)

lemma ex_parsed: "packet_of_json_bytes reference_pydantic ex_raw = Inr ex_packet"
  unfolding ex_raw_def
  by (rule packet_wire [OF reference_reads_scalars reference_reads_documents ex_packet_wf])

lemma ex_processor_simps [simp]:
  "pr_validator ex_processor = reference_pydantic" "pr_crypto ex_processor = reference_crypto"
  "pr_json_depth ex_processor = 16" "pr_dedupe ex_processor = default_dedupe"
  "pr_settlement_private_key ex_processor = [2]"
  "pr_sender_public_key ex_processor = ed25519_public reference_crypto [1]"
  "pr_freshness_window ex_processor = 86400" "pr_clock_skew ex_processor = 300"
  by (simp_all add: ex_processor_def new_processor_def default_settings_def)

lemma ex_admissible: "admissible ex_processor ex_packet ex_now"
  using create_verifies [OF ex_created_create reference_signs_correctly] create_aad [OF ex_created_create]
  by (simp add: admissible_def fresh_at_def ex_packet_fields us_per_second_def)

lemma ex_opens: "opens_to ex_processor ex_packet ex_instruction"
  unfolding opens_to_def ex_processor_simps
  by (rule create_opens [OF ex_created_create reference_seals_correctly ex_fresh_ok
        reference_reads_scalars ex_instruction_wf]) simp

lemmas ex_parsed_by = ex_parsed [folded ex_processor_simps(1)]

section \<open>A packet that carries another packet's payload\<close>

text \<open>
  The sealed parts of the example under another packet id, with the associated data of the new
  header and a signature of the sender's own key.
\<close>

definition ex_reheadered :: packet where
  "ex_reheadered = (let q = ex_packet \<lparr> p_packet_id := 7 \<rparr> in
     q \<lparr> p_envelope := (p_envelope q) \<lparr> e_aad := expected_aad q \<rparr> \<rparr>)"

definition ex_moved :: packet where
  "ex_moved = ex_reheadered \<lparr> p_signature := sign_bytes reference_crypto (signing_bytes ex_reheadered) [1] \<rparr>"

definition ex_moved_raw :: bytes where "ex_moved_raw = packet_to_json_bytes reference_pydantic ex_moved"

lemma ex_moved_fields:
  "p_packet_id ex_moved = 7" "p_sender_id ex_moved = p_sender_id ex_packet"
  "p_created_at ex_moved = ex_now"
  "e_encrypted_key (p_envelope ex_moved) = e_encrypted_key (p_envelope ex_packet)"
  "e_nonce (p_envelope ex_moved) = e_nonce (p_envelope ex_packet)"
  "e_ciphertext (p_envelope ex_moved) = e_ciphertext (p_envelope ex_packet)"
  "e_aad (p_envelope ex_moved) = expected_aad ex_moved"
  "signing_bytes ex_moved = signing_bytes ex_reheadered"
  by (simp_all add: ex_moved_def ex_reheadered_def Let_def expected_aad_def signing_bytes_def ex_packet_fields)

lemma ex_moved_verifies: "verify reference_crypto ex_moved (ed25519_public reference_crypto [1]) = None"
  unfolding verify_def ex_moved_fields(8) using verify_sign [OF reference_signs_correctly] by (simp add: ex_moved_def)

lemma ex_moved_parsed: "packet_of_json_bytes reference_pydantic ex_moved_raw = Inr ex_moved"
proof -
  have "length (p_signature ex_moved) = 64"
    using reference_signs_correctly by (simp add: ex_moved_def sign_bytes_def signs_correctly_def)
  moreover have "e_aad (p_envelope ex_moved) \<noteq> []" by (simp add: ex_moved_fields(7) expected_aad_nonempty)
  ultimately have "wf_packet ex_moved"
    using ex_packet_wf by (simp add: wf_packet_def wf_envelope_def ex_moved_fields)
      (simp add: ex_moved_def ex_reheadered_def Let_def ex_packet_fields ex_valid_now)
  then show ?thesis unfolding ex_moved_raw_def by (rule packet_wire [OF reference_reads_scalars reference_reads_documents])
qed

lemma ex_moved_admissible: "admissible ex_processor ex_moved ex_now"
  using ex_moved_verifies by (simp add: admissible_def fresh_at_def ex_moved_fields(3,7) us_per_second_def)

end
