(* ===== verification/Provision.thy ===== *)
theory Provision
  imports Config Effects
begin

text \<open>
  \<^verbatim>\<open>shared/keygen.py\<close> and \<^verbatim>\<open>scripts/bootstrap_env.py\<close>: flattening a PEM to
  one line, the lines they print or write, and the refusal to overwrite.  Generating keys and
  passwords is the libraries'; they are arguments.  Output and files are lists of lines.
\<close>

section \<open>Keys\<close>

record key_material =
  km_signing_private :: string
  km_signing_public :: string
  km_rsa_private :: string
  km_rsa_public :: string

text \<open>\<^verbatim>\<open>text.replace("\n", "\\n")\<close>.\<close>

fun escape_newlines :: "string \<Rightarrow> string" where
  "escape_newlines [] = []"
| "escape_newlines (c # cs) =
     (if c = CHR 0x0A then CHR 0x5C # CHR ''n'' # escape_newlines cs else c # escape_newlines cs)"

definition escape_pem :: "string \<Rightarrow> string" where
  "escape_pem pem = escape_newlines (py_strip pem)"

definition quoted :: "string \<Rightarrow> string" where
  "quoted s = [CHR 0x22] @ s @ [CHR 0x22]"

definition key_pairs :: "key_material \<Rightarrow> (string \<times> string) list" where
  "key_pairs k =
     [(''SENDER_SIGNING_PRIVATE_KEY_PEM'', km_signing_private k),
      (''SENDER_SIGNING_PUBLIC_KEY_PEM'', km_signing_public k),
      (''SETTLEMENT_RSA_PRIVATE_KEY_PEM'', km_rsa_private k),
      (''SETTLEMENT_RSA_PUBLIC_KEY_PEM'', km_rsa_public k)]"

definition em_dash :: string where "em_dash = [CHR 0xE2, CHR 0x80, CHR 0x94]"

definition keygen_main :: "bool \<Rightarrow> key_material \<Rightarrow> string list \<times> int" where
  "keygen_main pem k =
     ([''# MeshSettle generated keys '' @ em_dash @ '' treat the PRIVATE values as secrets.'',
       ''# Copy into .env (gitignored) or your secret manager. Generate once only.'', '''']
      @ concat (map (\<lambda>(name, v).
          if pem then [''# --- '' @ name @ '' ---'', py_strip v, '''']
          else [name @ ''='' @ quoted (escape_pem v)]) (key_pairs k)), 0)"

section \<open>Environment files\<close>

record passwords =
  pw_postgres :: string
  pw_rabbitmq :: string

definition env_head :: "passwords \<Rightarrow> string list" where
  "env_head pw =
     [''# MeshSettle local environment. Generated by scripts/bootstrap_env.py.'',
      ''# Gitignored. Contains real private keys. Never commit, never share.'',
      '''',
      ''# --- Postgres ---'',
      ''POSTGRES_USER=meshsettle'',
      ''POSTGRES_PASSWORD='' @ pw_postgres pw,
      ''POSTGRES_DB=meshsettle'',
      ''# Host/port for running services directly on your machine. docker-compose.yml'',
      ''# overrides these with the compose service names.'',
      ''POSTGRES_HOST=localhost'',
      ''POSTGRES_PORT=5432'',
      '''',
      ''# --- Redis (dedupe store) ---'',
      ''REDIS_URL=redis://localhost:6379/0'',
      ''DEDUPE_TTL_SECONDS=86400'',
      ''DEDUPE_CLAIM_TTL_SECONDS=60'',
      '''',
      ''# --- Freshness window (replay defense) ---'',
      ''# How old a packet may be and still settle, and how far ahead its timestamp may'',
      ''# be. See ARCHITECTURE.md '' @ quoted ''Why a freshness window is needed'' @ ''.'',
      ''FRESHNESS_WINDOW_SECONDS=86400'',
      ''CLOCK_SKEW_TOLERANCE_SECONDS=300'',
      '''',
      ''# --- RabbitMQ ---'',
      ''RABBITMQ_USER=meshsettle'',
      ''RABBITMQ_PASSWORD='' @ pw_rabbitmq pw,
      ''RABBITMQ_HOST=localhost'',
      ''RABBITMQ_PORT=5672'',
      ''SETTLEMENT_QUEUE=meshsettle.settlements'',
      '''',
      ''# --- Crypto keys (generated once; regenerating invalidates old signatures) ---'']"

definition env_tail :: "string list" where
  "env_tail =
     ['''',
      ''# --- Mesh simulation ---'',
      ''MESH_HOP_COUNT=2'',
      ''MESH_HOP_LIMIT=16'',
      ''MESH_NODE_ID=relay-1'',
      ''MESH_RELAY_URL=http://localhost:8002'',
      ''BRIDGE_URL=http://localhost:8003'',
      ''MESH_FORWARD_TIMEOUT_SECONDS=5.0'',
      '''',
      ''# --- Rate limiting ---'',
      ''RATE_LIMIT_PER_MINUTE=60'',
      '''',
      ''# --- Logging ---'',
      ''LOG_LEVEL=INFO'']"

definition env_lines :: "passwords \<Rightarrow> key_material \<Rightarrow> string list" where
  "env_lines pw k =
     env_head pw @ map (\<lambda>(name, pem). name @ ''='' @ quoted (escape_pem pem)) (key_pairs k) @ env_tail"

definition infra_lines :: "passwords \<Rightarrow> string list" where
  "infra_lines pw =
     [''# MeshSettle infrastructure credentials. Generated by scripts/bootstrap_env.py.'',
      ''# Gitignored. Only what the Postgres and RabbitMQ images need to initialize;'',
      ''# no private keys belong in here.'',
      ''#'',
      ''# These MUST match the corresponding values in .env. Both files are written'',
      ''# together so they cannot drift.'',
      '''',
      ''POSTGRES_USER=meshsettle'',
      ''POSTGRES_PASSWORD='' @ pw_postgres pw,
      ''POSTGRES_DB=meshsettle'',
      '''',
      ''RABBITMQ_DEFAULT_USER=meshsettle'',
      ''RABBITMQ_DEFAULT_PASS='' @ pw_rabbitmq pw]"

section \<open>Writing the files\<close>

datatype os_cmd =
    PathExists string
  | WriteText string "string list"
  | Chmod string int
  | Print string

datatype os_reply = Exists bool | OsDone | OsFailed exn

type_synonym 'a script = "(os_cmd, os_reply, 'a) prog"

definition os :: "os_cmd \<Rightarrow> (os_reply \<Rightarrow> 'a script) \<Rightarrow> 'a script" where
  "os c f = Do c (\<lambda>r. case r of OsFailed e \<Rightarrow> Raise e | _ \<Rightarrow> f r)"

definition env_path :: string where "env_path = ''.env''"
definition env_infra_path :: string where "env_infra_path = ''.env.infra''"

fun join_names :: "string list \<Rightarrow> string" where
  "join_names [] = []"
| "join_names [x] = x"
| "join_names (x # y # ys) = x @ '', '' @ join_names (y # ys)"

definition refusal :: "string list \<Rightarrow> string" where
  "refusal existing = ''refusing to overwrite existing '' @ join_names existing @ ''; pass --force to regenerate''"

definition written :: "string list" where
  "written = [''wrote '' @ env_path @ '' and '' @ env_infra_path @ '' (mode 600)'',
     ''credentials match across both files; keys will persist across restarts'']"

text \<open>The files are rendered by \<open>build_files\<close>, an argument, before the first one is written.\<close>

definition bootstrap_main :: "bool \<Rightarrow> exn + (string list \<times> string list) \<Rightarrow> int script" where
  "bootstrap_main force built =
     os (PathExists env_path) (\<lambda>a.
     os (PathExists env_infra_path) (\<lambda>b.
     let existing = (if a = Exists True then [env_path] else []) @ (if b = Exists True then [env_infra_path] else []) in
     if existing \<noteq> [] \<and> \<not> force then
       os (Print (refusal existing)) (\<lambda>_. Ret 1)
     else
       (case built of
          Inl e \<Rightarrow> Raise e
        | Inr (env, infra) \<Rightarrow>
            os (WriteText env_path env) (\<lambda>_.
            os (WriteText env_infra_path infra) (\<lambda>_.
            os (Chmod env_path 384) (\<lambda>_.
            os (Chmod env_infra_path 384) (\<lambda>_.
            os (Print (written ! 0)) (\<lambda>_.
            os (Print (written ! 1)) (\<lambda>_. Ret 0)))))))))"

text \<open>
  A file system: lines and mode of each path.  A new file gets mode 644, the default; an existing
  one keeps its mode.
\<close>

type_synonym files = "string \<Rightarrow> (string list \<times> int) option"

fun os_exec :: "os_cmd \<Rightarrow> files \<Rightarrow> os_reply \<times> files" where
  "os_exec (PathExists p) fs = (Exists (fs p \<noteq> None), fs)"
| "os_exec (WriteText p ls) fs = (OsDone, fs(p \<mapsto> (ls, case fs p of None \<Rightarrow> 420 | Some f \<Rightarrow> snd f)))"
| "os_exec (Chmod p m) fs = (OsDone, fs(p := map_option (\<lambda>f. (fst f, m)) (fs p)))"
| "os_exec (Print line) fs = (OsDone, fs)"

lemma run_os: "run os_exec (os c f) fs = run os_exec (f (fst (os_exec c fs))) (snd (os_exec c fs))"
  by (cases c) (simp_all add: os_def)

lemma env_paths_differ [simp]: "env_path \<noteq> env_infra_path" "env_infra_path \<noteq> env_path"
  by (simp_all add: env_path_def env_infra_path_def)

lemma chmod_both:
  "fs(env_path \<mapsto> (a, m), env_infra_path \<mapsto> (b, n), env_path := Some (a, 384), env_infra_path := Some (b, 384))
    = fs(env_path \<mapsto> (a, 384), env_infra_path \<mapsto> (b, 384))"
  by (simp add: fun_upd_twist)

lemma run_bootstrap:
  "run os_exec (bootstrap_main force built) fs =
     (if (fs env_path \<noteq> None \<or> fs env_infra_path \<noteq> None) \<and> \<not> force then (Inr 1, fs)
      else case built of
        Inl e \<Rightarrow> (Inl e, fs)
      | Inr (env, infra) \<Rightarrow> (Inr 0, fs(env_path \<mapsto> (env, 384), env_infra_path \<mapsto> (infra, 384))))"
  by (cases "fs env_path"; cases "fs env_infra_path"; cases force; cases built)
    (simp_all add: bootstrap_main_def run_os Let_def chmod_both split: prod.split)

text \<open>Between the writes and the mode changes the keys have the default mode; a failed second write leaves them so.\<close>

lemma bootstrap_exposes:
  "path (bootstrap_main True (Inr (env, infra)))
     [(PathExists env_path, Exists False), (PathExists env_infra_path, Exists False),
      (WriteText env_path env, OsDone), (WriteText env_infra_path infra, OsFailed e)] (Inl e)"
  by (simp add: bootstrap_main_def os_def Let_def path_Do_iff)

section \<open>Flattening and loading\<close>

lemma prefix_of_drop_spaces: "\<exists>n. drop_spaces sps m s = drop n s"
proof (induction m arbitrary: s)
  case 0
  then show ?case by (intro exI [of _ 0]) simp
next
  case (Suc m)
  show ?case
  proof (cases "find (\<lambda>p. take (length p) s = p) sps")
    case None
    then show ?thesis by (intro exI [of _ 0]) simp
  next
    case (Some p)
    obtain n where "drop_spaces sps m (drop (length p) s) = drop n (drop (length p) s)" using Suc by blast
    with Some show ?thesis by (intro exI [of _ "n + length p"]) simp
  qed
qed

lemma take_within: "take (length p) (take n l) = p \<Longrightarrow> take (length p) l = p"
proof -
  assume eq: "take (length p) (take n l) = p"
  have "length (take (length p) (take n l)) \<le> n" by simp
  then have "length p \<le> n" by (simp only: eq)
  with eq show ?thesis by (simp add: min.absorb1)
qed

lemma py_strip_start: "p \<in> set py_spaces \<Longrightarrow> take (length p) (py_strip s) \<noteq> p"
proof
  assume p: "p \<in> set py_spaces" and eq: "take (length p) (py_strip s) = p"
  define l where "l = drop_spaces py_spaces (length s) s"
  obtain n where "drop_spaces (map rev py_spaces) (length l) (rev l) = drop n (rev l)"
    using prefix_of_drop_spaces by blast
  then have r: "py_strip s = take (length l - n) l" by (simp add: py_strip_def Let_def l_def rev_drop)
  then have "take (length p) l = p"
    using eq take_within by simp
  moreover have "\<forall>p \<in> set py_spaces. take (length p) l \<noteq> p"
    unfolding l_def by (rule drop_spaces_stuck [OF py_spaces_nonempty(1)]) simp
  ultimately show False using p by blast
qed

lemma py_strip_idem: "py_strip (py_strip s) = py_strip s"
proof -
  define t where "t = py_strip s"
  have start: "drop_spaces py_spaces n t = t" for n
    by (rule drop_spaces_done) (simp add: t_def py_strip_start)
  have "\<forall>q \<in> set (map rev py_spaces). take (length q) (rev t) \<noteq> q"
    using py_strip_end unfolding t_def by auto
  then have "drop_spaces (map rev py_spaces) (length t) (rev t) = rev t" by (rule drop_spaces_done)
  then show ?thesis unfolding t_def [symmetric] by (simp add: py_strip_def Let_def start)
qed

lemma set_py_strip: "set (py_strip s) \<subseteq> set s"
proof -
  define l where "l = drop_spaces py_spaces (length s) s"
  obtain m n where "l = drop m s" "drop_spaces (map rev py_spaces) (length l) (rev l) = drop n (rev l)"
    unfolding l_def using prefix_of_drop_spaces by blast
  then have "py_strip s = rev (drop n (rev (drop m s)))" by (simp add: py_strip_def Let_def l_def)
  moreover have "set (rev (drop n (rev (drop m s)))) \<subseteq> set s"
    by (metis set_drop_subset set_rev subset_trans)
  ultimately show ?thesis by simp
qed

lemma unescape_escape: "CHR 0x5C \<notin> set s \<Longrightarrow> unescape_newlines (escape_newlines s) = s"
proof (induction s)
  case (Cons c s)
  show ?case
  proof (cases "c = CHR 0x0A")
    case False
    then show ?thesis using Cons by (cases "escape_newlines s") auto
  qed (use Cons in simp)
qed simp

lemma unescape_plain: "CHR 0x5C \<notin> set s \<Longrightarrow> unescape_newlines s = s"
  by (induction s rule: unescape_newlines.induct) auto

lemma escape_newlines_flat: "CHR 0x0A \<notin> set (escape_newlines s)"
  by (induction s) auto

lemma normalize_escape:
  assumes "CHR 0x5C \<notin> set pem" "py_strip pem \<noteq> []"
  shows "normalize_pem (escape_pem pem) = py_strip pem @ [CHR 0x0A]"
proof -
  have "CHR 0x5C \<notin> set (py_strip pem)" using assms(1) set_py_strip by blast
  moreover have "escape_newlines (py_strip pem) \<noteq> []" using assms(2) by (cases "py_strip pem") auto
  ultimately show ?thesis by (simp add: normalize_pem_def escape_pem_def unescape_escape py_strip_idem)
qed

lemma normalize_plain:
  assumes "CHR 0x5C \<notin> set pem" "pem \<noteq> []"
  shows "normalize_pem pem = py_strip pem @ [CHR 0x0A]"
  using assms by (simp add: normalize_pem_def unescape_plain)

end
