(* ===== verification/Wire_Properties.thy ===== *)
theory Wire_Properties
  imports Examples Provision Model_Facts
begin

text \<open>
  Properties of the packet itself: encodings and round trips, what the signature and the key
  cover, what the sender makes and settlement opens, and which errors leave a parser; also the
  log redaction and the key files.
\<close>

section \<open>Encodings\<close>

text \<open>C36. A packet survives the wire: parsing the JSON a node dumped gives back the same packet, hops
  included, so re-serialising a packet at each hop loses nothing.\<close>

theorem packet_survives_the_wire:
  assumes "reads_scalars pd" and "reads_documents pd" and "wf_packet p"
  shows "packet_of_json_bytes pd (packet_to_json_bytes pd p) = Inr p"
  using assms by (rule packet_wire)

theorem packet_survives_the_wire_witness:
  "packet_of_json_bytes reference_pydantic (packet_to_json_bytes reference_pydantic ex_packet) = Inr ex_packet"
  by (rule packet_survives_the_wire [OF reference_reads_scalars reference_reads_documents ex_packet_wf])

text \<open>An instruction survives sealing: the canonical bytes that are encrypted parse back to the same
  instruction.\<close>

lemma instruction_survives_sealing:
  assumes "reads_scalars pd" and "wf_instruction i" and "1 \<le> limit"
  shows "from_canonical_bytes pd limit (to_canonical_bytes i) = Inr i"
  using assms by (rule instruction_plaintext)

lemma instruction_survives_sealing_witness:
  "from_canonical_bytes reference_pydantic 16 (to_canonical_bytes ex_instruction) = Inr ex_instruction"
  by (rule instruction_survives_sealing [OF reference_reads_scalars ex_instruction_wf]) simp

text \<open>C37. Canonical JSON is canonical: two flat payloads have the same bytes exactly when they map the
  same keys to the same values, in whatever order they were built.\<close>

theorem canonical_json_is_canonical:
  assumes "flat_payload p" and "flat_payload q"
  shows "canonical_json p = canonical_json q \<longleftrightarrow> map_of p = map_of q"
  using assms by (rule canonical_json_fields)

theorem canonical_json_is_canonical_witness:
  "canonical_json [(''packet_id'', JStr ''a''), (''sender_id'', JStr ''b'')]
     \<noteq> canonical_json [(''packet_id'', JStr ''ab''), (''sender_id'', JStr '''')]"
proof
  assume "canonical_json [(''packet_id'', JStr ''a''), (''sender_id'', JStr ''b'')]
    = canonical_json [(''packet_id'', JStr ''ab''), (''sender_id'', JStr '''')]"
  then have "map_of [(''packet_id'', JStr ''a''), (''sender_id'', JStr ''b'')] ''packet_id''
    = map_of [(''packet_id'', JStr ''ab''), (''sender_id'', JStr '''')] ''packet_id''"
    unfolding canonical_json_is_canonical [OF flat_aad flat_aad] by simp
  then show False by simp
qed

text \<open>The JSON parser ends on every text: it gives a document, a \<^verbatim>\<open>ValueError\<close> or a
  \<^verbatim>\<open>RecursionError\<close>, and never runs out of the fuel its definition carries.\<close>

lemma json_parser_ends:
  "(\<exists>j. json_loads limit raw = Inr j)
   \<or> (\<exists>e. json_loads limit raw = Inl e \<and> (is_value_error e \<or> e = RecursionError) \<and> e \<noteq> out_of_fuel)"
proof (cases "json_loads limit raw")
  case (Inl e)
  moreover from this have "is_value_error e \<or> e = RecursionError" by (rule json_loads_error)
  moreover from this have "e \<noteq> out_of_fuel" by (auto simp: out_of_fuel_def is_value_error_def)
  ultimately show ?thesis by blast
qed simp

section \<open>What is signed\<close>

text \<open>C18. The signed region is unambiguous: two packets have the same signing bytes exactly when they
  agree on everything but the signature and the hops, so a signature covers every other field.\<close>

theorem signature_covers_the_packet:
  assumes "wf_packet p" and "wf_packet q"
  shows "signing_bytes p = signing_bytes q
    \<longleftrightarrow> p \<lparr> p_signature := [], p_hops := [] \<rparr> = q \<lparr> p_signature := [], p_hops := [] \<rparr>"
  using assms by (rule signing_bytes_eq_iff)

theorem signature_covers_the_packet_witness:
  "signing_bytes (ex_packet \<lparr> p_sender_id := ''alice'' \<rparr>) \<noteq> signing_bytes ex_packet"
proof -
  have "wf_packet (ex_packet \<lparr> p_sender_id := ''alice'' \<rparr>)"
    using ex_packet_wf by (simp add: wf_packet_def ex_identifiers)
  note iff = signature_covers_the_packet [OF this ex_packet_wf]
  have "p_sender_id (ex_packet \<lparr> p_sender_id := ''alice'', p_signature := [], p_hops := [] \<rparr>)
      \<noteq> p_sender_id (ex_packet \<lparr> p_signature := [], p_hops := [] \<rparr>)"
    by (simp add: ex_packet_fields)
  then show ?thesis unfolding iff by (metis packet.update_convs(2))
qed

text \<open>A hop changes neither who signed a packet nor what it pays: after any hop the packet verifies
  as before, has the same idempotency key and opens to the same instruction.\<close>

lemma hops_change_nothing_signed:
  "verify c (append_hop p h) k = verify c p k \<and> idempotency_key (append_hop p h) = idempotency_key p
   \<and> open_instruction pd c limit (append_hop p h) k' = open_instruction pd c limit p k'
   \<and> hop_count (append_hop p h) = hop_count p + 1"
  by simp

text \<open>An idempotency key always fits its column: it is 71 ASCII characters without NUL, within the
  80 the database allows.\<close>

lemma key_fits_its_column:
  "length (idempotency_key p) = 71 \<and> fits 80 (idempotency_key p)"
  by (simp add: idempotency_key_def length_idempotency_key key_fits)

section \<open>What the sender makes and settlement accepts\<close>

text \<open>C19. The sender's packet is accepted: a packet built from a valid instruction verifies under the
  sender's public key, carries the associated data its header asks for, and opens under
  settlement's private key to the very instruction it was built from.\<close>

theorem created_packet_is_accepted:
  assumes "create pd c fr ins sender sk (rsa_public c rk) created = Inr p"
    and "signs_correctly c" and "seals_correctly c" and "fresh_ok fr"
    and "reads_scalars pd'" and "wf_instruction ins" and "1 \<le> limit"
  shows "verify c p (ed25519_public c sk) = None \<and> e_aad (p_envelope p) = expected_aad p
    \<and> open_instruction pd' c limit p rk = Inr ins \<and> wf_packet p \<and> p_hops p = []"
  using create_verifies [OF assms(1,2)] create_aad [OF assms(1)] create_opens [OF assms(1,3,4,5,6,7)]
    create_Inr(4,7) [OF assms(1)] by simp

theorem created_packet_is_accepted_witness:
  "open_instruction reference_pydantic reference_crypto 16 ex_packet [2] = Inr ex_instruction"
  using created_packet_is_accepted [OF ex_created_create reference_signs_correctly reference_seals_correctly
      ex_fresh_ok reference_reads_scalars ex_instruction_wf, of 16] by simp

text \<open>C38. Whatever a message parses to is a well-formed packet: patterns, sizes and ranges hold, and every
  hop is valid.\<close>

theorem parsed_packet_is_well_formed:
  assumes "packet_of_json_bytes pd raw = Inr p"
  shows "wf_packet p"
  using assms by (rule packet_of_json_bytes_wf)

theorem parsed_packet_is_well_formed_witness: "wf_packet ex_packet \<and> length (p_signature ex_packet) = 64"
  using parsed_packet_is_well_formed [OF ex_parsed] by (simp add: wf_packet_def)

text \<open>C39. Opening fails only in known ways: a decryption error, a \<^verbatim>\<open>ValueError\<close> (which settlement
  reports as malformed), or one of two exceptions that settlement does not expect, a
  \<^verbatim>\<open>RecursionError\<close> of the JSON parser and an \<^verbatim>\<open>OverflowError\<close> of the time
  conversion.\<close>

theorem opening_fails_in_known_ways:
  assumes "open_instruction pd c limit p k = Inl e"
  shows "(\<exists>m. e = DecryptionError m) \<or> is_value_error e \<or> e = RecursionError
    \<or> e = OverflowError ''date value out of range''"
  using open_instruction_error [OF assms] by (simp add: escaping_error_def)

theorem opening_fails_in_known_ways_witness:
  "\<exists>e. open_instruction reference_pydantic reference_crypto 16
      (ex_packet \<lparr> p_envelope := (p_envelope ex_packet) \<lparr> e_encrypted_key := [] \<rparr> \<rparr>) [2] = Inl e
    \<and> ((\<exists>m. e = DecryptionError m) \<or> is_value_error e \<or> e = RecursionError
       \<or> e = OverflowError ''date value out of range'')"
proof -
  have "\<exists>e. open_instruction reference_pydantic reference_crypto 16
      (ex_packet \<lparr> p_envelope := (p_envelope ex_packet) \<lparr> e_encrypted_key := [] \<rparr> \<rparr>) [2] = Inl e"
    by (simp add: open_instruction_def decrypt_payload_def reference_crypto_def sum_bind_def)
  then show ?thesis using opening_fails_in_known_ways by blast
qed

section \<open>Log and key files\<close>

text \<open>No secret reaches the log: after redaction every field whose name contains one of the markers
  holds the placeholder, and every other field is as it was.\<close>

lemma secrets_are_redacted:
  assumes "m \<in> set redact_key_markers" and "map lower_char k = xs @ m @ ys" and "map_of ev k = Some v"
  shows "map_of (redact_secrets ev) k = Some redacted"
proof -
  have "secret_key k"
    using assms(1,2) contains_append [of m xs ys] by (auto simp: secret_key_def list_ex_iff)
  then show ?thesis using assms(3) by (simp add: map_of_redact)
qed

lemma secrets_are_redacted_witness:
  "map_of (redact_secrets [(''queue'', ''q''), (''RABBITMQ_PASSWORD'', ''hunter2'')]) ''RABBITMQ_PASSWORD'' = Some redacted"
  by (rule secrets_are_redacted [of "''password''" _ "''rabbitmq_''" "[]"])
    (simp add: redact_key_markers_def, code_simp, simp)

text \<open>A key survives the environment file: flattened to one line by the generator and normalised by
  the loader, a PEM without backslashes is what loading it directly would give.\<close>

lemma pem_survives_the_env_file:
  assumes "CHR 0x5C \<notin> set pem" and "py_strip pem \<noteq> []"
  shows "normalize_pem (escape_pem pem) = normalize_pem pem \<and> CHR 0x0A \<notin> set (escape_pem pem)"
proof -
  have "pem \<noteq> []" using assms(2) by (auto simp: py_strip_def)
  with assms show ?thesis
    by (simp add: normalize_escape normalize_plain) (simp add: escape_pem_def escape_newlines_flat)
qed

lemma pem_survives_the_env_file_witness:
  "normalize_pem (escape_pem (''KEY'' @ [CHR 0x0A] @ ''abc'' @ [CHR 0x0A])) = ''KEY'' @ [CHR 0x0A] @ ''abc'' @ [CHR 0x0A]"
proof -
  have "py_strip (''KEY'' @ [CHR 0x0A] @ ''abc'' @ [CHR 0x0A]) = ''KEY'' @ [CHR 0x0A] @ ''abc''"
    by code_simp
  with pem_survives_the_env_file [of "''KEY'' @ [CHR 0x0A] @ ''abc'' @ [CHR 0x0A]"] show ?thesis
    by (simp add: normalize_plain)
qed

end
