(* ===== verification/Consumer.thy ===== *)
theory Consumer
  imports Pipeline
begin

text \<open>
  \<^verbatim>\<open>services/settlement/consumer.py\<close>: what one delivery does, from the message body to
  the acknowledgement.  The life cycle of the object is in \<^verbatim>\<open>Consumer_Life\<close>.
  \<^verbatim>\<open>aio_pika\<close> is the replies to the commands.
\<close>

section \<open>The commands of a delivery\<close>

text \<open>
  The services of the pipeline, the processor's in-memory metrics, the acknowledgement of the
  message, and the caller's \<^verbatim>\<open>on_outcome\<close> callback.
\<close>

datatype delivery_cmd =
    Service cmd
  | Record outcome
  | Ack
  | Nack bool
  | Callback outcome

type_synonym 'a handler = "(delivery_cmd, reply, 'a) prog"

primrec embed :: "'a task \<Rightarrow> 'a handler" where
  "embed (Ret x) = Ret x"
| "embed (Raise e) = Raise e"
| "embed (Do c k) = Do (Service c) (\<lambda>r. embed (k r))"

definition hcall :: "delivery_cmd \<Rightarrow> 'a handler \<Rightarrow> 'a handler" where
  "hcall c p = Do c (\<lambda>r. case r of Failed e \<Rightarrow> Raise e | _ \<Rightarrow> p)"

text \<open>\<^verbatim>\<open>SettlementProcessor.process\<close>: the pipeline, then the counters, which cannot fail.\<close>

definition process :: "processor \<Rightarrow> bytes \<Rightarrow> outcome handler" where
  "process pr raw = bindP (embed (process_body pr raw)) (\<lambda>out. Do (Record out) (\<lambda>_. Ret out))"

section \<open>The handler\<close>

definition default_prefetch :: int where "default_prefetch = 32"

record consumer =
  c_url :: string
  c_queue_name :: string
  c_prefetch_count :: int
  c_on_outcome :: bool

definition new_consumer :: "settings \<Rightarrow> string option \<Rightarrow> string option \<Rightarrow> int option \<Rightarrow> bool \<Rightarrow> consumer" where
  "new_consumer s url queue prefetch on_outcome =
     \<lparr> c_url = or_text url (rabbitmq_url s), c_queue_name = or_text queue (settlement_queue s),
       c_prefetch_count = (case prefetch of None \<Rightarrow> default_prefetch | Some n \<Rightarrow> n),
       c_on_outcome = on_outcome \<rparr>"

definition verdict_cmd :: "outcome \<Rightarrow> delivery_cmd" where
  "verdict_cmd out = (if o_retryable out then Nack True else Ack)"

definition answer :: "consumer \<Rightarrow> outcome \<Rightarrow> unit handler" where
  "answer c out =
     bindP (hcall (verdict_cmd out) (Ret ())) (\<lambda>_.
       if c_on_outcome c then hcall (Callback out) (Ret ()) else Ret ())"

definition handler_crashed :: "consumer \<Rightarrow> outcome option handler" where
  "handler_crashed c =
     bindP (embed (log_event ''error'' ''settlement.handler_crashed'' [(''queue'', c_queue_name c)])) (\<lambda>_.
     hcall (Nack True) (Ret None))"

definition handle_message :: "consumer \<Rightarrow> processor \<Rightarrow> bytes \<Rightarrow> unit handler" where
  "handle_message c pr body =
     bindP (tryP (bindP (process pr body) (\<lambda>out. Ret (Some out))) (\<lambda>e. Some (handler_crashed c)))
       (\<lambda>res. case res of None \<Rightarrow> Ret () | Some out \<Rightarrow> answer c out)"

section \<open>Paths of the handler\<close>

definition svc :: "(cmd, reply) history \<Rightarrow> (delivery_cmd, reply) history" where
  "svc h = map (\<lambda>(c, r). (Service c, r)) h"

lemma svc_simps [simp]:
  "svc [] = []" "svc (x # h) = (Service (fst x), snd x) # svc h" "svc (h @ h') = svc h @ svc h'"
  by (simp_all add: svc_def split_beta)

lemma path_embed: "path (embed p) h res \<longleftrightarrow> (\<exists>h'. path p h' res \<and> h = svc h')"
proof (induction p arbitrary: h)
  case (Do c k)
  show ?case
  proof
    assume "path (embed (Do c k)) h res"
    then obtain r h1 where h: "h = (Service c, r) # h1" "path (embed (k r)) h1 res" by (auto simp: path_Do_iff)
    then obtain h' where "path (k r) h' res" "h1 = svc h'" using Do.IH [of "k r"] by auto
    then show "\<exists>h'. path (Do c k) h' res \<and> h = svc h'"
      using h(1) by (intro exI [of _ "(c, r) # h'"]) (simp add: path_Do)
  next
    assume "\<exists>h'. path (Do c k) h' res \<and> h = svc h'"
    then obtain r h1 where "path (k r) h1 res" "h = svc ((c, r) # h1)" by (auto simp: path_Do_iff)
    then show "path (embed (Do c k)) h res" using Do.IH [of "k r"] by (auto intro!: path_Do)
  qed
qed auto

lemma path_hcall:
  "path (hcall c p) h res \<longleftrightarrow>
     (\<exists>e. h = [(c, Failed e)] \<and> res = Inl e) \<or> (\<exists>r h'. h = (c, r) # h' \<and> \<not> failed r \<and> path p h' res)"
proof
  assume "path (hcall c p) h res"
  then obtain r h' where h: "h = (c, r) # h'" "path (case r of Failed e \<Rightarrow> Raise e | _ \<Rightarrow> p) h' res"
    by (auto simp: hcall_def path_Do_iff)
  then show "(\<exists>e. h = [(c, Failed e)] \<and> res = Inl e) \<or> (\<exists>r h'. h = (c, r) # h' \<and> \<not> failed r \<and> path p h' res)"
    by (cases r) auto
next
  assume "(\<exists>e. h = [(c, Failed e)] \<and> res = Inl e) \<or> (\<exists>r h'. h = (c, r) # h' \<and> \<not> failed r \<and> path p h' res)"
  then show "path (hcall c p) h res"
    unfolding hcall_def by (elim disjE exE conjE) (simp_all add: path_Do_iff split: reply.split, auto split: reply.split)
qed

lemma path_mapped:
  "path (bindP p (\<lambda>x. Ret (f x))) h (Inr y) \<longleftrightarrow> (\<exists>x. path p h (Inr x) \<and> y = f x)"
  "path (bindP p (\<lambda>x. Ret (f x))) h (Inl e) \<longleftrightarrow> path p h (Inl e)"
  unfolding path_bind by auto

lemma path_process:
  assumes "path (process pr raw) h res"
  shows "(\<exists>h' out r. path (process_body pr raw) h' (Inr out) \<and> h = svc h' @ [(Record out, r)] \<and> res = Inr out)
     \<or> (\<exists>h' e. path (process_body pr raw) h' (Inl e) \<and> h = svc h' \<and> res = Inl e)"
  using assms unfolding process_def path_bind path_embed by (auto simp: path_Do_iff)

lemma path_answer:
  assumes "path (answer c out) h res"
  shows "(\<exists>e. h = [(verdict_cmd out, Failed e)] \<and> res = Inl e)
    \<or> (\<exists>r tl. h = (verdict_cmd out, r) # tl \<and> \<not> failed r \<and> fst ` set tl \<subseteq> {Callback out})"
  using assms unfolding answer_def path_bind path_hcall by (auto simp: path_hcall split: if_splits)

lemma path_handler_crashed:
  assumes "path (handler_crashed c) h res"
  shows "\<exists>lv r r'. h = [(Service lv, r), (Nack True, r')] \<and> quiet lv \<and> (\<forall>out. res \<noteq> Inr (Some out))"
  using assms unfolding handler_crashed_def path_bind path_embed path_hcall by (auto simp: path_log_event)

text \<open>The ways a delivery can go: an outcome with its verdict, or a crash with a requeue.\<close>

definition answered :: "processor \<Rightarrow> bytes \<Rightarrow> (delivery_cmd, reply) history \<Rightarrow> bool" where
  "answered pr body h \<longleftrightarrow>
     (\<exists>h' out r r' tl. path (process_body pr body) h' (Inr out)
        \<and> h = svc h' @ (Record out, r) # (verdict_cmd out, r') # tl \<and> fst ` set tl \<subseteq> {Callback out}
        \<and> (failed r' \<longrightarrow> tl = []))"

definition crashed :: "processor \<Rightarrow> bytes \<Rightarrow> (delivery_cmd, reply) history \<Rightarrow> bool" where
  "crashed pr body h \<longleftrightarrow>
     (\<exists>h' e lv r r'. path (process_body pr body) h' (Inl e)
        \<and> h = svc h' @ [(Service lv, r), (Nack True, r')] \<and> quiet lv)"

lemma path_handle_message:
  assumes "path (handle_message c pr body) h res"
  shows "answered pr body h \<or> crashed pr body h"
proof -
  let ?p = "bindP (process pr body) (\<lambda>out. Ret (Some out))"
  have returned: "answered pr body (h1 @ h2)"
    if "path ?p h1 (Inr (Some out))" "path (answer c out) h2 res" for h1 h2 out
  proof -
    from that(1) have "path (process pr body) h1 (Inr out)" by (simp add: path_mapped)
    then obtain h' r where h1: "path (process_body pr body) h' (Inr out)" "h1 = svc h' @ [(Record out, r)]"
      using path_process by fastforce
    from path_answer [OF that(2)] obtain r' tl where "h2 = (verdict_cmd out, r') # tl" "fst ` set tl \<subseteq> {Callback out}"
      "failed r' \<longrightarrow> tl = []" by fastforce
    moreover from this(1) h1(2) have "h1 @ h2 = svc h' @ (Record out, r) # (verdict_cmd out, r') # tl" by simp
    ultimately show ?thesis using h1(1) unfolding answered_def by blast
  qed
  have raised: "crashed pr body (h1 @ h2)"
    if "path ?p h1 (Inl e)" and hc: "path (handler_crashed c) h2 x" for h1 h2 e x
  proof -
    from that(1) have "path (process pr body) h1 (Inl e)" by (simp add: path_mapped)
    then obtain h' where h1: "path (process_body pr body) h' (Inl e)" "h1 = svc h'"
      using path_process by fastforce
    obtain lv r r' where "h2 = [(Service lv, r), (Nack True, r')]" "quiet lv"
      using path_handler_crashed [OF hc] by blast
    with h1 show ?thesis unfolding crashed_def by blast
  qed
  let ?t = "tryP ?p (\<lambda>e. Some (handler_crashed c))"
  consider (returns) h1 h2 x where "path ?t h1 (Inr x)" "path (case x of None \<Rightarrow> Ret () | Some out \<Rightarrow> answer c out) h2 res" "h = h1 @ h2"
    | (exn) e where "path ?t h (Inl e)"
    using assms unfolding handle_message_def path_bind [of ?t] by blast
  then show ?thesis
  proof cases
    case returns
    from returns(1) consider "path ?p h1 (Inr x)" | k1 k2 e where "path ?p k1 (Inl e)" "path (handler_crashed c) k2 (Inr x)" "h1 = k1 @ k2"
      unfolding path_try_all by auto
    then show ?thesis
    proof cases
      case 1
      then obtain out where "x = Some out" by (auto simp: path_mapped)
      with 1 returns returned show ?thesis by simp
    next
      case 2
      then have "x = None" using path_handler_crashed by (cases x) blast+
      with returns 2 raised show ?thesis by simp
    qed
  next
    case exn
    then obtain k1 k2 e' where "path ?p k1 (Inl e')" "path (handler_crashed c) k2 (Inl e)" "h = k1 @ k2"
      unfolding path_try_all by auto
    with raised show ?thesis by blast
  qed
qed

end
