(* ===== verification/Broker.thy ===== *)
theory Broker
  imports Consumer
begin

text \<open>
  The settlement service under the broker: any number of deliveries in flight, interleaved at
  every \<^verbatim>\<open>await\<close>, with lost replies, crashes, redeliveries, lost channels, the passing
  of time and the loss of everything Redis holds.  The invariants are what survives all of it.
\<close>

section \<open>States and steps\<close>

text \<open>
  A delivery is a run of the handler: what is left of it, what it has seen, and whether the
  broker still waits for its acknowledgement.
\<close>

record delivery =
  dl_body :: bytes
  dl_rest :: "unit handler"
  dl_seen :: "(delivery_cmd, reply) history"
  dl_open :: bool

definition new_delivery :: "consumer \<Rightarrow> processor \<Rightarrow> bytes \<Rightarrow> delivery" where
  "new_delivery c pr m = \<lparr> dl_body = m, dl_rest = handle_message c pr m, dl_seen = [], dl_open = True \<rparr>"

definition advance :: "delivery \<Rightarrow> delivery_cmd \<Rightarrow> reply \<Rightarrow> unit handler \<Rightarrow> delivery" where
  "advance d c r rest = d \<lparr> dl_rest := rest, dl_seen := dl_seen d @ [(c, r)] \<rparr>"

record 'r broker =
  bk_world :: "'r world"
  bk_queue :: "bytes list"
  bk_in_flight :: "delivery list"
  bk_outcomes :: "(bytes \<times> outcome) list"
  bk_acked :: "bytes list"
  bk_published :: "bytes list"

definition requeue :: "delivery \<Rightarrow> bytes list" where
  "requeue d = (if dl_open d then [dl_body d] else [])"

text \<open>A fault of Redis or Postgres; the command may or may not have been carried out.\<close>

definition outage :: "exn \<Rightarrow> bool" where
  "outage e \<longleftrightarrow> (\<exists>m. e = RedisError m \<or> e = DatabaseError m \<or> e = OtherError m)"

definition remote :: "cmd \<Rightarrow> bool" where
  "remote c \<longleftrightarrow> redis_key c \<noteq> None \<or> writes_database c"

inductive step :: "'r redis \<Rightarrow> consumer \<Rightarrow> processor \<Rightarrow> 'r broker \<Rightarrow> 'r broker \<Rightarrow> bool"
  for R :: "'r redis" and c :: consumer and pr :: processor where
  publish: "step R c pr b (b \<lparr> bk_queue := bk_queue b @ [m], bk_published := bk_published b @ [m] \<rparr>)"
| deliver: "bk_queue b = q @ m # q' \<Longrightarrow>
    step R c pr b (b \<lparr> bk_queue := q @ q', bk_in_flight := bk_in_flight b @ [new_delivery c pr m] \<rparr>)"
| service: "bk_in_flight b = xs @ d # ys \<Longrightarrow> dl_rest d = Do (Service cm) k \<Longrightarrow> perform R cm (bk_world b) = (r, w) \<Longrightarrow>
    step R c pr b (b \<lparr> bk_world := w, bk_in_flight := xs @ advance d (Service cm) r (k r) # ys \<rparr>)"
| fault: "bk_in_flight b = xs @ d # ys \<Longrightarrow> dl_rest d = Do (Service cm) k \<Longrightarrow> remote cm \<Longrightarrow> outage e \<Longrightarrow>
    w = bk_world b \<or> w = snd (perform R cm (bk_world b)) \<Longrightarrow>
    step R c pr b (b \<lparr> bk_world := w, bk_in_flight := xs @ advance d (Service cm) (Failed e) (k (Failed e)) # ys \<rparr>)"
| record_outcome: "bk_in_flight b = xs @ d # ys \<Longrightarrow> dl_rest d = Do (Record out) k \<Longrightarrow>
    step R c pr b (b \<lparr> bk_outcomes := bk_outcomes b @ [(dl_body d, out)],
      bk_in_flight := xs @ advance d (Record out) Done (k Done) # ys \<rparr>)"
| ack: "bk_in_flight b = xs @ d # ys \<Longrightarrow> dl_rest d = Do Ack k \<Longrightarrow> dl_open d \<Longrightarrow>
    step R c pr b (b \<lparr> bk_acked := bk_acked b @ [dl_body d],
      bk_in_flight := xs @ (advance d Ack Done (k Done)) \<lparr> dl_open := False \<rparr> # ys \<rparr>)"
| nack: "bk_in_flight b = xs @ d # ys \<Longrightarrow> dl_rest d = Do (Nack rq) k \<Longrightarrow> dl_open d \<Longrightarrow>
    step R c pr b (b \<lparr> bk_queue := bk_queue b @ (if rq then [dl_body d] else []),
      bk_in_flight := xs @ (advance d (Nack rq) Done (k Done)) \<lparr> dl_open := False \<rparr> # ys \<rparr>)"
| verdict_fault: "bk_in_flight b = xs @ d # ys \<Longrightarrow> dl_rest d = Do cm k \<Longrightarrow> cm = Ack \<or> cm = Nack rq \<Longrightarrow>
    step R c pr b (b \<lparr> bk_in_flight := xs @ advance d cm (Failed e) (k (Failed e)) # ys \<rparr>)"
| callback: "bk_in_flight b = xs @ d # ys \<Longrightarrow> dl_rest d = Do (Callback out) k \<Longrightarrow>
    step R c pr b (b \<lparr> bk_in_flight := xs @ advance d (Callback out) r (k r) # ys \<rparr>)"
| finished: "bk_in_flight b = xs @ d # ys \<Longrightarrow> dl_rest d = Ret () \<or> dl_rest d = Raise e \<Longrightarrow>
    step R c pr b (b \<lparr> bk_queue := bk_queue b @ requeue d, bk_in_flight := xs @ ys \<rparr>)"
| crash: "bk_in_flight b = xs @ d # ys \<Longrightarrow>
    step R c pr b (b \<lparr> bk_queue := bk_queue b @ requeue d, bk_in_flight := xs @ ys \<rparr>)"
| channel_lost: "bk_in_flight b = xs @ d # ys \<Longrightarrow>
    step R c pr b (b \<lparr> bk_queue := bk_queue b @ requeue d, bk_in_flight := xs @ d \<lparr> dl_open := False \<rparr> # ys \<rparr>)"
| tick: "w_now (bk_world b) \<le> t \<Longrightarrow> step R c pr b (b \<lparr> bk_world := bk_world b \<lparr> w_now := t \<rparr> \<rparr>)"
| flush: "step R c pr b (b \<lparr> bk_world := bk_world b \<lparr> w_redis := r \<rparr> \<rparr>)"

definition idle_broker :: "'r world \<Rightarrow> 'r broker" where
  "idle_broker w = \<lparr> bk_world = w, bk_queue = [], bk_in_flight = [], bk_outcomes = [], bk_acked = [], bk_published = [] \<rparr>"

definition reachable :: "'r redis \<Rightarrow> consumer \<Rightarrow> processor \<Rightarrow> 'r world \<Rightarrow> 'r broker \<Rightarrow> bool" where
  "reachable R c pr w b \<longleftrightarrow> (step R c pr)\<^sup>*\<^sup>* (idle_broker w) b"

lemma reachable_start: "reachable R c pr w (idle_broker w)"
  by (simp add: reachable_def)

lemma reachable_step: "reachable R c pr w b \<Longrightarrow> step R c pr b b' \<Longrightarrow> reachable R c pr w b'"
  by (simp add: reachable_def)

lemma reachable_induct [consumes 1, case_names start step]:
  assumes "reachable R c pr w b" "P (idle_broker w)"
    and "\<And>b b'. reachable R c pr w b \<Longrightarrow> P b \<Longrightarrow> step R c pr b b' \<Longrightarrow> P b'"
  shows "P b"
proof -
  from assms(1) have "(step R c pr)\<^sup>*\<^sup>* (idle_broker w) b" by (simp add: reachable_def)
  then have "reachable R c pr w b \<and> P b"
  proof (induction rule: rtranclp_induct)
    case base
    show ?case using assms(2) reachable_start by blast
  next
    case (step b b')
    then show ?case using assms(3) reachable_step by blast
  qed
  then show ?thesis ..
qed

section \<open>What a delivery has done\<close>

lemma split_at_unique:
  assumes "xs @ a # ys = us @ b # vs" "P a" "P b" "\<forall>x \<in> set us. \<not> P x" "\<forall>x \<in> set vs. \<not> P x"
  shows "xs = us \<and> a = b \<and> ys = vs"
  using assms by (auto simp: append_eq_append_conv2 append_eq_Cons_conv Cons_eq_append_conv)

fun is_service :: "delivery_cmd \<times> reply \<Rightarrow> bool" where
  "is_service (Service c, r) = True"
| "is_service x = False"

fun is_record :: "delivery_cmd \<times> reply \<Rightarrow> bool" where
  "is_record (Record c, r) = True"
| "is_record x = False"

lemma svc_services: "x \<in> set (svc h) \<Longrightarrow> is_service x \<and> \<not> is_record x"
  by (auto simp: svc_def)

lemma svc_no_record [simp]: "\<forall>x \<in> set (svc h). \<not> is_record x"
  using svc_services by blast

lemma callback_tail:
  "fst ` set ts \<subseteq> {Callback out} \<Longrightarrow> \<forall>x \<in> set ts. \<not> is_service x \<and> \<not> is_record x \<and> fst x = Callback out"
  by auto

lemma verdict_not [simp]: "\<not> is_service (verdict_cmd out, r)" "\<not> is_record (verdict_cmd out, r)"
  by (simp_all add: verdict_cmd_def)

lemma before_record:
  assumes "after (handle_message c pr body) H = Some (Do (Record out) k)"
  shows "\<exists>h. H = svc h \<and> path (process_body pr body) h (Inr out)"
proof -
  from after_completes [OF after_step [OF assms, of Done]] obtain h2 res
    where "path (handle_message c pr body) ((H @ [(Record out, Done)]) @ h2) res" by blast
  from path_handle_message [OF this] show ?thesis
  proof
    assume "answered pr body ((H @ [(Record out, Done)]) @ h2)"
    then obtain h out' r r' tl where h: "path (process_body pr body) h (Inr out')"
      "H @ (Record out, Done) # h2 = svc h @ (Record out', r) # (verdict_cmd out', r') # tl" "fst ` set tl \<subseteq> {Callback out'}"
      unfolding answered_def by auto
    have "H = svc h \<and> (Record out, Done) = (Record out', r) \<and> h2 = (verdict_cmd out', r') # tl"
      by (rule split_at_unique [OF h(2), of is_record]) (simp_all add: callback_tail [OF h(3)])
    with h(1) show ?thesis by auto
  next
    assume "crashed pr body ((H @ [(Record out, Done)]) @ h2)"
    then obtain h lv r r' where "H @ (Record out, Done) # h2 = svc h @ [(Service lv, r), (Nack True, r')]"
      unfolding crashed_def by auto
    from arg_cong [OF this, of "\<lambda>l. (Record out, Done) \<in> set l"] show ?thesis by (auto dest: svc_services)
  qed
qed

lemma svc_append_eq: "svc h = A @ B \<Longrightarrow> \<exists>h1 h2. h = h1 @ h2 \<and> A = svc h1 \<and> B = svc h2"
  by (auto simp: svc_def map_eq_append_conv)

lemma before_service:
  assumes "after (handle_message c pr body) H = Some (Do (Service cm) k)" "\<not> quiet cm"
  shows "\<exists>h1 h2 res. H = svc h1 \<and> path (process_body pr body) (h1 @ (cm, r) # h2) res"
proof -
  have inside: "\<exists>h1 h2. H = svc h1 \<and> h = h1 @ (cm, r) # h2"
    if eq: "H @ (Service cm, r) # h2 = svc h @ T" and T: "\<forall>x \<in> set T. \<not> is_service x \<or> (\<exists>lv. fst x = Service lv \<and> quiet lv)"
    for h h2 T
  proof -
    from eq consider Z where "svc h = H @ (Service cm, r) # Z" | Z where "T = Z @ (Service cm, r) # h2" "H = svc h @ Z"
      by (auto simp: append_eq_append_conv2 Cons_eq_append_conv) metis
    then show ?thesis
    proof cases
      case 1
      then obtain h1 y where "h = h1 @ y" "H = svc h1" "(Service cm, r) # Z = svc y" using svc_append_eq by blast
      then show ?thesis by (cases y) auto
    next
      case 2
      then show ?thesis using T assms(2) by auto
    qed
  qed
  from after_completes [OF after_step [OF assms(1), of r]] obtain h2 res
    where "path (handle_message c pr body) ((H @ [(Service cm, r)]) @ h2) res" by blast
  from path_handle_message [OF this] show ?thesis
  proof
    assume "answered pr body ((H @ [(Service cm, r)]) @ h2)"
    then obtain h out' r1 r2 tl where h: "path (process_body pr body) h (Inr out')"
      "H @ (Service cm, r) # h2 = svc h @ (Record out', r1) # (verdict_cmd out', r2) # tl" "fst ` set tl \<subseteq> {Callback out'}"
      unfolding answered_def by auto
    have "\<exists>h1 h2. H = svc h1 \<and> h = h1 @ (cm, r) # h2"
      by (rule inside [OF h(2)]) (use callback_tail [OF h(3)] in auto)
    with h(1) show ?thesis by blast
  next
    assume "crashed pr body ((H @ [(Service cm, r)]) @ h2)"
    then obtain h e lv r1 r2 where h: "path (process_body pr body) h (Inl e)" "quiet lv"
      "H @ (Service cm, r) # h2 = svc h @ [(Service lv, r1), (Nack True, r2)]"
      unfolding crashed_def by auto
    have "\<exists>h1 h2. H = svc h1 \<and> h = h1 @ (cm, r) # h2" by (rule inside [OF h(3)]) (use h(2) in auto)
    with h(1) show ?thesis by blast
  qed
qed

lemma before_verdict:
  assumes "after (handle_message c pr body) H = Some (Do cm k)" "cm = Ack \<or> cm = Nack rq"
  shows "(cm = Nack True \<and> (\<forall>x \<in> set H. is_service x))
    \<or> (\<exists>h out r. H = svc h @ [(Record out, r)] \<and> path (process_body pr body) h (Inr out) \<and> cm = verdict_cmd out)"
proof -
  let ?P = "\<lambda>x. fst x = Ack \<or> fst x = Nack True \<or> fst x = Nack False"
  have cm: "?P (cm, Done)" using assms(2) by (cases rq) auto
  from after_completes [OF after_step [OF assms(1), of Done]] obtain h2 res
    where "path (handle_message c pr body) ((H @ [(cm, Done)]) @ h2) res" by blast
  from path_handle_message [OF this] show ?thesis
  proof
    assume "answered pr body ((H @ [(cm, Done)]) @ h2)"
    then obtain h out' r1 r2 tl where h: "path (process_body pr body) h (Inr out')"
      "H @ (cm, Done) # h2 = (svc h @ [(Record out', r1)]) @ (verdict_cmd out', r2) # tl" "fst ` set tl \<subseteq> {Callback out'}"
      unfolding answered_def by auto
    have "H = svc h @ [(Record out', r1)] \<and> (cm, Done) = (verdict_cmd out', r2) \<and> h2 = tl"
      by (rule split_at_unique [OF h(2), of ?P])
        (use cm callback_tail [OF h(3)] in \<open>auto simp: verdict_cmd_def svc_def\<close>)
    with h(1) show ?thesis by auto
  next
    assume "crashed pr body ((H @ [(cm, Done)]) @ h2)"
    then obtain h lv r1 r2 where h: "H @ (cm, Done) # h2 = (svc h @ [(Service lv, r1)]) @ (Nack True, r2) # []"
      unfolding crashed_def by auto
    have "H = svc h @ [(Service lv, r1)] \<and> (cm, Done) = (Nack True, r2) \<and> h2 = []"
      by (rule split_at_unique [OF h, of ?P]) (use cm in \<open>auto simp: svc_def\<close>)
    then show ?thesis by (auto dest: svc_services)
  qed
qed

end
