(* ===== verification/Broker_Safety.thy ===== *)
theory Broker_Safety
  imports Broker
begin

text \<open>
  The invariants of the service under the broker, each kept by every step: the tables, the
  authority of every row, the identity of every settled outcome, and the account of every
  message.  None of them needs anything of Redis.
\<close>

section \<open>Runs of the handler\<close>

definition well_run :: "consumer \<Rightarrow> processor \<Rightarrow> 'r broker \<Rightarrow> bool" where
  "well_run c pr b \<longleftrightarrow>
     (\<forall>d \<in> set (bk_in_flight b). after (handle_message c pr (dl_body d)) (dl_seen d) = Some (dl_rest d))"

lemma advance_simps [simp]:
  "dl_body (advance d c r p) = dl_body d" "dl_open (advance d c r p) = dl_open d"
  "dl_rest (advance d c r p) = p" "dl_seen (advance d c r p) = dl_seen d @ [(c, r)]"
  by (simp_all add: advance_def)

lemma well_run_step: "step R c pr b b' \<Longrightarrow> well_run c pr b \<Longrightarrow> well_run c pr b'"
  by (induction rule: step.induct) (auto simp: well_run_def new_delivery_def after_step)

lemma reachable_well_run: "reachable R c pr w b \<Longrightarrow> well_run c pr b"
proof (induction rule: reachable_induct)
  case start
  show ?case by (simp add: idle_broker_def well_run_def)
qed (rule well_run_step)

text \<open>What a step does to the tables.\<close>

lemma perform_next_id:
  "next_id (w_tables w) \<le> next_id (w_tables (snd (perform R c w)))"
  "fst (perform R c w) = RowId n \<Longrightarrow> n = next_id (w_tables w) \<and> next_id (w_tables (snd (perform R c w))) = n + 1"
  by (cases c; auto simp: insert_settlement_def insert_rejection_def Let_def split: prod.splits sum.splits if_splits)+

lemma step_tables:
  assumes "step R c pr b b'"
  shows "w_tables (bk_world b') = w_tables (bk_world b)
    \<or> (\<exists>d cm k. d \<in> set (bk_in_flight b) \<and> dl_rest d = Do (Service cm) k
         \<and> w_tables (bk_world b') = w_tables (snd (perform R cm (bk_world b))))"
  using assms
proof (induction rule: step.induct)
  case (service b xs d ys cm k r w)
  then show ?case by (intro disjI2 exI [of _ d] exI [of _ cm] exI [of _ k]) simp
next
  case (fault b xs d ys cm k e w)
  then show ?case by auto
qed auto

lemma step_published: "step R c pr b b' \<Longrightarrow> set (bk_published b) \<subseteq> set (bk_published b')"
  by (induction rule: step.induct) auto

section \<open>The tables\<close>

lemma reachable_tables_ok:
  "reachable R c pr w b \<Longrightarrow> tables_ok (w_tables w) \<Longrightarrow> tables_ok (w_tables (bk_world b))"
proof (induction rule: reachable_induct)
  case (step b b')
  then show ?case using step_tables [OF step(2)] perform_tables_ok [of "bk_world b" R] by auto
qed (simp add: idle_broker_def)

text \<open>Rows are only ever added, each by a delivery about to insert it and at the time of the step.\<close>

definition inserts :: "delivery \<Rightarrow> settlement_row \<Rightarrow> bool" where
  "inserts d row \<longleftrightarrow> (\<exists>k. dl_rest d = Do (Service (InsertSettlement row)) k)"

lemma step_rows:
  assumes "step R c pr b b'"
  shows "settlements (w_tables (bk_world b')) = settlements (w_tables (bk_world b))
    \<or> (\<exists>d s. d \<in> set (bk_in_flight b) \<and> inserts d (settlement_row.truncate s)
         \<and> settlements (w_tables (bk_world b')) = settlements (w_tables (bk_world b)) @ [s]
         \<and> s_settled_at s = w_now (bk_world b))"
proof (cases "w_tables (bk_world b') = w_tables (bk_world b)")
  case False
  then obtain d cm k where d: "d \<in> set (bk_in_flight b)" "dl_rest d = Do (Service cm) k"
      "w_tables (bk_world b') = w_tables (snd (perform R cm (bk_world b)))"
    using step_tables [OF assms] by blast
  then show ?thesis using perform_settlements [of R cm "bk_world b"] by (auto simp: inserts_def)
qed simp

text \<open>
  The step that brought a row into the table: a delivery in a reachable state of the same run,
  whose next command is the insert of that row.
\<close>

definition inserted_by ::
  "'r redis \<Rightarrow> consumer \<Rightarrow> processor \<Rightarrow> 'r world \<Rightarrow> 'r broker \<Rightarrow> stored_settlement \<Rightarrow> delivery \<Rightarrow> bool" where
  "inserted_by R c pr w b s d \<longleftrightarrow>
     (\<exists>b1 b2. reachable R c pr w b1 \<and> step R c pr b1 b2 \<and> (step R c pr)\<^sup>*\<^sup>* b2 b
        \<and> d \<in> set (bk_in_flight b1) \<and> inserts d (settlement_row.truncate s)
        \<and> settlements (w_tables (bk_world b2)) = settlements (w_tables (bk_world b1)) @ [s]
        \<and> s_settled_at s = w_now (bk_world b1))"

lemma inserted_by_step: "inserted_by R c pr w b s d \<Longrightarrow> step R c pr b b' \<Longrightarrow> inserted_by R c pr w b' s d"
  unfolding inserted_by_def by (meson rtranclp.rtrancl_into_rtrancl)

lemma row_was_inserted:
  assumes "reachable R c pr w b"
  shows "\<forall>s \<in> set (settlements (w_tables (bk_world b))). s \<in> set (settlements (w_tables w)) \<or> (\<exists>d. inserted_by R c pr w b s d)"
  using assms
proof (induction rule: reachable_induct)
  case start
  show ?case by (simp add: idle_broker_def)
next
  case (step b b')
  have old: "s \<in> set (settlements (w_tables w)) \<or> (\<exists>d. inserted_by R c pr w b' s d)"
    if "s \<in> set (settlements (w_tables (bk_world b)))" for s
    using step(3) that inserted_by_step [OF _ step(2)] by blast
  from step_rows [OF step(2)] show ?case
  proof (elim disjE exE conjE)
    fix d s assume d: "d \<in> set (bk_in_flight b)" "inserts d (settlement_row.truncate s)"
      and rows: "settlements (w_tables (bk_world b')) = settlements (w_tables (bk_world b)) @ [s]"
      and at: "s_settled_at s = w_now (bk_world b)"
    have "inserted_by R c pr w b' s d"
      unfolding inserted_by_def using step(1,2) d rows at by (intro exI [of _ b] exI [of _ b']) simp
    with old rows show ?thesis by auto
  qed (use old in simp)
qed

definition messages :: "'r broker \<Rightarrow> bytes multiset" where
  "messages b = mset (bk_queue b) + mset (concat (map requeue (bk_in_flight b))) + mset (bk_acked b)"

text \<open>A delivery's body was published, also after the broker stopped waiting for it.\<close>

lemma reachable_bodies:
  "reachable R c pr w b \<Longrightarrow>
     set (bk_queue b) \<subseteq> set (bk_published b) \<and> dl_body ` set (bk_in_flight b) \<subseteq> set (bk_published b)"
proof (induction rule: reachable_induct)
  case (step b b')
  from step(2,3) show ?case
    by (induction rule: step.induct) (auto simp: new_delivery_def requeue_def split: if_splits)
qed (simp add: idle_broker_def)

text \<open>A delivery has read the clock within the life of the service, and never ahead of it.\<close>

definition clock_ok :: "'r world \<Rightarrow> 'r broker \<Rightarrow> bool" where
  "clock_ok w b \<longleftrightarrow> w_now w \<le> w_now (bk_world b)
     \<and> (\<forall>d \<in> set (bk_in_flight b). \<forall>t. (Service ClockNow, Time t) \<in> set (dl_seen d)
          \<longrightarrow> w_now w \<le> t \<and> t \<le> w_now (bk_world b))"

lemma perform_now [simp]: "w_now (snd (perform R c w)) = w_now w"
  by (cases c; simp split: prod.splits sum.splits)

lemma clock_ok_step:
  assumes "step R c pr b b'" "clock_ok w b"
  shows "clock_ok w b'"
  using assms(1)
proof (cases rule: step.cases)
  case (service xs d ys cm k r v)
  have "w_now v = w_now (bk_world b)" using perform_now [of R cm "bk_world b"] service(4) by simp
  moreover have "t = w_now (bk_world b)" if "cm = ClockNow" "r = Time t" for t
    using service(4) that by auto
  ultimately show ?thesis using assms(2) service(1,2) by (auto simp: clock_ok_def)
next
  case (fault xs d ys cm k e v)
  have "w_now v = w_now (bk_world b)" using fault(6) by auto
  then show ?thesis using assms(2) fault(1,2) by (auto simp: clock_ok_def)
next
  case (tick t)
  then show ?thesis using assms(2) by (force simp: clock_ok_def)
qed (use assms(2) in \<open>auto simp: clock_ok_def new_delivery_def\<close>)

lemma reachable_clock_ok: "reachable R c pr w b \<Longrightarrow> clock_ok w b"
proof (induction rule: reachable_induct)
  case (step b b')
  show ?case by (rule clock_ok_step [OF step(2,3)])
qed (simp add: idle_broker_def clock_ok_def)

text \<open>
  A row is authorised by the delivery that inserted it: its message parses as a packet that was
  verified, matched its header and opened, and was fresh at the time the delivery had read from
  the clock, which lies between the start of the service and the time in the row.
\<close>

definition authorised_by :: "processor \<Rightarrow> instant \<Rightarrow> stored_settlement \<Rightarrow> delivery \<Rightarrow> bool" where
  "authorised_by pr start s d \<longleftrightarrow>
     (\<exists>p ins now. packet_of_json_bytes (pr_validator pr) (dl_body d) = Inr p \<and> admissible pr p now
        \<and> opens_to pr p ins \<and> settlement_row.truncate s = settlement_of p ins (idempotency_key p)
        \<and> (Service ClockNow, Time now) \<in> set (dl_seen d) \<and> start \<le> now \<and> now \<le> s_settled_at s)"

lemma inserts_admitted:
  assumes "reachable R c pr w b" "d \<in> set (bk_in_flight b)" "inserts d row"
  shows "\<exists>p ins now. packet_of_json_bytes (pr_validator pr) (dl_body d) = Inr p \<and> admissible pr p now
    \<and> opens_to pr p ins \<and> row = settlement_of p ins (idempotency_key p)
    \<and> (Service ClockNow, Time now) \<in> set (dl_seen d)"
proof -
  from assms(3) obtain k where k: "dl_rest d = Do (Service (InsertSettlement row)) k" unfolding inserts_def by blast
  have "after (handle_message c pr (dl_body d)) (dl_seen d) = Some (Do (Service (InsertSettlement row)) k)"
    using reachable_well_run [OF assms(1)] assms(2) k unfolding well_run_def by metis
  from before_service [OF this, of Done] obtain h1 h2 res
    where h: "dl_seen d = svc h1" "path (process_body pr (dl_body d)) (h1 @ (InsertSettlement row, Done) # h2) res" by auto
  from insert_under_claim [OF h(2)] obtain p ins now where
    p: "packet_of_json_bytes (pr_validator pr) (dl_body d) = Inr p" "admissible pr p now" "opens_to pr p ins"
       "row = settlement_of p ins (idempotency_key p)" and "(ClockNow, Time now) \<in> set h1" by auto
  then have "(Service ClockNow, Time now) \<in> set (dl_seen d)" unfolding h(1) svc_def by force
  with p show ?thesis by blast
qed

lemma inserted_row_authorised:
  assumes "inserted_by R c pr w b s d"
  shows "authorised_by pr (w_now w) s d"
proof -
  from assms obtain b1 where b1: "reachable R c pr w b1" "d \<in> set (bk_in_flight b1)"
      "inserts d (settlement_row.truncate s)" "s_settled_at s = w_now (bk_world b1)"
    unfolding inserted_by_def by blast
  from inserts_admitted [OF b1(1-3)] reachable_clock_ok [OF b1(1)] b1(2,4) show ?thesis
    unfolding authorised_by_def clock_ok_def by fastforce
qed

lemma steps_published: "(step R c pr)\<^sup>*\<^sup>* b b' \<Longrightarrow> set (bk_published b) \<subseteq> set (bk_published b')"
  by (induction rule: rtranclp_induct) (auto dest: step_published)

lemma inserted_row_published:
  assumes "inserted_by R c pr w b s d"
  shows "dl_body d \<in> set (bk_published b)"
proof -
  from assms obtain b1 b2 where b: "reachable R c pr w b1" "step R c pr b1 b2" "(step R c pr)\<^sup>*\<^sup>* b2 b"
      "d \<in> set (bk_in_flight b1)" unfolding inserted_by_def by blast
  then show ?thesis using reachable_bodies [OF b(1)] step_published [OF b(2)] steps_published [OF b(3)] by blast
qed

section \<open>Messages\<close>

text \<open>Every published message is waiting, in flight, or acknowledged: none is lost or copied.\<close>

lemma reachable_nack_requeues:
  assumes "reachable R c pr w b" "d \<in> set (bk_in_flight b)" "dl_rest d = Do (Nack rq) k"
  shows "rq"
proof -
  have "after (handle_message c pr (dl_body d)) (dl_seen d) = Some (Do (Nack rq) k)"
    using reachable_well_run [OF assms(1)] assms(2,3) unfolding well_run_def by metis
  from before_verdict [OF this, of rq] show ?thesis by (auto simp: verdict_cmd_def split: if_splits)
qed

lemma requeue_advance [simp]: "requeue (advance d c r p) = requeue d" "requeue (d \<lparr> dl_open := False \<rparr>) = []"
  by (simp_all add: requeue_def)

lemma step_messages:
  assumes "step R c pr b b'" "\<And>d rq k. d \<in> set (bk_in_flight b) \<Longrightarrow> dl_rest d = Do (Nack rq) k \<Longrightarrow> rq"
    and "mset (bk_published b) = messages b"
  shows "mset (bk_published b') = messages b'"
  using assms
  by (induction rule: step.induct) (auto simp: messages_def new_delivery_def requeue_def)

lemma reachable_messages: "reachable R c pr w b \<Longrightarrow> mset (bk_published b) = messages b"
proof (induction rule: reachable_induct)
  case (step b b')
  then show ?case using step_messages reachable_nack_requeues by blast
qed (simp add: idle_broker_def messages_def)

text \<open>A message is acknowledged only with a final outcome on record.\<close>

definition recorded :: "'r broker \<Rightarrow> delivery \<Rightarrow> bool" where
  "recorded b d \<longleftrightarrow> (\<forall>out r. (Record out, r) \<in> set (dl_seen d) \<longrightarrow> (dl_body d, out) \<in> set (bk_outcomes b))"

lemma reachable_acked:
  assumes "reachable R c pr w b"
  shows "(\<forall>m \<in> set (bk_acked b). \<exists>out. (m, out) \<in> set (bk_outcomes b) \<and> \<not> o_retryable out)
    \<and> (\<forall>d \<in> set (bk_in_flight b). recorded b d)"
  using assms
proof (induction rule: reachable_induct)
  case (step b b')
  have ack: "\<exists>out. (dl_body d, out) \<in> set (bk_outcomes b) \<and> \<not> o_retryable out"
    if d: "d \<in> set (bk_in_flight b)" "dl_rest d = Do Ack k" for d k
  proof -
    have "after (handle_message c pr (dl_body d)) (dl_seen d) = Some (Do Ack k)"
      using reachable_well_run [OF step(1)] d unfolding well_run_def by metis
    from before_verdict [OF this, of True] obtain h out r where "dl_seen d = svc h @ [(Record out, r)]" "Ack = verdict_cmd out"
      by auto
    then have "(Record out, r) \<in> set (dl_seen d)" "\<not> o_retryable out" by (auto simp: verdict_cmd_def split: if_splits)
    then show ?thesis using step(3) d(1) unfolding recorded_def by blast
  qed
  have outs: "set (bk_outcomes b) \<subseteq> set (bk_outcomes b')" using step(2) by (cases rule: step.cases) auto
  have "\<forall>d \<in> set (bk_in_flight b'). recorded b' d"
    using step(2) conjunct2 [OF step(3)] by (cases rule: step.cases) (auto simp: recorded_def new_delivery_def)
  moreover have "bk_acked b' = bk_acked b
    \<or> (\<exists>d k. d \<in> set (bk_in_flight b) \<and> dl_rest d = Do Ack k \<and> bk_acked b' = bk_acked b @ [dl_body d])"
    using step(2) by (cases rule: step.cases) auto
  ultimately show ?case using ack outs step(3) by fastforce
qed (simp add: idle_broker_def)

section \<open>Settled outcomes\<close>

text \<open>The rows Postgres has confirmed to a delivery that has not recorded its outcome.\<close>

fun confirmation :: "delivery_cmd \<times> reply \<Rightarrow> (settlement_row \<times> int) list" where
  "confirmation (Service (InsertSettlement row), RowId n) = [(row, n)]"
| "confirmation x = []"

definition confirmed :: "(delivery_cmd, reply) history \<Rightarrow> (settlement_row \<times> int) list" where
  "confirmed h = concat (map confirmation h)"

definition pending :: "delivery \<Rightarrow> (settlement_row \<times> int) list" where
  "pending d = (if list_ex is_record (dl_seen d) then [] else confirmed (dl_seen d))"

definition outcome_ids :: "bytes \<times> outcome \<Rightarrow> int list" where
  "outcome_ids x = (case o_settlement_id (snd x) of None \<Rightarrow> [] | Some n \<Rightarrow> [n])"

definition row_ids :: "'r broker \<Rightarrow> int list" where
  "row_ids b = concat (map (map snd \<circ> pending) (bk_in_flight b)) @ concat (map outcome_ids (bk_outcomes b))"

lemma confirmed_simps [simp]: "confirmed [] = []" "confirmed (h @ h') = confirmed h @ confirmed h'"
  "confirmed (x # h) = confirmation x @ confirmed h"
  by (simp_all add: confirmed_def)

lemma pending_advance:
  "pending (advance d c r p) =
     (if list_ex is_record (dl_seen d) \<or> is_record (c, r) then [] else confirmed (dl_seen d) @ confirmation (c, r))"
  by (simp add: pending_def)

lemma pending_open [simp]: "pending (d \<lparr> dl_open := x \<rparr>) = pending d"
  by (simp add: pending_def)

lemma confirmation_service:
  "confirmation (Service cm, r) = (case (cm, r) of (InsertSettlement row, RowId n) \<Rightarrow> [(row, n)] | _ \<Rightarrow> [])"
  by (cases cm; cases r) auto

text \<open>A settled outcome is recorded by the delivery to which its row was confirmed.\<close>

lemma no_record_svc: "\<not> list_ex is_record (svc h)"
  using svc_no_record [of h] by (simp add: list_ex_iff)

lemma settled_confirmed:
  assumes "path (process_body pr body) h (Inr out)"
  shows "(\<exists>p ins n. out = settled_outcome p (idempotency_key p) n
      \<and> confirmed (svc h) = [(settlement_of p ins (idempotency_key p), n)])
    \<or> (\<not> settled out \<and> o_settlement_id out = None)"
  using process_body_exits [OF assms]
proof (elim disjE)
  assume "settled_exit pr body h out"
  then obtain p ins n now r l where *: "quiet (fst l)"
      "h = [(ClockNow, Time now), (claim_cmd pr (idempotency_key p), Truth True),
               (insert_cmd p ins (idempotency_key p), RowId n), (settled_cmd pr (idempotency_key p), r), l]"
      "out = settled_outcome p (idempotency_key p) n"
    unfolding settled_exit_def by blast
  have "confirmation (Service (fst l), snd l) = []" using *(1) by (cases "fst l") auto
  with *(2,3) show ?thesis
    by (auto simp: claim_cmd_def settled_cmd_def insert_cmd_def)
next
  assume "rejected_exit h out"
  then show ?thesis by (auto simp: rejected_exit_def)
next
  assume "internal_exit h out"
  then show ?thesis by (auto simp: internal_exit_def internal_error_outcome_def rejected_outcome_def settled_def)
qed

text \<open>The row ids in circulation are distinct and were given out.\<close>

definition ids_ok :: "'r broker \<Rightarrow> bool" where
  "ids_ok b \<longleftrightarrow> distinct (row_ids b) \<and> (\<forall>n \<in> set (row_ids b). n < next_id (w_tables (bk_world b)))"

lemma confirmation_other [simp]:
  "confirmation (x, Failed e) = []" "confirmation (x, Done) = []"
  "confirmation (Callback out, r) = []" "confirmation (Record out, r) = []"
proof -
  show "confirmation (x, Failed e) = []" "confirmation (x, Done) = []"
    by (cases x; simp add: confirmation_service split: cmd.split)+
qed simp_all

lemma in_flight_ids:
  assumes "bk_in_flight b = xs @ d # ys"
  shows "row_ids b = concat (map (map snd \<circ> pending) xs) @ map snd (pending d)
    @ concat (map (map snd \<circ> pending) ys) @ concat (map outcome_ids (bk_outcomes b))"
  using assms by (simp add: row_ids_def)

lemma distinct_replace:
  fixes A D C O' :: "int list"
  assumes "distinct (A @ D @ C @ O')" "\<forall>x \<in> set (A @ D @ C @ O'). x < n" "n \<le> m"
    and "N = [] \<or> N = D \<or> (N = D @ [n] \<and> m = n + 1)"
  shows "distinct (A @ N @ C @ O') \<and> (\<forall>x \<in> set (A @ N @ C @ O'). x < m)"
  using assms(4)
proof (elim disjE conjE)
  assume N: "N = D @ [n]" "m = n + 1"
  have "n \<notin> set (A @ D @ C @ O')" using assms(2) by blast
  then have "distinct (A @ N @ C @ O')" using assms(1) N(1) by auto
  moreover have "x < m" if x: "x \<in> set (A @ N @ C @ O')" for x
  proof -
    from x N(1) have "x = n \<or> x \<in> set (A @ D @ C @ O')" by auto
    then show ?thesis
    proof
      assume "x \<in> set (A @ D @ C @ O')"
      with assms(2) have "x < n" by blast
      then show ?thesis using N(2) by simp
    qed (simp add: N(2))
  qed
  ultimately show ?thesis by blast
next
  assume N: "N = []"
  have "x < m" if "x \<in> set (A @ N @ C @ O')" for x
  proof -
    have "x \<in> set (A @ D @ C @ O')" using that N by auto
    then have "x < n" using assms(2) by blast
    then show ?thesis using assms(3) by simp
  qed
  moreover have "distinct (A @ N @ C @ O')" using assms(1) N by auto
  ultimately show ?thesis by blast
next
  assume "N = D"
  then show ?thesis using assms(1-3) order_less_le_trans by blast
qed

text \<open>A delivery may lose row ids, or gain the one Postgres gives out.\<close>

lemma ids_ok_replace:
  assumes "ids_ok b" "bk_in_flight b = xs @ d # ys" "bk_in_flight b' = xs @ ds @ ys"
    and "concat (map (map snd \<circ> pending) ds) @ concat (map outcome_ids outs) = new"
    and "bk_outcomes b' = bk_outcomes b @ outs"
    and "next_id (w_tables (bk_world b)) \<le> next_id (w_tables (bk_world b'))"
    and "new = [] \<or> new = map snd (pending d)
      \<or> (new = map snd (pending d) @ [next_id (w_tables (bk_world b))]
          \<and> next_id (w_tables (bk_world b')) = next_id (w_tables (bk_world b)) + 1)"
  shows "ids_ok b'"
proof -
  let ?A = "concat (map (map snd \<circ> pending) xs)" and ?C = "concat (map (map snd \<circ> pending) ys)"
    and ?O = "concat (map outcome_ids (bk_outcomes b))" and ?D = "concat (map (map snd \<circ> pending) ds)"
  have old: "distinct (?A @ map snd (pending d) @ ?C @ ?O)"
    "\<forall>n \<in> set (?A @ map snd (pending d) @ ?C @ ?O). n < next_id (w_tables (bk_world b))"
    using assms(1) unfolding ids_ok_def in_flight_ids [OF assms(2)] by blast+
  have new: "row_ids b' = ?A @ ?D @ ?C @ ?O @ concat (map outcome_ids outs)"
    by (simp add: row_ids_def assms(3,5))
  have ms: "mset (row_ids b') = mset (?A @ new @ ?C @ ?O)"
    unfolding new assms(4) [symmetric] by simp
  have "distinct (?A @ new @ ?C @ ?O) \<and> (\<forall>n \<in> set (?A @ new @ ?C @ ?O). n < next_id (w_tables (bk_world b')))"
    by (rule distinct_replace [OF old assms(6,7)])
  then show ?thesis
    unfolding ids_ok_def using mset_eq_imp_distinct_iff [OF ms] mset_eq_setD [OF ms] by simp
qed

lemma ids_step:
  assumes "step R c pr b b'" "reachable R c pr w b" "ids_ok b"
  shows "ids_ok b'"
  using assms(1)
proof (cases rule: step.cases)
  case (publish m)
  with assms(3) show ?thesis by (simp add: ids_ok_def row_ids_def)
next
  case (deliver q m q')
  with assms(3) show ?thesis by (simp add: ids_ok_def row_ids_def new_delivery_def pending_def)
next
  case (service xs d ys cm k r v)
  have le: "next_id (w_tables (bk_world b)) \<le> next_id (w_tables v)"
    using perform_next_id(1) [where w = "bk_world b" and R = R and c = cm] service(4) by simp
  have "confirmation (Service cm, r) = []
    \<or> (\<exists>row. confirmation (Service cm, r) = [(row, next_id (w_tables (bk_world b)))]
         \<and> next_id (w_tables v) = next_id (w_tables (bk_world b)) + 1)"
    using perform_next_id(2) [where w = "bk_world b" and R = R and c = cm] service(4) by (cases cm; cases r) auto
  then show ?thesis
    using service(1,2) le
    by (intro ids_ok_replace [OF assms(3) service(2), of _ "[advance d (Service cm) r (k r)]" "[]"])
      (auto simp: pending_advance pending_def)
next
  case (fault xs d ys cm k e v)
  with assms(3) show ?thesis
    using perform_next_id(1) [where w = "bk_world b" and R = R and c = cm]
    by (intro ids_ok_replace [OF assms(3), of xs d ys _ "[advance d (Service cm) (Failed e) (k (Failed e))]" "[]"])
      (auto simp: pending_advance pending_def)
next
  case (record_outcome xs d ys out k)
  have "after (handle_message c pr (dl_body d)) (dl_seen d) = Some (Do (Record out) k)"
    using reachable_well_run [OF assms(2)] record_outcome unfolding well_run_def by auto
  from before_record [OF this] obtain h where h: "dl_seen d = svc h" "path (process_body pr (dl_body d)) h (Inr out)" by blast
  have "outcome_ids (dl_body d, out) = [] \<or> outcome_ids (dl_body d, out) = map snd (pending d)"
    using settled_confirmed [OF h(2)] h(1) no_record_svc [of h]
    by (auto simp: outcome_ids_def pending_def)
  with record_outcome show ?thesis
    by (intro ids_ok_replace [OF assms(3), of xs d ys _ "[advance d (Record out) Done (k Done)]" "[(dl_body d, out)]"])
      (auto simp: pending_advance pending_def)
next
  case (ack xs d ys k)
  then show ?thesis
    by (intro ids_ok_replace [OF assms(3), of xs d ys _ "[(advance d Ack Done (k Done)) \<lparr> dl_open := False \<rparr>]" "[]"])
      (auto simp: pending_advance pending_def)
next
  case (nack xs d ys rq k)
  then show ?thesis
    by (intro ids_ok_replace [OF assms(3), of xs d ys _ "[(advance d (Nack rq) Done (k Done)) \<lparr> dl_open := False \<rparr>]" "[]"])
      (auto simp: pending_advance pending_def)
next
  case (verdict_fault xs d ys cm k rq e)
  then show ?thesis
    by (intro ids_ok_replace [OF assms(3), of xs d ys _ "[advance d cm (Failed e) (k (Failed e))]" "[]"])
      (auto simp: pending_advance pending_def)
next
  case (callback xs d ys out k r)
  then show ?thesis
    by (intro ids_ok_replace [OF assms(3), of xs d ys _ "[advance d (Callback out) r (k r)]" "[]"])
      (auto simp: pending_advance pending_def)
next
  case (finished xs d ys e)
  then show ?thesis by (intro ids_ok_replace [OF assms(3), of xs d ys _ "[]" "[]"]) auto
next
  case (crash xs d ys)
  then show ?thesis by (intro ids_ok_replace [OF assms(3), of xs d ys _ "[]" "[]"]) auto
next
  case (channel_lost xs d ys)
  then show ?thesis by (intro ids_ok_replace [OF assms(3), of xs d ys _ "[d \<lparr> dl_open := False \<rparr>]" "[]"]) auto
next
  case (tick t)
  with assms(3) show ?thesis by (simp add: ids_ok_def row_ids_def)
next
  case (flush r)
  with assms(3) show ?thesis by (simp add: ids_ok_def row_ids_def)
qed

lemma reachable_ids: "reachable R c pr w b \<Longrightarrow> ids_ok b"
proof (induction rule: reachable_induct)
  case (step b b')
  show ?case by (rule ids_step [OF step(2,1,3)])
qed (simp add: idle_broker_def ids_ok_def row_ids_def)

text \<open>Rows confirmed to a delivery are in the table, and so are those of the settled outcomes.\<close>

definition has_row :: "'r broker \<Rightarrow> settlement_row \<times> int \<Rightarrow> bool" where
  "has_row b x \<longleftrightarrow> (\<exists>s \<in> set (settlements (w_tables (bk_world b))). settlement_row.truncate s = fst x \<and> s_id s = snd x)"

definition rows_kept :: "'r broker \<Rightarrow> bool" where
  "rows_kept b \<longleftrightarrow>
     (\<forall>d \<in> set (bk_in_flight b). \<forall>x \<in> set (confirmed (dl_seen d)). has_row b x)
     \<and> (\<forall>y \<in> set (bk_outcomes b). settled (snd y) \<longrightarrow>
          (\<exists>p ins n. snd y = settled_outcome p (idempotency_key p) n \<and> has_row b (settlement_of p ins (idempotency_key p), n)))"

lemma has_row_step: "step R c pr b b' \<Longrightarrow> has_row b x \<Longrightarrow> has_row b' x"
  using step_rows [of R c pr b b'] by (auto simp: has_row_def)

lemma truncate_extend: "settlement_row.truncate (settlement_row.extend r e) = r"
  by (simp add: settlement_row.defs)

lemma perform_confirms:
  assumes "perform R cm w = (r, w')" "x \<in> set (confirmation (Service cm, r))"
  shows "\<exists>s \<in> set (settlements (w_tables w')). settlement_row.truncate s = fst x \<and> s_id s = snd x"
proof -
  obtain row n where x: "cm = InsertSettlement row" "r = RowId n" "x = (row, n)"
    using assms(2) by (cases cm; cases r) auto
  with assms(1) obtain t where "insert_settlement row (w_now w) (w_tables w) = (Inr n, t)" "w' = w \<lparr> w_tables := t \<rparr>"
    by (auto split: prod.splits sum.splits)
  then show ?thesis using x by (simp add: insert_settlement_Inr)
qed

lemma rows_kept_step:
  assumes "step R c pr b b'" "reachable R c pr w b" "rows_kept b"
  shows "rows_kept b'"
proof -
  note keep = has_row_step [OF assms(1)]
  have new: "\<exists>d' \<in> set (bk_in_flight b). set (confirmed (dl_seen d)) \<subseteq> set (confirmed (dl_seen d')) \<union> Collect (has_row b')"
    if "d \<in> set (bk_in_flight b')" "dl_seen d \<noteq> []" for d
    using assms(1)
  proof (cases rule: step.cases)
    case (service xs d' ys cm k r v)
    then have "set (confirmation (Service cm, r)) \<subseteq> Collect (has_row b')"
      using perform_confirms [of R cm "bk_world b" r v] by (auto simp: has_row_def)
    with service that show ?thesis by auto
  qed (use that in \<open>auto simp: new_delivery_def\<close>)
  have flight: "has_row b' x" if "d \<in> set (bk_in_flight b')" "x \<in> set (confirmed (dl_seen d))" for d x
  proof -
    from that(2) have "dl_seen d \<noteq> []" by auto
    then show ?thesis using new [OF that(1)] that(2) assms(3) keep unfolding rows_kept_def by blast
  qed
  have "bk_outcomes b' = bk_outcomes b \<or>
    (\<exists>d out k. d \<in> set (bk_in_flight b) \<and> dl_rest d = Do (Record out) k \<and> bk_outcomes b' = bk_outcomes b @ [(dl_body d, out)])"
    using assms(1) by (cases rule: step.cases) auto
  moreover have "\<exists>p ins n. out = settled_outcome p (idempotency_key p) n \<and> has_row b (settlement_of p ins (idempotency_key p), n)"
    if d: "d \<in> set (bk_in_flight b)" "dl_rest d = Do (Record out) k" "settled out" for d out k
  proof -
    have "after (handle_message c pr (dl_body d)) (dl_seen d) = Some (Do (Record out) k)"
      using reachable_well_run [OF assms(2)] d unfolding well_run_def by metis
    from before_record [OF this] obtain h where h: "dl_seen d = svc h" "path (process_body pr (dl_body d)) h (Inr out)" by blast
    from settled_confirmed [OF h(2)] show ?thesis
      using assms(3) d(1,3) h(1) unfolding rows_kept_def by force
  qed
  ultimately show ?thesis
    using flight assms(3) keep unfolding rows_kept_def by fastforce
qed

lemma reachable_rows_kept: "reachable R c pr w b \<Longrightarrow> rows_kept b"
proof (induction rule: reachable_induct)
  case (step b b')
  show ?case by (rule rows_kept_step [OF step(2,1,3)])
qed (simp add: idle_broker_def rows_kept_def)

text \<open>At most one settled outcome for a key, whatever happens to the deliveries and to Redis.\<close>

definition settled_for :: "string \<Rightarrow> bytes \<times> outcome \<Rightarrow> bool" where
  "settled_for k y \<longleftrightarrow> settled (snd y) \<and> o_idempotency_key (snd y) = Some k"

lemma settled_for_row:
  assumes "reachable R c pr w b" "y \<in> set (bk_outcomes b)" "settled_for k y"
  shows "\<exists>s \<in> set (settlements (w_tables (bk_world b))). s_idempotency_key s = k \<and> o_settlement_id (snd y) = Some (s_id s)"
proof -
  from reachable_rows_kept [OF assms(1)] assms(2,3)
  obtain p ins n where "snd y = settled_outcome p (idempotency_key p) n" "has_row b (settlement_of p ins (idempotency_key p), n)"
    unfolding rows_kept_def settled_for_def by blast
  moreover have "s_idempotency_key s = idempotency_key p" if "settlement_row.truncate s = settlement_of p ins (idempotency_key p)" for s
    using arg_cong [OF that, of s_idempotency_key] by (simp add: settlement_row.defs settlement_of_def)
  ultimately show ?thesis using assms(3) by (auto simp: has_row_def settled_for_def)
qed

lemma distinct_concat_filter: "distinct (concat (map f xs)) \<Longrightarrow> distinct (concat (map f (filter P xs)))"
  by (induction xs) auto

lemma settled_once:
  assumes "reachable R c pr w b" "tables_ok (w_tables w)"
  shows "length (filter (settled_for k) (bk_outcomes b)) \<le> 1"
proof -
  let ?ys = "filter (settled_for k) (bk_outcomes b)"
  have "tables_ok (w_tables (bk_world b))" by (rule reachable_tables_ok [OF assms])
  then have same: "s = s'" if "s \<in> set (settlements (w_tables (bk_world b)))" "s' \<in> set (settlements (w_tables (bk_world b)))"
      "s_idempotency_key s = k" "s_idempotency_key s' = k" for s s'
    using by_key.same_row [unfolded by_key.unique_def] that unfolding tables_ok_def by metis
  have "\<exists>n. \<forall>y \<in> set ?ys. outcome_ids y = [n]"
  proof (cases ?ys)
    case (Cons y ys)
    then have "y \<in> set (bk_outcomes b)" "settled_for k y" using filter_set [of "settled_for k" "bk_outcomes b"] by auto
    from settled_for_row [OF assms(1) this] obtain s
      where s: "s \<in> set (settlements (w_tables (bk_world b)))" "s_idempotency_key s = k" by blast
    have "outcome_ids y' = [s_id s]" if "y' \<in> set ?ys" for y'
    proof -
      from that settled_for_row [OF assms(1), of y' k] obtain s' where
        "s' \<in> set (settlements (w_tables (bk_world b)))" "s_idempotency_key s' = k" "o_settlement_id (snd y') = Some (s_id s')"
        by auto
      then show ?thesis using same [OF s(1)] s(2) by (auto simp: outcome_ids_def)
    qed
    then show ?thesis by blast
  qed simp
  then obtain n where n: "\<forall>y \<in> set ?ys. outcome_ids y = [n]" by blast
  have "distinct (concat (map outcome_ids (bk_outcomes b)))"
    using reachable_ids [OF assms(1)] by (simp add: ids_ok_def row_ids_def)
  then have "distinct (concat (map outcome_ids ?ys))" by (rule distinct_concat_filter)
  then show ?thesis using n by (cases ?ys rule: remdups_adj.cases) auto
qed

end
