(* ===== verification/Broker_Runs.thy ===== *)
theory Broker_Runs
  imports Broker_Safety Settlement_Run
begin

text \<open>
  Executions of the service under the broker: a delivery nobody disturbs, a crash between the
  claim and the insert followed by a redelivery within or after the life of the claim, and
  messages that no delivery can finish.
\<close>

section \<open>Undisturbed deliveries\<close>

lemma after_bind: "after p h = Some q \<Longrightarrow> after (bindP p f) h = Some (bindP q f)"
  by (induction p h rule: after.induct) (auto split: if_splits)

lemma after_try: "after p h = Some q \<Longrightarrow> after (tryP p hdl) h = Some (tryP q hdl)"
  by (induction p h rule: after.induct) (auto split: if_splits)

lemma after_embed: "path p h res \<Longrightarrow> after (embed p) (svc h) = Some (case res of Inl e \<Rightarrow> Raise e | Inr x \<Rightarrow> Ret x)"
  by (induction rule: path.induct) auto

lemma after_embed_some: "after p h = Some q \<Longrightarrow> after (embed p) (svc h) = Some (embed q)"
  by (induction p h rule: after.induct) (auto split: if_splits)

text \<open>The replies are the ones the services give, one after another.\<close>

fun plays :: "'r redis \<Rightarrow> 'r world \<Rightarrow> (cmd, reply) history \<Rightarrow> 'r world option" where
  "plays R w [] = Some w"
| "plays R w (x # h) = (if fst (perform R (fst x) w) = snd x then plays R (snd (perform R (fst x) w)) h else None)"

lemma plays_trace: "plays R w (trace (perform R) p w) = Some (snd (run (perform R) p w))"
  by (induction p arbitrary: w) (simp_all add: run_Do del: run.simps(3))

lemma service_steps:
  assumes "bk_in_flight b = [d]" "after (dl_rest d) (svc h) = Some q" "plays R (bk_world b) h = Some w'"
  shows "(step R c pr)\<^sup>*\<^sup>* b
    (b \<lparr> bk_world := w', bk_in_flight := [d \<lparr> dl_rest := q, dl_seen := dl_seen d @ svc h \<rparr>] \<rparr>)"
  using assms
proof (induction h arbitrary: b d)
  case Nil
  then have "b \<lparr> bk_world := w', bk_in_flight := [d \<lparr> dl_rest := q, dl_seen := dl_seen d @ svc [] \<rparr>] \<rparr> = b" by simp
  then show ?case by simp
next
  case (Cons x h)
  obtain cm r where x: "x = (cm, r)" by fastforce
  from Cons.prems(2) obtain k where k: "dl_rest d = Do (Service cm) k" "after (k r) (svc h) = Some q"
    by (cases "dl_rest d") (auto simp: x split: if_splits)
  from Cons.prems(3) obtain v where v: "perform R cm (bk_world b) = (r, v)" "plays R v h = Some w'"
    by (cases "perform R cm (bk_world b)") (auto simp: x split: if_splits)
  let ?b = "b \<lparr> bk_world := v, bk_in_flight := [advance d (Service cm) r (k r)] \<rparr>"
  have "step R c pr b ?b"
    using step.service [of b "[]" d "[]" cm k R r v c pr] Cons.prems(1) k(1) v(1) by simp
  moreover have "(step R c pr)\<^sup>*\<^sup>* ?b (?b \<lparr> bk_world := w', bk_in_flight :=
      [(advance d (Service cm) r (k r)) \<lparr> dl_rest := q, dl_seen := dl_seen (advance d (Service cm) r (k r)) @ svc h \<rparr>] \<rparr>)"
    by (rule Cons.IH) (use k v in simp_all)
  ultimately show ?case by (simp add: advance_def x)
qed

text \<open>A delivery that the broker hands over and nothing disturbs.\<close>

definition answered_broker :: "'r broker \<Rightarrow> bytes \<Rightarrow> bytes list \<Rightarrow> outcome \<Rightarrow> 'r world \<Rightarrow> 'r broker" where
  "answered_broker b raw q out w' =
     b \<lparr> bk_world := w', bk_queue := q @ (if o_retryable out then [raw] else []),
        bk_outcomes := bk_outcomes b @ [(raw, out)],
        bk_acked := bk_acked b @ (if o_retryable out then [] else [raw]) \<rparr>"

lemma undisturbed_delivery:
  assumes "bk_in_flight b = []" "bk_queue b = raw # q" "\<not> c_on_outcome c"
    and "run (perform R) (process_body pr raw) (bk_world b) = (Inr out, w')"
  shows "(step R c pr)\<^sup>*\<^sup>* b (answered_broker b raw q out w')"
proof -
  let ?h = "trace (perform R) (process_body pr raw) (bk_world b)"
  let ?t = "tryP (bindP (process pr raw) (\<lambda>out. Ret (Some out))) (\<lambda>e. Some (handler_crashed c))"
  let ?tail = "hcall (verdict_cmd out) (Ret ())"
  let ?q = "Do (Record out) (\<lambda>_. ?tail)"
  have path: "path (process_body pr raw) ?h (Inr out)" using path_trace [of _ "perform R" "bk_world b"] assms(4) by (metis fst_conv)
  have "after (handle_message c pr raw) (svc ?h) = Some ?q"
    using assms(3)
    by (simp add: handle_message_def process_def answer_def
        after_bind [OF after_try [OF after_bind [OF after_bind [OF after_embed [OF path]]]]])
  moreover have "plays R (bk_world b) ?h = Some w'" using plays_trace [of R "bk_world b"] assms(4) by (metis snd_conv)
  moreover define d where "d = new_delivery c pr raw"
  moreover define b1 where "b1 = b \<lparr> bk_queue := q, bk_in_flight := [d] \<rparr>"
  ultimately have run: "(step R c pr)\<^sup>*\<^sup>* b1
      (b1 \<lparr> bk_world := w', bk_in_flight := [d \<lparr> dl_rest := ?q, dl_seen := svc ?h \<rparr>] \<rparr>)"
    using service_steps [of b1 d ?h ?q R w' c pr] by (simp add: new_delivery_def)
  have deliver: "step R c pr b b1"
    using step.deliver [of b "[]" raw q R c pr] assms(1,2) by (simp add: b1_def d_def)
  define d2 where "d2 = d \<lparr> dl_rest := ?q, dl_seen := svc ?h \<rparr>"
  define b2 where "b2 = b1 \<lparr> bk_world := w', bk_in_flight := [d2] \<rparr>"
  define d3 where "d3 = advance d2 (Record out) Done ?tail"
  define b3 where "b3 = b2 \<lparr> bk_outcomes := bk_outcomes b2 @ [(raw, out)], bk_in_flight := [d3] \<rparr>"
  have recorded: "step R c pr b2 b3"
    using step.record_outcome [of b2 "[]" d2 "[]" out "\<lambda>_. ?tail" R c pr]
    by (simp add: b2_def b3_def d3_def d2_def d_def new_delivery_def)
  have verdict: "\<exists>b4 d4. step R c pr b3 b4 \<and> bk_in_flight b4 = [d4] \<and> dl_rest d4 = Ret () \<and> \<not> dl_open d4
      \<and> b4 \<lparr> bk_in_flight := [] \<rparr> = answered_broker b raw q out w'"
  proof (cases "o_retryable out")
    case True
    have "step R c pr b3 (b3 \<lparr> bk_queue := bk_queue b3 @ [raw],
        bk_in_flight := [(advance d3 (Nack True) Done (Ret ())) \<lparr> dl_open := False \<rparr>] \<rparr>)" (is "step _ _ _ _ ?b4")
      using step.nack [of b3 "[]" d3 "[]" True "\<lambda>r. case r of Failed e \<Rightarrow> Raise e | _ \<Rightarrow> Ret ()" R c pr] True
      by (simp add: b3_def d3_def d2_def d_def new_delivery_def hcall_def verdict_cmd_def)
    then have *: "step R c pr b3 ?b4" .
    show ?thesis
    proof (intro exI conjI)
      show "step R c pr b3 ?b4" by (rule *)
      show "bk_in_flight ?b4 = [(advance d3 (Nack True) Done (Ret ())) \<lparr> dl_open := False \<rparr>]" by simp
    qed (use True assms(1) in \<open>simp_all add: answered_broker_def b3_def b2_def b1_def\<close>)
  next
    case False
    have "step R c pr b3 (b3 \<lparr> bk_acked := bk_acked b3 @ [raw],
        bk_in_flight := [(advance d3 Ack Done (Ret ())) \<lparr> dl_open := False \<rparr>] \<rparr>)" (is "step _ _ _ _ ?b4")
      using step.ack [of b3 "[]" d3 "[]" "\<lambda>r. case r of Failed e \<Rightarrow> Raise e | _ \<Rightarrow> Ret ()" R c pr] False
      by (simp add: b3_def d3_def d2_def d_def new_delivery_def hcall_def verdict_cmd_def)
    then have *: "step R c pr b3 ?b4" .
    show ?thesis
    proof (intro exI conjI)
      show "step R c pr b3 ?b4" by (rule *)
      show "bk_in_flight ?b4 = [(advance d3 Ack Done (Ret ())) \<lparr> dl_open := False \<rparr>]" by simp
    qed (use False assms(1) in \<open>simp_all add: answered_broker_def b3_def b2_def b1_def\<close>)
  qed
  then obtain b4 d4 where b4: "step R c pr b3 b4" "bk_in_flight b4 = [d4]" "dl_rest d4 = Ret ()" "\<not> dl_open d4"
      "b4 \<lparr> bk_in_flight := [] \<rparr> = answered_broker b raw q out w'" by blast
  have "step R c pr b4 (answered_broker b raw q out w')"
    using step.finished [of b4 "[]" d4 "[]" _ R c pr] b4(2-5) by (simp add: requeue_def)
  with deliver run recorded b4(1) show ?thesis
    unfolding b2_def [symmetric] d2_def [symmetric]
    by (meson converse_rtranclp_into_rtranclp rtranclp.rtrancl_into_rtrancl rtranclp_trans)
qed

section \<open>A crash while the claim is held\<close>

context redis_service begin

lemma claimed_then_crashed:
  assumes "bk_in_flight b = []" "bk_queue b = raw # q" "pr_dedupe pr = d"
    and p: "packet_of_json_bytes (pr_validator pr) raw = Inr p" "admissible pr p (w_now (bk_world b))"
    and free: "held_in R (w_redis (bk_world b)) (w_now (bk_world b)) (idempotency_key p) = None"
  shows "(step R c pr)\<^sup>*\<^sup>* b (b \<lparr> bk_queue := q @ [raw], bk_world := bk_world b
    \<lparr> w_redis := snd (claim_in R d (w_redis (bk_world b)) (w_now (bk_world b)) (idempotency_key p)) \<rparr> \<rparr>)"
proof -
  let ?w = "bk_world b" and ?k = "idempotency_key p"
  let ?h = "[(ClockNow, Time (w_now ?w)), (claim_cmd pr ?k, Truth True)]"
  let ?w' = "?w \<lparr> w_redis := snd (claim_in R d (w_redis ?w) (w_now ?w) ?k) \<rparr>"
  define d0 where "d0 = new_delivery c pr raw"
  define b1 where "b1 = b \<lparr> bk_queue := q, bk_in_flight := [d0] \<rparr>"
  have "after (process_body pr raw) ?h = Some (with_claim pr p ?k)"
    using p assms(3) by (simp add: process_body_def process_packet_def check_freshness_def clock_def admissible_def
        fresh_at_def claim_and_settle_def claim_def call_def Let_def claim_cmd_def)
  note body = after_embed_some [OF this]
  have "\<exists>rest. after (dl_rest d0) (svc ?h) = Some rest"
    unfolding d0_def new_delivery_def handle_message_def process_def delivery.simps
    by (rule exI, rule after_bind, rule after_try, rule after_bind, rule after_bind, rule body)
  then obtain rest where rest: "after (dl_rest d0) (svc ?h) = Some rest" by blast
  obtain ok r where set: "rd_set R (w_redis ?w) (w_now ?w) ?k (utf8_encode claimed_marker) True (claim_ttl d) = (ok, r)"
    by fastforce
  have "ok" using set_ok [OF ttls(1), of "w_redis ?w" "w_now ?w" ?k "utf8_encode claimed_marker" True] set free
    by (simp add: held_None)
  with set have plays: "plays R ?w ?h = Some ?w'"
    using assms(3) by (simp add: claim_cmd_def claim_in_simps)
  have run: "(step R c pr)\<^sup>*\<^sup>* b1
      (b1 \<lparr> bk_world := ?w', bk_in_flight := [d0 \<lparr> dl_rest := rest, dl_seen := dl_seen d0 @ svc ?h \<rparr>] \<rparr>)"
  proof (rule service_steps)
    show "plays R (bk_world b1) ?h = Some ?w'" using plays by (simp add: b1_def del: plays.simps)
  qed (rule rest | simp add: b1_def)+
  have deliver: "step R c pr b b1"
    using step.deliver [of b "[]" raw q R c pr] assms(1,2) by (simp add: b1_def d0_def)
  have "step R c pr (b1 \<lparr> bk_world := ?w', bk_in_flight := [d0 \<lparr> dl_rest := rest, dl_seen := dl_seen d0 @ svc ?h \<rparr>] \<rparr>)
      (b \<lparr> bk_queue := q @ [raw], bk_world := ?w' \<rparr>)" (is "step _ _ _ ?b2 _")
    using step.crash [of ?b2 "[]" "d0 \<lparr> dl_rest := rest, dl_seen := dl_seen d0 @ svc ?h \<rparr>" "[]" R c pr] assms(1)
    by (cases b) (simp add: b1_def requeue_def d0_def new_delivery_def)
  with deliver run show ?thesis by (meson converse_rtranclp_into_rtranclp rtranclp.rtrancl_into_rtrancl)
qed

text \<open>Published, taken up, crashed, requeued; then the clock stands at a later time.\<close>

definition crashed_broker :: "'r world \<Rightarrow> string \<Rightarrow> bytes \<Rightarrow> instant \<Rightarrow> 'r broker" where
  "crashed_broker w k raw t =
     idle_broker (w \<lparr> w_redis := snd (claim_in R d (w_redis w) (w_now w) k), w_now := t \<rparr>)
       \<lparr> bk_queue := [raw], bk_published := [raw] \<rparr>"

lemma reaches_crashed:
  assumes "pr_dedupe pr = d" "packet_of_json_bytes (pr_validator pr) raw = Inr p" "admissible pr p (w_now w)"
    and "held_in R (w_redis w) (w_now w) (idempotency_key p) = None" "w_now w \<le> t"
  shows "reachable R c pr w (crashed_broker w (idempotency_key p) raw t)"
proof -
  let ?b0 = "idle_broker w" and ?b1 = "(idle_broker w) \<lparr> bk_queue := [raw], bk_published := [raw] \<rparr>"
  let ?b2 = "?b1 \<lparr> bk_queue := [] @ [raw], bk_world := bk_world ?b1
    \<lparr> w_redis := snd (claim_in R d (w_redis (bk_world ?b1)) (w_now (bk_world ?b1)) (idempotency_key p)) \<rparr> \<rparr>"
  have "step R c pr ?b0 ?b1"
    using step.publish [of R c pr ?b0 raw] by (simp add: idle_broker_def)
  moreover have "(step R c pr)\<^sup>*\<^sup>* ?b1 ?b2"
    by (rule claimed_then_crashed) (use assms in \<open>simp_all add: idle_broker_def\<close>)
  moreover have "step R c pr ?b2 (crashed_broker w (idempotency_key p) raw t)"
    using step.tick [of ?b2 t R c pr] assms(5) by (simp add: crashed_broker_def idle_broker_def)
  ultimately show ?thesis
    unfolding reachable_def by (meson converse_rtranclp_into_rtranclp rtranclp.rtrancl_into_rtrancl)
qed

text \<open>Redelivered within the life of the claim, the message is acknowledged and never settles.\<close>

lemma early_redelivery:
  assumes "pr_dedupe pr = d" "\<not> c_on_outcome c" "packet_of_json_bytes (pr_validator pr) raw = Inr p"
    and "admissible pr p (w_now w)" "held_in R (w_redis w) (w_now w) (idempotency_key p) = None"
    and "w_now w \<le> t" "t < w_now w + claim_ttl d * us_per_second" "admissible pr p t"
  shows "\<exists>b. reachable R c pr w b \<and> bk_published b = [raw] \<and> bk_queue b = [] \<and> bk_in_flight b = []
    \<and> bk_acked b = [raw] \<and> settlements (w_tables (bk_world b)) = settlements (w_tables w)"
proof -
  let ?b = "crashed_broker w (idempotency_key p) raw t"
  have "held_in R (w_redis (bk_world ?b)) (w_now (bk_world ?b)) (idempotency_key p) = Some claimed_marker"
    using assms(5-7) by (simp add: crashed_broker_def idle_broker_def claim_effect)
  from run_lost [OF assms(1) this, of p] obtain w' out where w': "run (perform R) (process_body pr raw) (bk_world ?b) = (Inr out, w')"
    "w_tables w' = w_tables (bk_world ?b)" "\<not> o_retryable out"
    using run_process_admissible [OF assms(3), of "bk_world ?b"] assms(8)
    by (auto simp: crashed_broker_def idle_broker_def)
  have "(step R c pr)\<^sup>*\<^sup>* ?b (answered_broker ?b raw [] out w')"
    by (rule undisturbed_delivery) (use assms(2) w'(1) in \<open>simp_all add: crashed_broker_def idle_broker_def\<close>)
  moreover have "reachable R c pr w ?b" by (rule reaches_crashed) (use assms in simp_all)
  ultimately have "reachable R c pr w (answered_broker ?b raw [] out w')"
    unfolding reachable_def by (rule rtranclp_trans [rotated])
  then show ?thesis
    using w'(2,3) by (intro exI [of _ "answered_broker ?b raw [] out w'"])
      (simp add: answered_broker_def crashed_broker_def idle_broker_def)
qed

text \<open>Redelivered once the claim has run out, it settles.\<close>

lemma late_redelivery:
  assumes "pr_dedupe pr = d" "\<not> c_on_outcome c" "packet_of_json_bytes (pr_validator pr) raw = Inr p"
    and "admissible pr p (w_now w)" "\<And>t. w_now w \<le> t \<Longrightarrow> held_in R (w_redis w) t (idempotency_key p) = None"
    and "w_now w + claim_ttl d * us_per_second \<le> t" "admissible pr p t" "opens_to pr p ins"
    and "int (hop_count p) < 2 ^ 31" "\<not> settlement_conflicts (settlement_of p ins (idempotency_key p)) (w_tables w)"
  shows "\<exists>b s. reachable R c pr w b \<and> bk_published b = [raw] \<and> bk_queue b = [] \<and> bk_in_flight b = []
    \<and> bk_acked b = [raw] \<and> settlements (w_tables (bk_world b)) = settlements (w_tables w) @ [s]
    \<and> settlement_row.truncate s = settlement_of p ins (idempotency_key p)"
proof -
  let ?b = "crashed_broker w (idempotency_key p) raw t" and ?k = "idempotency_key p"
  have "0 < claim_ttl d * us_per_second" using ttls(1) by (simp add: us_per_second_def)
  then have le: "w_now w \<le> t" using assms(6) by linarith
  then have free: "held_in R (w_redis (bk_world ?b)) (w_now (bk_world ?b)) ?k = None"
    using assms(5,6) by (simp add: crashed_broker_def idle_broker_def claim_effect)
  have "settlement_storable (settlement_of p ins ?k)" "settlement_checks (settlement_of p ins ?k)"
    using settlement_of_storable assms(8,9) packet_of_json_bytes_wf [OF assms(3)] open_instruction_Inr(1)
    unfolding opens_to_def by blast+
  then obtain n t' where ins: "insert_settlement (settlement_of p ins ?k) (w_now (bk_world ?b)) (w_tables (bk_world ?b)) = (Inr n, t')"
      "settlements t' = settlements (w_tables w) @
        [settlement_row.extend (settlement_of p ins ?k) \<lparr> s_id = n, s_settled_at = w_now (bk_world ?b) \<rparr>]"
    using assms(10) by (simp add: insert_settlement_def Let_def crashed_broker_def idle_broker_def)
  obtain w' where w': "run (perform R) (process_body pr raw) (bk_world ?b) = (Inr (settled_outcome p ?k n), w')"
    "w_tables w' = t'"
    using run_settles [OF assms(1,8) free ins(1)] run_process_admissible [OF assms(3), of "bk_world ?b"] assms(7)
    by (auto simp: crashed_broker_def idle_broker_def)
  have "(step R c pr)\<^sup>*\<^sup>* ?b (answered_broker ?b raw [] (settled_outcome p ?k n) w')"
    by (rule undisturbed_delivery) (use assms(2) w'(1) in \<open>simp_all add: crashed_broker_def idle_broker_def\<close>)
  moreover have "reachable R c pr w ?b" by (rule reaches_crashed) (use assms le in simp_all)
  ultimately have "reachable R c pr w (answered_broker ?b raw [] (settled_outcome p ?k n) w')"
    unfolding reachable_def by (rule rtranclp_trans [rotated])
  then show ?thesis
    using w'(2) ins(2)
    by (intro exI [of _ "answered_broker ?b raw [] (settled_outcome p ?k n) w'"] exI)
      (auto simp: answered_broker_def crashed_broker_def idle_broker_def)
qed

end

section \<open>Messages no delivery can finish\<close>

lemma reachable_outcomes:
  "reachable R c pr w b \<Longrightarrow> \<forall>y \<in> set (bk_outcomes b). \<exists>h. path (process_body pr (fst y)) h (Inr (snd y))"
proof (induction rule: reachable_induct)
  case (step b b')
  have "bk_outcomes b' = bk_outcomes b \<or>
    (\<exists>d out k. d \<in> set (bk_in_flight b) \<and> dl_rest d = Do (Record out) k \<and> bk_outcomes b' = bk_outcomes b @ [(dl_body d, out)])"
    using step(2) by (cases rule: step.cases) auto
  moreover have "\<exists>h. path (process_body pr (dl_body d)) h (Inr out)"
    if "d \<in> set (bk_in_flight b)" "dl_rest d = Do (Record out) k" for d out k
  proof -
    have "after (handle_message c pr (dl_body d)) (dl_seen d) = Some (Do (Record out) k)"
      using reachable_well_run [OF step(1)] that unfolding well_run_def by metis
    from before_record [OF this] show ?thesis by blast
  qed
  ultimately show ?case using step(3) by auto
qed (simp add: idle_broker_def)

text \<open>
  A creation time without a UTC instant: the fields before it only add validation errors, and
  the \<^verbatim>\<open>OverflowError\<close> of the third field leaves the validation.
\<close>

lemma overflow_escapes:
  assumes "map_of kvs ''created_at'' = Some j"
    and "pd_datetime pd JsonMode j = Some \<lparr> wall_us = wall, utcoffset_us = Some off \<rparr>" "\<not> valid_instant (wall - off)"
  shows "validate_packet pd JsonMode (JObj kvs) = Inl (OverflowError ''date value out of range'')"
proof -
  have "\<exists>es. field_errors (get_field pd kvs ''packet_id'' (read_uuid pd JsonMode)) = Inr es"
    by (auto simp: field_errors_def get_field_def at_loc_def read_uuid_def require_def verrs_def split: option.split)
  then obtain es where 1: "field_errors (get_field pd kvs ''packet_id'' (read_uuid pd JsonMode)) = Inr es" ..
  have "\<exists>es. field_errors (get_field pd kvs ''sender_id'' (read_pattern pd identifier_pattern)) = Inr es"
    by (auto simp: field_errors_def get_field_def at_loc_def read_pattern_def check_pattern_def verrs_def
        split: option.split json.split)
  then obtain es' where 2: "field_errors (get_field pd kvs ''sender_id'' (read_pattern pd identifier_pattern)) = Inr es'" ..
  have "get_field pd kvs ''created_at'' (read_timestamp pd JsonMode) = Inl (OverflowError ''date value out of range'')"
    using assms by (simp add: get_field_def at_loc_def read_timestamp_def require_def check_timestamp_def
        run_validator_def normalize_to_utc_def astimezone_utc_def sum_bind_def)
  then have 3: "field_errors (get_field pd kvs ''created_at'' (read_timestamp pd JsonMode))
      = Inl (OverflowError ''date value out of range'')" by (simp add: field_errors_def)
  show ?thesis
    by (simp add: validate_packet_def make_packet_def build_model_def 1 2 3 sum_bind_def)
qed

lemma poison_not_acked:
  assumes "reachable R c pr w b" "packet_of_json_bytes (pr_validator pr) raw = Inl e" "\<And>es. e \<noteq> ValidationError es"
  shows "raw \<notin> set (bk_acked b)"
proof
  assume "raw \<in> set (bk_acked b)"
  then obtain out where "(raw, out) \<in> set (bk_outcomes b)" using reachable_acked [OF assms(1)] by blast
  then obtain h where "path (process_body pr raw) h (Inr out)" using reachable_outcomes [OF assms(1)] by auto
  with assms(2,3) show False by (cases e) (auto simp: process_body_def)
qed

end
