(* ===== verification/Http.thy ===== *)
theory Http
  imports Packet_Facts Logging Effects
begin

text \<open>
  What the HTTP services share: the commands of a route (the clock, fresh values, calls to
  other nodes, the queue, the log), what the web framework hands to a route, and the error
  bodies.  FastAPI, slowapi and httpx are the incoming request and the replies.
\<close>

section \<open>Commands of a route\<close>

record http_response =
  hr_status :: int
  hr_content :: bytes
  hr_media_type :: "string option"

datatype node_cmd =
    Post string bytes
  | PostJson string json
  | Get string
  | Publish bytes string
  | Now
  | NewId
  | NewKeys
  | Say string string event

datatype node_reply =
    Answered http_response
  | Moment instant
  | Id uuid
  | Keys fresh
  | Fine
  | Broken exn

type_synonym 'a route = "(node_cmd, node_reply, 'a) prog"

definition say :: "string \<Rightarrow> string \<Rightarrow> event \<Rightarrow> 'a route \<Rightarrow> 'a route" where
  "say level name ev p = Do (Say level name ev) (\<lambda>_. p)"

definition current_time :: "(instant \<Rightarrow> 'a route) \<Rightarrow> 'a route" where
  "current_time f = Do Now (\<lambda>r. case r of Moment t \<Rightarrow> f t | Broken e \<Rightarrow> Raise e | _ \<Rightarrow> Raise (OtherError ''no time''))"

text \<open>\<^verbatim>\<open>raise_for_status\<close> of httpx: anything but a 2xx status is an \<^verbatim>\<open>HTTPError\<close>.\<close>

definition is_success :: "http_response \<Rightarrow> bool" where
  "is_success r \<longleftrightarrow> 200 \<le> hr_status r \<and> hr_status r \<le> 299"

text \<open>
  A call under \<^verbatim>\<open>try ... except httpx.HTTPError\<close>, with the status checked or not.
  An \<^const>\<open>HTTPError\<close> carries the name of its class; a bad status is
  \<^verbatim>\<open>HTTPStatusError\<close>.
\<close>

definition checked_post :: "string \<Rightarrow> bytes \<Rightarrow> (string \<Rightarrow> 'a route) \<Rightarrow> (http_response \<Rightarrow> 'a route) \<Rightarrow> 'a route" where
  "checked_post url body failure f =
     Do (Post url body) (\<lambda>r. case r of
         Answered resp \<Rightarrow> if is_success resp then f resp else failure ''HTTPStatusError''
       | Broken (HTTPError name) \<Rightarrow> failure name
       | Broken e \<Rightarrow> Raise e
       | _ \<Rightarrow> Raise (OtherError ''no response''))"

definition proxied :: "node_cmd \<Rightarrow> 'a route \<Rightarrow> (http_response \<Rightarrow> 'a route) \<Rightarrow> 'a route" where
  "proxied cm failure f =
     Do cm (\<lambda>r. case r of
         Answered resp \<Rightarrow> f resp
       | Broken (HTTPError _) \<Rightarrow> failure
       | Broken e \<Rightarrow> Raise e
       | _ \<Rightarrow> Raise (OtherError ''no response''))"

section \<open>Requests and answers\<close>

text \<open>The limiter refused, the body did not validate, or the route gets the parsed body.\<close>

datatype 'a incoming =
    RateLimited string
  | Invalid "verr list"
  | Accepted 'a

record service_error =
  se_code :: error_code
  se_detail :: string
  se_http_status :: int

record http_json =
  hj_status :: int
  hj_body :: json

definition error_json :: "error_code \<Rightarrow> string \<Rightarrow> json" where
  "error_json code detail = JObj [(''code'', JStr (error_code_value code)), (''detail'', JStr detail)]"

text \<open>\<^verbatim>\<open>_error_response\<close>.\<close>

definition error_answer :: "error_code \<Rightarrow> string \<Rightarrow> int \<Rightarrow> http_json" where
  "error_answer code detail status = \<lparr> hj_status = status, hj_body = error_json code detail \<rparr>"

definition error_of :: "service_error \<Rightarrow> http_json" where
  "error_of e = error_answer (se_code e) (se_detail e) (se_http_status e)"

fun join_with :: "string \<Rightarrow> string list \<Rightarrow> string" where
  "join_with sep [] = []"
| "join_with sep [x] = x"
| "join_with sep (x # y # ys) = x @ sep @ join_with sep (y # ys)"

text \<open>\<^verbatim>\<open>_first_validation_message\<close>.\<close>

definition first_validation_message :: "verr list \<Rightarrow> string" where
  "first_validation_message errors =
     (case errors of
        [] \<Rightarrow> ''request body failed validation''
      | e # _ \<Rightarrow>
          (let location = join_with ''.'' (filter (\<lambda>part. part \<noteq> ''body'') (loc e))
           in (if location = [] then ''body'' else location) @ '': '' @ msg e))"

text \<open>\<^verbatim>\<open>url.rstrip("/")\<close>.\<close>

definition rstrip_slash :: "string \<Rightarrow> string" where
  "rstrip_slash s = rev (dropWhile (\<lambda>c. c = CHR ''/'') (rev s))"

text \<open>The exception handlers of an application around one route.\<close>

definition serve ::
  "string \<Rightarrow> ('b \<Rightarrow> http_json) \<Rightarrow> (service_error \<Rightarrow> event option) \<Rightarrow> ('a \<Rightarrow> (service_error + 'b) route)
   \<Rightarrow> 'a incoming \<Rightarrow> http_json route" where
  "serve service render log_error route req =
     (case req of
        RateLimited limit \<Rightarrow>
          say ''warning'' (service @ ''.rate_limited'') [(''limit'', limit)]
            (Ret (error_answer INTERNAL_ERROR ''rate limit exceeded'' 429))
      | Invalid errs \<Rightarrow>
          say ''warning'' (service @ ''.packet_rejected'') [(''reason'', error_code_value MALFORMED_PAYLOAD)]
            (Ret (error_answer MALFORMED_PAYLOAD (first_validation_message errs) 422))
      | Accepted x \<Rightarrow>
          bindP (route x) (\<lambda>res. case res of
            Inr v \<Rightarrow> Ret (render v)
          | Inl e \<Rightarrow>
              (case log_error e of
                 None \<Rightarrow> Ret (error_of e)
               | Some ev \<Rightarrow> say ''warning'' (service @ ''.packet_rejected'') ev (Ret (error_of e)))))"

text \<open>The commands of a route against a clock, a publisher and the other nodes.\<close>

fun node_exec ::
  "instant \<Rightarrow> (bytes \<Rightarrow> string \<Rightarrow> 's \<Rightarrow> (exn + unit) \<times> 's) \<Rightarrow> (string \<Rightarrow> bytes \<Rightarrow> 's \<Rightarrow> node_reply \<times> 's)
   \<Rightarrow> node_cmd \<Rightarrow> 's \<Rightarrow> node_reply \<times> 's" where
  "node_exec now pub post (Publish body mid) s = (case pub body mid s of (Inl e, s') \<Rightarrow> (Broken e, s') | (Inr _, s') \<Rightarrow> (Fine, s'))"
| "node_exec now pub post (Post url body) s = post url body s"
| "node_exec now pub post Now s = (Moment now, s)"
| "node_exec now pub post (Say l n ev) s = (Fine, s)"
| "node_exec now pub post c s = (Broken (OtherError ''not available''), s)"

section \<open>Facts\<close>

lemma rstrip_slash_end: "rstrip_slash s = [] \<or> last (rstrip_slash s) \<noteq> CHR ''/''"
proof (cases "dropWhile (\<lambda>c. c = CHR ''/'') (rev s)")
  case (Cons c cs)
  then have "c \<noteq> CHR ''/''" using hd_dropWhile [of "\<lambda>c. c = CHR ''/''" "rev s"] by simp
  with Cons show ?thesis by (simp add: rstrip_slash_def)
qed (simp add: rstrip_slash_def)

lemma rstrip_slash_idem [simp]: "rstrip_slash (rstrip_slash s) = rstrip_slash s"
  by (simp add: rstrip_slash_def)

lemma path_say [simp]: "path (say l n ev p) h res \<longleftrightarrow> (\<exists>r h'. h = (Say l n ev, r) # h' \<and> path p h' res)"
  by (auto simp: say_def path_Do_iff)

lemma run_say [simp]: "run (node_exec now pub post) (say l n ev p) s = run (node_exec now pub post) p s"
  by (simp add: say_def)

lemma run_current_time [simp]:
  "run (node_exec now pub post) (current_time f) s = run (node_exec now pub post) (f now) s"
  by (simp add: current_time_def)

lemma path_current_time:
  "path (current_time f) h res \<Longrightarrow>
     (\<exists>t h'. h = (Now, Moment t) # h' \<and> path (f t) h' res) \<or> (\<exists>r e. h = [(Now, r)] \<and> res = Inl e)"
proof -
  assume "path (current_time f) h res"
  then obtain r h' where "h = (Now, r) # h'"
    "path (case r of Moment t \<Rightarrow> f t | Broken e \<Rightarrow> Raise e | _ \<Rightarrow> Raise (OtherError ''no time'')) h' res"
    unfolding current_time_def path_Do_iff by blast
  then show ?thesis by (cases r) auto
qed

lemma path_checked_post:
  "path (checked_post url body failure f) h res \<Longrightarrow>
     (\<exists>resp h'. h = (Post url body, Answered resp) # h' \<and> is_success resp \<and> path (f resp) h' res)
     \<or> (\<exists>r h'. h = (Post url body, r) # h' \<and> (\<exists>name. path (failure name) h' res)
          \<and> ((\<exists>m. r = Broken (HTTPError m)) \<or> (\<exists>resp. r = Answered resp \<and> \<not> is_success resp)))
     \<or> (\<exists>r e. h = [(Post url body, r)] \<and> res = Inl e \<and> (\<forall>m. r \<noteq> Broken (HTTPError m)) \<and> (\<forall>resp. r \<noteq> Answered resp))"
proof -
  assume "path (checked_post url body failure f) h res"
  then obtain r h' where h: "h = (Post url body, r) # h'"
    "path (case r of
         Answered resp \<Rightarrow> if is_success resp then f resp else failure ''HTTPStatusError''
       | Broken (HTTPError name) \<Rightarrow> failure name
       | Broken e \<Rightarrow> Raise e
       | _ \<Rightarrow> Raise (OtherError ''no response'')) h' res"
    unfolding checked_post_def path_Do_iff by blast
  show ?thesis
  proof (cases r)
    case (Broken e)
    with h show ?thesis by (cases e) auto
  qed (use h in \<open>auto split: if_splits\<close>)
qed

end
