(* ===== verification/Mesh_Relay.thy ===== *)
theory Mesh_Relay
  imports Http Config
begin

text \<open>
  \<^verbatim>\<open>services/mesh_relay/app.py\<close>: one hop.  A relay verifies, enforces its hop limit,
  appends a hop record and forwards to the next relay or to the bridge.
\<close>

record relay_config =
  rc_node_id :: string
  rc_next_relay_url :: string
  rc_bridge_url :: string
  rc_hop_count_target :: int
  rc_hop_limit :: int

definition relay_config_from_settings :: "settings \<Rightarrow> relay_config" where
  "relay_config_from_settings s =
     \<lparr> rc_node_id = mesh_node_id s, rc_next_relay_url = mesh_relay_url s, rc_bridge_url = bridge_url s,
       rc_hop_count_target = mesh_hop_count s, rc_hop_limit = mesh_hop_limit s \<rparr>"

definition next_destination :: "relay_config \<Rightarrow> int \<Rightarrow> string \<times> packet_status" where
  "next_destination cfg n =
     (if rc_hop_count_target cfg \<le> n then (rstrip_slash (rc_bridge_url cfg) @ ''/bridge'', BRIDGED)
      else (rstrip_slash (rc_next_relay_url cfg) @ ''/relay'', RELAYED))"

definition relay_rejected :: "relay_config \<Rightarrow> packet \<Rightarrow> event \<Rightarrow> service_error \<Rightarrow> (service_error + 'b) route" where
  "relay_rejected cfg p extra e =
     say ''warning'' ''mesh_relay.packet_rejected''
       ([(''node_id'', rc_node_id cfg), (''packet_id'', uuid_str (p_packet_id p))] @ extra) (Ret (Inl e))"

definition forward_failed :: "relay_config \<Rightarrow> packet \<Rightarrow> string \<Rightarrow> string \<Rightarrow> (service_error + 'b) route" where
  "forward_failed cfg p destination error =
     say ''warning'' ''mesh_relay.forward_failed''
       [(''node_id'', rc_node_id cfg), (''packet_id'', uuid_str (p_packet_id p)), (''destination'', destination),
        (''error'', error)]
       (Ret (Inl \<lparr> se_code = INTERNAL_ERROR, se_detail = ''could not forward the packet to the next node'',
                  se_http_status = 502 \<rparr>))"

text \<open>Step 4: forward the packet that carries this node's hop.\<close>

definition send_on :: "pydantic \<Rightarrow> relay_config \<Rightarrow> packet \<Rightarrow> (service_error + relay_response) route" where
  "send_on pd cfg forwarded =
     (let dest = next_destination cfg (int (hop_count forwarded)) in
      checked_post (fst dest) (packet_to_json_bytes pd forwarded)
        (forward_failed cfg forwarded (fst dest))
        (\<lambda>_. say ''info'' ''mesh_relay.packet_forwarded''
           [(''node_id'', rc_node_id cfg), (''packet_id'', uuid_str (p_packet_id forwarded)),
            (''hop_count'', show_nat (hop_count forwarded)), (''destination'', fst dest)]
           (Ret (Inr \<lparr> rr_status = snd dest, rr_node_id = rc_node_id cfg,
                      rr_hop_count = int (hop_count forwarded), rr_forwarded_to = fst dest,
                      rr_packet_id = p_packet_id forwarded \<rparr>))))"

text \<open>Step 3: record the hop.\<close>

definition forward :: "pydantic \<Rightarrow> relay_config \<Rightarrow> packet \<Rightarrow> (service_error + relay_response) route" where
  "forward pd cfg packet =
     current_time (\<lambda>now.
       case new_hop pd (rc_node_id cfg) (utc_datetime now) of
         Inl e \<Rightarrow> Raise e
       | Inr h \<Rightarrow> send_on pd cfg (append_hop packet h))"

definition relay :: "pydantic \<Rightarrow> crypto \<Rightarrow> bytes \<Rightarrow> relay_config \<Rightarrow> packet \<Rightarrow> (service_error + relay_response) route" where
  "relay pd c sender_key cfg packet =
     (case verify c packet sender_key of
        Some (SignatureVerificationError _) \<Rightarrow>
          relay_rejected cfg packet
            [(''reason'', error_code_value INVALID_SIGNATURE), (''signature_fp'', safe_fingerprint (p_signature packet) 12)]
            \<lparr> se_code = INVALID_SIGNATURE, se_detail = ''packet signature did not verify'', se_http_status = 400 \<rparr>
      | Some e \<Rightarrow> Raise e
      | None \<Rightarrow>
          if rc_hop_limit cfg \<le> int (hop_count packet) then
            relay_rejected cfg packet
              [(''reason'', ''HOP_LIMIT_EXCEEDED''), (''hop_count'', show_nat (hop_count packet))]
              \<lparr> se_code = MALFORMED_PAYLOAD,
                se_detail = ''packet exceeded the hop limit of '' @ show_int (rc_hop_limit cfg), se_http_status = 400 \<rparr>
          else forward pd cfg packet)"

definition relay_json :: "relay_response \<Rightarrow> json" where
  "relay_json r =
     JObj [(''status'', JStr (packet_status_value (rr_status r))), (''node_id'', JStr (rr_node_id r)),
           (''hop_count'', JInt (rr_hop_count r)), (''forwarded_to'', JStr (rr_forwarded_to r)),
           (''packet_id'', JStr (uuid_str (rr_packet_id r)))]"

definition relay_endpoint :: "pydantic \<Rightarrow> crypto \<Rightarrow> bytes \<Rightarrow> relay_config \<Rightarrow> packet incoming \<Rightarrow> http_json route" where
  "relay_endpoint pd c sender_key cfg =
     serve ''mesh_relay'' (\<lambda>r. \<lparr> hj_status = 202, hj_body = relay_json r \<rparr>) (\<lambda>_. None) (relay pd c sender_key cfg)"

definition relay_healthz :: "relay_config \<Rightarrow> json" where
  "relay_healthz cfg =
     JObj [(''status'', JStr ''ok''), (''service'', JStr ''mesh_relay''), (''node_id'', JStr (rc_node_id cfg))]"

section \<open>What a relay does\<close>

lemma next_destination_simps:
  "rc_hop_count_target cfg \<le> n \<Longrightarrow> next_destination cfg n = (rstrip_slash (rc_bridge_url cfg) @ ''/bridge'', BRIDGED)"
  "n < rc_hop_count_target cfg \<Longrightarrow> next_destination cfg n = (rstrip_slash (rc_next_relay_url cfg) @ ''/relay'', RELAYED)"
  by (simp_all add: next_destination_def)

lemma new_hop_valid:
  assumes "identifier_pattern node" "valid_instant t"
  shows "new_hop pd node (utc_datetime t) = Inr \<lparr> h_node_id = node, h_received_at = t \<rparr>"
  using assms by (simp add: new_hop_def make_hop_def check_pattern_def at_loc_def check_timestamp_def run_validator_def
      build_model_def sum_bind_def)

lemma checked_timestamp_valid: "check_timestamp pd d = Inr t \<Longrightarrow> valid_instant t"
  by (simp add: check_timestamp_def normalize_to_utc_valid)

text \<open>Nothing is posted unless the packet verified and is under the limit; what is posted is the packet with one hop more.\<close>

lemma send_on_posts:
  assumes "path (send_on pd cfg p) h res" "(Post url body, r) \<in> set h"
  shows "body = packet_to_json_bytes pd p \<and> url = fst (next_destination cfg (int (hop_count p)))
    \<and> (\<exists>h'. h = (Post url body, r) # h')"
  using path_checked_post [OF assms(1) [unfolded send_on_def Let_def]] assms(2) by (auto simp: forward_failed_def)

lemma hop_count_append [simp]: "hop_count (append_hop p h) = Suc (hop_count p)"
  by (simp add: hop_count_def append_hop_def)

lemma relay_posts:
  assumes "path (relay pd c key cfg p) h res" "(Post url body, r) \<in> set h"
  shows "\<exists>hp. verify c p key = None \<and> int (hop_count p) < rc_hop_limit cfg
    \<and> h_node_id hp = rc_node_id cfg \<and> wf_hop hp
    \<and> body = packet_to_json_bytes pd (append_hop p hp)
    \<and> url = fst (next_destination cfg (int (hop_count p) + 1))
    \<and> (\<exists>t h'. h = (Now, Moment t) # (Post url body, r) # h')"
proof -
  have ok: "verify c p key = None \<and> int (hop_count p) < rc_hop_limit cfg"
    using assms by (auto simp: relay_def relay_rejected_def split: option.splits exn.splits if_splits)
  then have "path (forward pd cfg p) h res" using assms(1) by (simp add: relay_def)
  from path_current_time [OF this [unfolded forward_def]] assms(2)
  obtain t h' where h: "h = (Now, Moment t) # h'" "(Post url body, r) \<in> set h'"
    and p: "path (case new_hop pd (rc_node_id cfg) (utc_datetime t) of Inl e \<Rightarrow> Raise e
       | Inr h \<Rightarrow> send_on pd cfg (append_hop p h)) h' res"
    by auto
  then obtain hp where hp: "new_hop pd (rc_node_id cfg) (utc_datetime t) = Inr hp"
    by (cases "new_hop pd (rc_node_id cfg) (utc_datetime t)") auto
  have wf: "wf_hop hp \<and> h_node_id hp = rc_node_id cfg"
    using make_hop_Inr [OF hp [unfolded new_hop_def] proper_at_loc proper_at_loc]
    by (auto simp: wf_hop_def dest: checked_timestamp_valid)
  from p have "path (send_on pd cfg (append_hop p hp)) h' res" by (simp add: hp)
  from send_on_posts [OF this h(2)] show ?thesis
    using ok wf h(1) by (intro exI [of _ hp]) (auto simp: add.commute)
qed

end
