(* ===== verification/Amqp.thy ===== *)
theory Amqp
  imports Logging Config Effects
begin

text \<open>
  What the bridge's publisher and the settlement consumer use of \<^verbatim>\<open>aio_pika\<close>: the
  commands on a connection, methods of an object that lives on one, and a broker to run them on.
\<close>

section \<open>Commands\<close>

datatype amqp_cmd =
    Connect string
  | OpenChannel bool
  | SetQos int
  | DeclareQueue string bool bool
  | Consume string
  | CancelConsumer string
  | CloseChannel
  | CloseConnection
  | PublishTo string bytes string
  | LogAmqp string event

datatype amqp_reply =
    Completed
  | ConsumerTag string
  | MessageCount int
  | AmqpFailed exn

text \<open>
  A method of an object that lives on a connection: what it returns or raises, and the object
  as it is left, also when it raises halfway.
\<close>

type_synonym ('s, 'a) self_call = "(amqp_cmd, amqp_reply, (exn + 'a) \<times> 's) prog"

definition awaiting :: "amqp_cmd \<Rightarrow> 's \<Rightarrow> (amqp_reply \<Rightarrow> ('s, 'a) self_call) \<Rightarrow> ('s, 'a) self_call" where
  "awaiting cm st f = Do cm (\<lambda>r. case r of AmqpFailed e \<Rightarrow> Ret (Inl e, st) | _ \<Rightarrow> f r)"

text \<open>The connection object: open or already closed by the peer.\<close>

datatype connection = Open | Closed

section \<open>A broker\<close>

text \<open>A broker that keeps its durable queues; it may refuse or be away.\<close>

record amqp_broker =
  ab_queues :: "string \<Rightarrow> (bytes \<times> string) list"
  ab_up :: bool

fun amqp_perform :: "amqp_cmd \<Rightarrow> amqp_broker \<Rightarrow> amqp_reply \<times> amqp_broker" where
  "amqp_perform (PublishTo q body mid) b =
     (if ab_up b then (Completed, b \<lparr> ab_queues := (ab_queues b)(q := ab_queues b q @ [(body, mid)]) \<rparr>)
      else (AmqpFailed (OtherError ''unreachable''), b))"
| "amqp_perform (DeclareQueue q durable passive) b =
     (if ab_up b then (MessageCount (int (length (ab_queues b q))), b) else (AmqpFailed (OtherError ''unreachable''), b))"
| "amqp_perform (Consume q) b = (if ab_up b then (ConsumerTag ''ctag'', b) else (AmqpFailed (OtherError ''unreachable''), b))"
| "amqp_perform (LogAmqp name ev) b = (Completed, b)"
| "amqp_perform c b = (if ab_up b then (Completed, b) else (AmqpFailed (OtherError ''unreachable''), b))"

end
