(* ===== verification/Bridge.thy ===== *)
theory Bridge
  imports Http Amqp
begin

text \<open>
  \<^verbatim>\<open>services/bridge/publisher.py\<close> and \<^verbatim>\<open>services/bridge/app.py\<close>: the
  two publishers, the contract the bridge needs of one as a locale, and the route that verifies
  a packet and publishes it.  \<^verbatim>\<open>aio_pika\<close> is the replies to the AMQP commands.
\<close>

section \<open>\<open>RabbitMQPublisher\<close>\<close>

record rabbit_publisher =
  rp_url :: string
  rp_queue :: string
  rp_connection :: "connection option"
  rp_channel :: bool

definition new_rabbit_publisher :: "settings \<Rightarrow> string option \<Rightarrow> string option \<Rightarrow> rabbit_publisher" where
  "new_rabbit_publisher s url queue =
     \<lparr> rp_url = or_text url (rabbitmq_url s), rp_queue = or_text queue (settlement_queue s),
       rp_connection = None, rp_channel = False \<rparr>"

definition publisher_connect :: "rabbit_publisher \<Rightarrow> (rabbit_publisher, unit) self_call" where
  "publisher_connect p =
     awaiting (Connect (rp_url p)) p (\<lambda>_.
       let p = p \<lparr> rp_connection := Some Open \<rparr> in
       awaiting (OpenChannel True) p (\<lambda>_.
       awaiting (DeclareQueue (rp_queue p) True False) p (\<lambda>_.
       let p = p \<lparr> rp_channel := True \<rparr> in
       awaiting (LogAmqp ''bridge.publisher_connected'' [(''queue'', rp_queue p)]) p (\<lambda>_. Ret (Inr (), p)))))"

definition publisher_close :: "rabbit_publisher \<Rightarrow> (rabbit_publisher, unit) self_call" where
  "publisher_close p =
     (let finish =
        (let p = p \<lparr> rp_connection := None, rp_channel := False \<rparr> in
         awaiting (LogAmqp ''bridge.publisher_closed'' [(''queue'', rp_queue p)]) p (\<lambda>_. Ret (Inr (), p)))
      in if rp_connection p = Some Open then awaiting CloseConnection p (\<lambda>_. finish) else finish)"

definition rabbit_publish :: "rabbit_publisher \<Rightarrow> bytes \<Rightarrow> string \<Rightarrow> (rabbit_publisher, unit) self_call" where
  "rabbit_publish p body message_id =
     (if \<not> rp_channel p then Ret (Inl (PublishError ''publisher is not connected''), p)
      else Do (PublishTo (rp_queue p) body message_id) (\<lambda>r. case r of
          AmqpFailed _ \<Rightarrow> Ret (Inl (PublishError ''broker did not confirm the message''), p)
        | _ \<Rightarrow> Ret (Inr (), p)))"

section \<open>\<open>InMemoryPublisher\<close>\<close>

record memory_publisher =
  mp_queue :: string
  mp_messages :: "(bytes \<times> string) list"

definition new_memory_publisher :: "settings \<Rightarrow> string option \<Rightarrow> memory_publisher" where
  "new_memory_publisher s queue = \<lparr> mp_queue = or_text queue (settlement_queue s), mp_messages = [] \<rparr>"

definition memory_publish :: "bytes \<Rightarrow> string \<Rightarrow> memory_publisher \<Rightarrow> (exn + unit) \<times> memory_publisher" where
  "memory_publish body message_id p = (Inr (), p \<lparr> mp_messages := mp_messages p @ [(body, message_id)] \<rparr>)"

section \<open>What the bridge needs of a publisher\<close>

text \<open>
  \<^verbatim>\<open>Publisher\<close>: when \<^verbatim>\<open>publish\<close> returns, the queue has taken the
  message, and nothing else; when it raises, it is a \<^verbatim>\<open>PublishError\<close> and the queue is
  as it was.
\<close>

locale publisher =
  fixes publish :: "bytes \<Rightarrow> string \<Rightarrow> 's \<Rightarrow> (exn + unit) \<times> 's"
    and queued :: "'s \<Rightarrow> (bytes \<times> string) list"
    and queue_name :: "'s \<Rightarrow> string"
  assumes publish_ok: "publish body mid s = (Inr (), s') \<Longrightarrow> queued s' = queued s @ [(body, mid)]"
    and publish_failed: "publish body mid s = (Inl e, s') \<Longrightarrow> queued s' = queued s \<and> (\<exists>m. e = PublishError m)"
    and publish_name: "queue_name (snd (publish body mid s)) = queue_name s"
begin

text \<open>Publishing a list: the queue gains exactly what was confirmed, in order.\<close>

fun publish_all :: "(bytes \<times> string) list \<Rightarrow> 's \<Rightarrow> (bytes \<times> string) list \<times> 's" where
  "publish_all [] s = ([], s)"
| "publish_all (x # xs) s =
     (case publish (fst x) (snd x) s of
        (Inl e, s') \<Rightarrow> publish_all xs s'
      | (Inr u, s') \<Rightarrow> (case publish_all xs s' of (ys, s'') \<Rightarrow> (x # ys, s'')))"

lemma publish_all_queued: "queued (snd (publish_all xs s)) = queued s @ fst (publish_all xs s)"
proof (induction xs arbitrary: s)
  case (Cons x xs)
  obtain r s' where p: "publish (fst x) (snd x) s = (r, s')" by fastforce
  show ?case
  proof (cases r)
    case (Inl e)
    then have "queued s' = queued s" using publish_failed [of "fst x" "snd x" s e s'] p by simp
    then show ?thesis using Cons.IH [of s'] by (simp add: p Inl)
  next
    case (Inr u)
    then have "queued s' = queued s @ [x]" using publish_ok [of "fst x" "snd x" s s'] p by simp
    then show ?thesis using Cons.IH [of s'] by (cases "publish_all xs s'") (simp add: p Inr)
  qed
qed simp

end

interpretation memory: publisher memory_publish mp_messages mp_queue
  by unfold_locales (auto simp: memory_publish_def)

text \<open>The RabbitMQ publisher against the broker.\<close>

definition rabbit_publish_at ::
  "bytes \<Rightarrow> string \<Rightarrow> rabbit_publisher \<times> amqp_broker \<Rightarrow> (exn + unit) \<times> (rabbit_publisher \<times> amqp_broker)" where
  "rabbit_publish_at body mid s =
     (case run amqp_perform (rabbit_publish (fst s) body mid) (snd s) of
        (Inr (r, p), b) \<Rightarrow> (r, (p, b))
      | (Inl e, b) \<Rightarrow> (Inl e, (fst s, b)))"

lemma rabbit_publish_at_simp:
  "rabbit_publish_at body mid (p, b) =
     (if \<not> rp_channel p then (Inl (PublishError ''publisher is not connected''), (p, b))
      else if ab_up b then (Inr (), (p, b \<lparr> ab_queues := (ab_queues b)(rp_queue p := ab_queues b (rp_queue p) @ [(body, mid)]) \<rparr>))
      else (Inl (PublishError ''broker did not confirm the message''), (p, b)))"
  by (simp add: rabbit_publish_at_def rabbit_publish_def)

interpretation rabbit: publisher rabbit_publish_at "\<lambda>s. ab_queues (snd s) (rp_queue (fst s))" "\<lambda>s. rp_queue (fst s)"
  by unfold_locales (auto simp: rabbit_publish_at_simp split: if_splits)

text \<open>Connecting and closing.\<close>

lemma run_connect:
  "ab_up b \<Longrightarrow> run amqp_perform (publisher_connect p) b = (Inr (Inr (), p \<lparr> rp_connection := Some Open, rp_channel := True \<rparr>), b)"
  by (simp add: publisher_connect_def awaiting_def Let_def)

lemma run_connect_down: "\<not> ab_up b \<Longrightarrow> run amqp_perform (publisher_connect p) b = (Inr (Inl (OtherError ''unreachable''), p), b)"
  by (simp add: publisher_connect_def awaiting_def Let_def)

lemma run_close:
  "ab_up b \<Longrightarrow> run amqp_perform (publisher_close p) b = (Inr (Inr (), p \<lparr> rp_connection := None, rp_channel := False \<rparr>), b)"
  by (simp add: publisher_close_def awaiting_def Let_def)

section \<open>The route\<close>

definition bridge_publish_failed :: "string \<Rightarrow> packet \<Rightarrow> (service_error + bridge_response) route" where
  "bridge_publish_failed queue packet =
     say ''warning'' ''bridge.publish_failed''
       [(''packet_id'', uuid_str (p_packet_id packet)), (''queue'', queue), (''reason'', error_code_value INTERNAL_ERROR)]
       (Ret (Inl \<lparr> se_code = INTERNAL_ERROR, se_detail = ''packet could not be queued for settlement'', se_http_status = 503 \<rparr>))"

definition bridge :: "pydantic \<Rightarrow> crypto \<Rightarrow> bytes \<Rightarrow> string \<Rightarrow> packet \<Rightarrow> (service_error + bridge_response) route" where
  "bridge pd c sender_key queue packet =
     (case verify c packet sender_key of
        Some (SignatureVerificationError _) \<Rightarrow>
          say ''warning'' ''bridge.packet_rejected''
            [(''packet_id'', uuid_str (p_packet_id packet)), (''reason'', error_code_value INVALID_SIGNATURE),
             (''signature_fp'', safe_fingerprint (p_signature packet) 12)]
            (Ret (Inl \<lparr> se_code = INVALID_SIGNATURE, se_detail = ''packet signature did not verify'', se_http_status = 400 \<rparr>))
      | Some e \<Rightarrow> Raise e
      | None \<Rightarrow>
          (let body = packet_to_json_bytes pd packet;
               key = idempotency_key packet
           in Do (Publish body key) (\<lambda>r. case r of
                Broken (PublishError _) \<Rightarrow> bridge_publish_failed queue packet
              | Broken e \<Rightarrow> Raise e
              | _ \<Rightarrow>
                  say ''info'' ''bridge.packet_published''
                    [(''packet_id'', uuid_str (p_packet_id packet)), (''hop_count'', show_nat (hop_count packet)),
                     (''queue'', queue), (''idempotency_key'', key)]
                    (Ret (Inr \<lparr> br_status = BRIDGED, br_queue = queue, br_packet_id = p_packet_id packet,
                               br_hop_count = int (hop_count packet), br_idempotency_key = key \<rparr>)))))"

definition bridge_json :: "bridge_response \<Rightarrow> json" where
  "bridge_json r =
     JObj [(''status'', JStr (packet_status_value (br_status r))), (''queue'', JStr (br_queue r)),
           (''packet_id'', JStr (uuid_str (br_packet_id r))), (''hop_count'', JInt (br_hop_count r)),
           (''idempotency_key'', JStr (br_idempotency_key r))]"

definition bridge_endpoint :: "pydantic \<Rightarrow> crypto \<Rightarrow> bytes \<Rightarrow> string \<Rightarrow> packet incoming \<Rightarrow> http_json route" where
  "bridge_endpoint pd c sender_key queue =
     serve ''bridge'' (\<lambda>r. \<lparr> hj_status = 202, hj_body = bridge_json r \<rparr>) (\<lambda>_. None) (bridge pd c sender_key queue)"

definition bridge_healthz :: json where
  "bridge_healthz = JObj [(''status'', JStr ''ok''), (''service'', JStr ''bridge'')]"

context publisher begin

text \<open>The bridge answers with success exactly when the queue has taken the packet, under its key.\<close>

lemma bridge_publishes:
  assumes "verify c p key = None"
  shows "case run (node_exec now publish post) (bridge pd c key name p) s of
      (Inr (Inr resp), s') \<Rightarrow> queued s' = queued s @ [(packet_to_json_bytes pd p, idempotency_key p)]
         \<and> br_idempotency_key resp = idempotency_key p
    | (Inr (Inl e), s') \<Rightarrow> queued s' = queued s \<and> se_http_status e = 503
    | (Inl e, s') \<Rightarrow> False"
proof -
  obtain r s' where pub: "publish (packet_to_json_bytes pd p) (idempotency_key p) s = (r, s')" by fastforce
  show ?thesis
  proof (cases r)
    case (Inl e)
    then obtain m where "e = PublishError m" "queued s' = queued s" using publish_failed pub by blast
    then show ?thesis using Inl pub assms by (simp add: bridge_def Let_def bridge_publish_failed_def)
  next
    case (Inr u)
    then have "queued s' = queued s @ [(packet_to_json_bytes pd p, idempotency_key p)]" using publish_ok pub by simp
    then show ?thesis using Inr pub assms by (simp add: bridge_def Let_def)
  qed
qed

text \<open>A forged packet never reaches the queue.\<close>

lemma bridge_rejects:
  assumes "verify c p key = Some e"
  shows "\<exists>err. run (node_exec now publish post) (bridge pd c key name p) s = (Inr (Inl err), s) \<and> se_http_status err = 400"
proof -
  obtain m where "e = SignatureVerificationError m"
    using assms verify_signature_error unfolding verify_def by blast
  then show ?thesis using assms by (simp add: bridge_def)
qed

end

end
