(* ===== verification/Sender.thy ===== *)
theory Sender
  imports Http Config
begin

text \<open>
  \<^verbatim>\<open>services/sender/app.py\<close>: the two routes that turn a request into a signed, sealed
  packet, the second of which hands it to the first mesh node.  The clock, \<^verbatim>\<open>uuid4\<close> and
  the random values of the encryption are commands.
\<close>

section \<open>Identity and destination\<close>

definition get_mesh_entrypoint :: "settings \<Rightarrow> string" where
  "get_mesh_entrypoint s = rstrip_slash (mesh_relay_url s) @ ''/relay''"

definition sender_id_for :: "crypto \<Rightarrow> bytes \<Rightarrow> string" where
  "sender_id_for c signing_key = ''device-'' @ safe_fingerprint (ed25519_public c signing_key) 8"

section \<open>Creating a packet\<close>

definition fresh_id :: "(uuid \<Rightarrow> 'a route) \<Rightarrow> 'a route" where
  "fresh_id f = Do NewId (\<lambda>r. case r of Id u \<Rightarrow> f u | Broken e \<Rightarrow> Raise e | _ \<Rightarrow> Raise (OtherError ''no id''))"

definition fresh_keys :: "(fresh \<Rightarrow> 'a route) \<Rightarrow> 'a route" where
  "fresh_keys f = Do NewKeys (\<lambda>r. case r of Keys fr \<Rightarrow> f fr | Broken e \<Rightarrow> Raise e | _ \<Rightarrow> Raise (OtherError ''no entropy''))"

definition creation_failed :: "instruction \<Rightarrow> (service_error + 'b) route" where
  "creation_failed ins =
     say ''error'' ''sender.packet_creation_failed'' [(''packet_id'', uuid_str (i_packet_id ins))]
       (Ret (Inl \<lparr> se_code = INTERNAL_ERROR, se_detail = ''packet could not be created'', se_http_status = 500 \<rparr>))"

text \<open>
  What both routes begin with: \<^verbatim>\<open>body.to_instruction()\<close>, then
  \<^verbatim>\<open>PaymentPacket.create\<close> under \<^verbatim>\<open>except CryptoError\<close>.
\<close>

definition seal ::
  "pydantic \<Rightarrow> crypto \<Rightarrow> bytes \<Rightarrow> bytes \<Rightarrow> instruction \<Rightarrow> (packet \<Rightarrow> (service_error + 'b) route) \<Rightarrow> (service_error + 'b) route" where
  "seal pd c signing_key recipient_key ins f =
     current_time (\<lambda>now. fresh_keys (\<lambda>fr.
       case create pd c fr ins (sender_id_for c signing_key) signing_key recipient_key (utc_datetime now) of
         Inl e \<Rightarrow> if is_crypto_error e then creation_failed ins else Raise e
       | Inr packet \<Rightarrow> f packet))"

definition instruct :: "pydantic \<Rightarrow> transaction_request \<Rightarrow> (instruction \<Rightarrow> 'a route) \<Rightarrow> 'a route" where
  "instruct pd body f =
     fresh_id (\<lambda>packet_id. current_time (\<lambda>now.
       case to_instruction pd packet_id body (utc_datetime now) of Inl e \<Rightarrow> Raise e | Inr ins \<Rightarrow> f ins))"

definition create_packet ::
  "pydantic \<Rightarrow> crypto \<Rightarrow> bytes \<Rightarrow> bytes \<Rightarrow> transaction_request \<Rightarrow> (service_error + packet_created_response) route" where
  "create_packet pd c signing_key recipient_key body =
     instruct pd body (\<lambda>ins. seal pd c signing_key recipient_key ins (\<lambda>packet.
       say ''info'' ''sender.packet_created''
         [(''packet_id'', uuid_str (p_packet_id packet)), (''sender_id'', p_sender_id packet),
          (''idempotency_key'', idempotency_key packet),
          (''signature_fp'', safe_fingerprint (p_signature packet) 12)]
         (Ret (Inr (packet_created_of packet)))))"

section \<open>What the neighbour reports\<close>

text \<open>
  \<^verbatim>\<open>int(text)\<close>: white space around, a sign, digits with single underscores between
  them; the decimal digits Unicode has beside ASCII's are not read here.
\<close>

fun read_grouped :: "nat \<Rightarrow> string \<Rightarrow> nat option" where
  "read_grouped acc [] = Some acc"
| "read_grouped acc (c # cs) =
     (case digit_value c of
        Some d \<Rightarrow> read_grouped (10 * acc + d) cs
      | None \<Rightarrow>
          (if c = CHR ''_'' then
             (case cs of [] \<Rightarrow> None | d # ds \<Rightarrow>
                (case digit_value d of None \<Rightarrow> None | Some v \<Rightarrow> read_grouped (10 * acc + v) ds))
           else None))"

definition bad_int :: exn where
  "bad_int = ValueError ''invalid literal for int() with base 10''"

definition int_of_text :: "string \<Rightarrow> exn + int" where
  "int_of_text s =
     (let t = py_strip s;
          neg = (take 1 t = ''-'');
          u = (if take 1 t = ''-'' \<or> take 1 t = ''+'' then drop 1 t else t)
      in if u = [] \<or> digit_value (hd u) = None \<or> 4300 < length (filter is_digit u) then Inl bad_int
         else case read_grouped 0 u of
           None \<Rightarrow> Inl bad_int
         | Some n \<Rightarrow> Inr (if neg then - int n else int n))"

text \<open>\<^verbatim>\<open>int(x)\<close> on a decoded value; truncating a float is a parameter.\<close>

definition int_of_json :: "(string \<Rightarrow> exn + int) \<Rightarrow> json \<Rightarrow> exn + int" where
  "int_of_json trunc j =
     (case j of
        JInt n \<Rightarrow> Inr n
      | JBool b \<Rightarrow> Inr (if b then 1 else 0)
      | JStr s \<Rightarrow> int_of_text s
      | JFloat x \<Rightarrow> trunc x
      | _ \<Rightarrow> Inl (OtherError ''TypeError''))"

text \<open>\<^verbatim>\<open>PacketStatus(x)\<close>.\<close>

definition packet_status_of :: "json \<Rightarrow> exn + packet_status" where
  "packet_status_of j =
     (case j of
        JStr s \<Rightarrow>
          (case find (\<lambda>st. packet_status_value st = s) [CREATED, RELAYED, BRIDGED, SETTLED, REJECTED] of
             None \<Rightarrow> Inl (ValueError ''not a valid PacketStatus'')
           | Some st \<Rightarrow> Inr st)
      | _ \<Rightarrow> Inl (ValueError ''not a valid PacketStatus''))"

definition dict_or :: "(string \<times> json) list \<Rightarrow> string \<Rightarrow> json \<Rightarrow> json" where
  "dict_or kvs k d = (case map_of kvs k of None \<Rightarrow> d | Some v \<Rightarrow> v)"

definition reported :: "nat \<Rightarrow> http_response \<Rightarrow> exn + json" where
  "reported limit resp = (if hr_content resp = [] then Inr (JObj []) else json_loads limit (hr_content resp))"

definition submitted_response ::
  "(string \<Rightarrow> exn + int) \<Rightarrow> string \<Rightarrow> packet \<Rightarrow> json \<Rightarrow> exn + packet_submitted_response" where
  "submitted_response trunc entrypoint packet j =
     (case j of
        JObj kvs \<Rightarrow>
          sum_bind (packet_status_of (dict_or kvs ''status'' (JStr (packet_status_value RELAYED)))) (\<lambda>st.
          sum_bind (int_of_json trunc (dict_or kvs ''hop_count'' (JInt 0))) (\<lambda>n.
          Inr \<lparr> ps_packet_id = p_packet_id packet, ps_idempotency_key = idempotency_key packet,
                ps_submitted_to = entrypoint, ps_status = st, ps_hop_count = n \<rparr>))
      | _ \<Rightarrow> Inl (OtherError ''AttributeError''))"

section \<open>Handing it to the mesh\<close>

definition handoff_failed :: "packet \<Rightarrow> string \<Rightarrow> string \<Rightarrow> (service_error + 'b) route" where
  "handoff_failed packet entrypoint error =
     say ''warning'' ''sender.handoff_failed''
       [(''packet_id'', uuid_str (p_packet_id packet)), (''destination'', entrypoint), (''error'', error)]
       (Ret (Inl \<lparr> se_code = INTERNAL_ERROR, se_detail = ''no mesh node accepted the packet'', se_http_status = 502 \<rparr>))"

definition handed_over ::
  "nat \<Rightarrow> (string \<Rightarrow> exn + int) \<Rightarrow> string \<Rightarrow> packet \<Rightarrow> http_response \<Rightarrow> (service_error + packet_submitted_response) route" where
  "handed_over limit trunc entrypoint packet resp =
     (case reported limit resp of
        Inl e \<Rightarrow> Raise e
      | Inr j \<Rightarrow>
          say ''info'' ''sender.packet_submitted''
            [(''packet_id'', uuid_str (p_packet_id packet)), (''idempotency_key'', idempotency_key packet),
             (''destination'', entrypoint)]
            (case submitted_response trunc entrypoint packet j of Inl e \<Rightarrow> Raise e | Inr r \<Rightarrow> Ret (Inr r)))"

definition hand_off ::
  "pydantic \<Rightarrow> nat \<Rightarrow> (string \<Rightarrow> exn + int) \<Rightarrow> string \<Rightarrow> packet \<Rightarrow> (service_error + packet_submitted_response) route" where
  "hand_off pd limit trunc entrypoint packet =
     checked_post entrypoint (packet_to_json_bytes pd packet) (handoff_failed packet entrypoint)
       (handed_over limit trunc entrypoint packet)"

definition submit_packet ::
  "pydantic \<Rightarrow> crypto \<Rightarrow> nat \<Rightarrow> (string \<Rightarrow> exn + int) \<Rightarrow> bytes \<Rightarrow> bytes \<Rightarrow> string \<Rightarrow> transaction_request
   \<Rightarrow> (service_error + packet_submitted_response) route" where
  "submit_packet pd c limit trunc signing_key recipient_key entrypoint body =
     instruct pd body (\<lambda>ins. seal pd c signing_key recipient_key ins (hand_off pd limit trunc entrypoint))"

section \<open>The application\<close>

definition created_json :: "packet_created_response \<Rightarrow> json" where
  "created_json r =
     JObj [(''packet'', packet_json (pc_packet r)), (''idempotency_key'', JStr (pc_idempotency_key r)),
           (''status'', JStr (packet_status_value (pc_status r)))]"

definition submitted_json :: "packet_submitted_response \<Rightarrow> json" where
  "submitted_json r =
     JObj [(''packet_id'', JStr (uuid_str (ps_packet_id r))), (''idempotency_key'', JStr (ps_idempotency_key r)),
           (''submitted_to'', JStr (ps_submitted_to r)), (''status'', JStr (packet_status_value (ps_status r))),
           (''hop_count'', JInt (ps_hop_count r))]"

definition sender_error_event :: "service_error \<Rightarrow> event option" where
  "sender_error_event e = Some [(''reason'', error_code_value (se_code e))]"

definition create_endpoint ::
  "pydantic \<Rightarrow> crypto \<Rightarrow> bytes \<Rightarrow> bytes \<Rightarrow> transaction_request incoming \<Rightarrow> http_json route" where
  "create_endpoint pd c signing_key recipient_key =
     serve ''sender'' (\<lambda>r. \<lparr> hj_status = 201, hj_body = created_json r \<rparr>) sender_error_event
       (create_packet pd c signing_key recipient_key)"

definition submit_endpoint ::
  "pydantic \<Rightarrow> crypto \<Rightarrow> nat \<Rightarrow> (string \<Rightarrow> exn + int) \<Rightarrow> bytes \<Rightarrow> bytes \<Rightarrow> string \<Rightarrow> transaction_request incoming
   \<Rightarrow> http_json route" where
  "submit_endpoint pd c limit trunc signing_key recipient_key entrypoint =
     serve ''sender'' (\<lambda>r. \<lparr> hj_status = 202, hj_body = submitted_json r \<rparr>) sender_error_event
       (submit_packet pd c limit trunc signing_key recipient_key entrypoint)"

definition sender_healthz :: json where
  "sender_healthz = JObj [(''status'', JStr ''ok''), (''service'', JStr ''sender'')]"

section \<open>Requests give valid instructions\<close>

definition wf_request :: "transaction_request \<Rightarrow> bool" where
  "wf_request t \<longleftrightarrow>
     identifier_pattern (t_payer_id t) \<and> identifier_pattern (t_payee_id t) \<and> t_payer_id t \<noteq> t_payee_id t
     \<and> 0 < t_amount_minor t \<and> t_amount_minor t \<le> max_amount_minor \<and> currency_pattern (t_currency t)"

definition instruction_for :: "uuid \<Rightarrow> transaction_request \<Rightarrow> instant \<Rightarrow> instruction" where
  "instruction_for u t now =
     \<lparr> i_packet_id = u, i_payer_id = t_payer_id t, i_payee_id = t_payee_id t, i_amount_minor = t_amount_minor t,
       i_currency = t_currency t, i_created_at = now \<rparr>"

lemma validate_request_wf:
  assumes "validate_request pd j = Inr t"
  shows "wf_request t"
proof -
  from assms obtain kvs where j: "j = JObj kvs" by (auto simp: validate_request_def verrs_def split: json.splits)
  let ?payer = "get_field pd kvs ''payer_id'' (read_pattern pd identifier_pattern)"
  let ?payee = "get_field pd kvs ''payee_id''
    (\<lambda>j. sum_bind (read_pattern pd identifier_pattern j) (payee_differs_from_payer pd ?payer))"
  let ?amount = "get_field pd kvs ''amount_minor'' (read_amount pd PythonMode)"
  let ?currency = "get_default kvs ''currency'' ''INR'' (read_pattern pd currency_pattern)"
  note f = build_model_fields [OF assms [unfolded j validate_request_def json.simps Let_def]]
  have "?payer = Inr (t_payer_id t)" "?payee = Inr (t_payee_id t)" "?amount = Inr (t_amount_minor t)"
    "?currency = Inr (t_currency t)"
    unfolding f(1) transaction_request.simps
    by (rule f(2); (simp | (rule proper_get_field proper_get_default proper_sum_bind proper_checks proper_readers)+))+
  then show ?thesis
    by (auto simp: wf_request_def get_field_Inr get_default_Inr sum_bind_eq_Inr reader_simps check_Inr currency_INR
        split: option.splits)
qed

lemma to_instruction_wf:
  assumes "wf_request t" "valid_instant now"
  shows "to_instruction pd u t (utc_datetime now) = Inr (instruction_for u t now)"
    and "wf_instruction (instruction_for u t now)"
proof -
  show "to_instruction pd u t (utc_datetime now) = Inr (instruction_for u t now)"
    using assms
    by (simp add: to_instruction_def normalize_utc_datetime new_instruction_def wf_request_def make_back
        instruction_for_def check_Inr sum_bind_def check_timestamp_def run_validator_def check_pattern_def
        check_amount_def payee_differs_from_payer_def at_loc_def make_instruction_def build_model_def)
  show "wf_instruction (instruction_for u t now)"
    using assms by (simp add: wf_instruction_def instruction_for_def wf_request_def)
qed

lemma to_instruction_Inr:
  assumes "to_instruction pd u t d = Inr ins"
  shows "\<exists>now. normalize_to_utc d = Inr now \<and> ins = instruction_for u t now \<and> wf_instruction ins"
proof -
  from assms obtain now where now: "normalize_to_utc d = Inr now"
    "new_instruction pd u (t_payer_id t) (t_payee_id t) (t_amount_minor t) (t_currency t) (utc_datetime now) = Inr ins"
    by (auto simp: to_instruction_def sum_bind_eq_Inr)
  let ?payer = "at_loc ''payer_id'' (check_pattern pd identifier_pattern (t_payer_id t))"
  have "(Inr u :: exn + uuid) = Inr (i_packet_id ins)" "?payer = Inr (i_payer_id ins)"
    "at_loc ''payee_id'' (sum_bind (check_pattern pd identifier_pattern (t_payee_id t))
       (payee_differs_from_payer pd ?payer)) = Inr (i_payee_id ins)"
    "at_loc ''amount_minor'' (check_amount pd (t_amount_minor t)) = Inr (i_amount_minor ins)"
    "at_loc ''currency'' (check_pattern pd currency_pattern (t_currency t)) = Inr (i_currency ins)"
    "at_loc ''created_at'' (check_timestamp pd (utc_datetime now)) = Inr (i_created_at ins)"
    by (rule make_instruction_Inr [OF now(2) [unfolded new_instruction_def Let_def]];
        (simp | (rule proper_at_loc proper_sum_bind proper_checks proper_readers)+))+
  then show ?thesis
    using now(1) normalize_to_utc_valid [OF now(1)]
    by (auto simp: sum_bind_eq_Inr check_timestamp_Inr normalize_utc_datetime instruction_for_def wf_instruction_def
        intro!: instruction.equality)
qed

lemma hex_byte_identifier: "list_all identifier_char (hex_byte b)"
proof -
  have "identifier_char (hex_char n)" if "n < 16" for n
    using that by (auto simp: identifier_char_def hex_char_def Let_def)
  moreover have "unat b div 16 < 16" using unat_byte_less [of b] by (simp add: less_mult_imp_div_less)
  ultimately show ?thesis by (simp add: hex_byte_def)
qed

lemma sender_id_identifier: "identifier_pattern (sender_id_for c k)"
proof -
  have "list_all identifier_char (hexdigest bs)" for bs
    by (induction bs) (simp_all add: hexdigest_def hex_byte_identifier)
  then have "list_all identifier_char (safe_fingerprint r 8)" for r
    by (simp add: safe_fingerprint_def list_all_take_drop)
  then show ?thesis
    by (simp add: identifier_pattern_def sender_id_for_def length_safe_fingerprint identifier_char_def)
qed

section \<open>Paths of the routes\<close>

fun is_post :: "node_cmd \<times> node_reply \<Rightarrow> bool" where
  "is_post (Post url body, r) = True"
| "is_post x = False"

definition posts :: "(node_cmd, node_reply) history \<Rightarrow> (node_cmd, node_reply) history" where
  "posts h = filter is_post h"

lemma posts_simps [simp]: "posts [] = []" "posts (x # h) = (if is_post x then x # posts h else posts h)"
  by (simp_all add: posts_def)

lemma posts_mem: "(Post url raw, r) \<in> set h \<Longrightarrow> posts h \<noteq> []"
  by (force simp: posts_def filter_empty_conv)

text \<open>Up to the first post, a route either goes on with what it has made or ends.\<close>

lemma instruct_ends:
  assumes "path (instruct pd body f) h res"
  shows "(\<exists>u t ins h'. h = (NewId, Id u) # (Now, Moment t) # h'
      \<and> to_instruction pd u body (utc_datetime t) = Inr ins \<and> path (f ins) h' res)
    \<or> (\<exists>e. res = Inl e \<and> posts h = [])"
proof -
  let ?g = "\<lambda>u now. case to_instruction pd u body (utc_datetime now) of Inl e \<Rightarrow> Raise e | Inr ins \<Rightarrow> f ins"
  from assms obtain r h1 where h: "h = (NewId, r) # h1"
    "path (case r of Id u \<Rightarrow> current_time (?g u) | Broken e \<Rightarrow> Raise e | _ \<Rightarrow> Raise (OtherError ''no id'')) h1 res"
    unfolding instruct_def fresh_id_def path_Do_iff by blast
  show ?thesis
  proof (cases "\<exists>u. r = Id u")
    case True
    then obtain u where r: "r = Id u" by blast
    with h have "path (current_time (?g u)) h1 res" by simp
    from path_current_time [OF this] show ?thesis
    proof (elim disjE exE conjE)
      fix t h' assume t: "h1 = (Now, Moment t) # h'" "path (?g u t) h' res"
      then show ?thesis using h(1) r by (cases "to_instruction pd u body (utc_datetime t)") auto
    qed (use h(1) in auto)
  next
    case False
    then have "\<exists>e. path (Raise e) h1 res" using h(2) by (cases r) auto
    with h(1) show ?thesis by auto
  qed
qed

lemma path_instruct:
  assumes "path (instruct pd body f) h (Inr res)"
  shows "\<exists>u t ins h'. h = (NewId, Id u) # (Now, Moment t) # h'
    \<and> to_instruction pd u body (utc_datetime t) = Inr ins \<and> path (f ins) h' (Inr res)"
  using instruct_ends [OF assms] by blast

text \<open>The packet that was sealed, with the time and the random values it was made from.\<close>

lemma seal_ends:
  assumes "path (seal pd c sk rk ins f) h res"
  shows "(\<exists>t fr p h'. h = (Now, Moment t) # (NewKeys, Keys fr) # h' \<and> path (f p) h' res
      \<and> create pd c fr ins (sender_id_for c sk) sk rk (utc_datetime t) = Inr p)
    \<or> (posts h = [] \<and> (\<forall>x. res = Inr x \<longrightarrow> (\<exists>e. x = Inl e \<and> se_http_status e = 500)))"
proof -
  let ?g = "\<lambda>now fr. case create pd c fr ins (sender_id_for c sk) sk rk (utc_datetime now) of
         Inl e \<Rightarrow> if is_crypto_error e then creation_failed ins else Raise e
       | Inr packet \<Rightarrow> f packet"
  from path_current_time [OF assms [unfolded seal_def]] consider
      (moment) t h1 where "h = (Now, Moment t) # h1" "path (fresh_keys (?g t)) h1 res"
    | (silent) r e where "h = [(Now, r)]" "res = Inl e" by blast
  then show ?thesis
  proof cases
    case moment
    then obtain r h2 where h1: "h1 = (NewKeys, r) # h2"
      "path (case r of Keys fr \<Rightarrow> ?g t fr | Broken e \<Rightarrow> Raise e | _ \<Rightarrow> Raise (OtherError ''no entropy'')) h2 res"
      unfolding fresh_keys_def path_Do_iff by blast
    show ?thesis
    proof (cases "\<exists>fr. r = Keys fr")
      case True
      then obtain fr where r: "r = Keys fr" by blast
      with h1 have g: "path (?g t fr) h2 res" by simp
      show ?thesis
      proof (cases "create pd c fr ins (sender_id_for c sk) sk rk (utc_datetime t)")
        case (Inl e)
        with g show ?thesis using moment(1) h1(1) r by (auto simp: creation_failed_def split: if_splits)
      next
        case (Inr p)
        with g moment(1) h1(1) r show ?thesis by auto
      qed
    next
      case False
      then have "\<exists>e. path (Raise e) h2 res" using h1(2) by (cases r) auto
      with moment(1) h1(1) show ?thesis by auto
    qed
  qed simp
qed

lemma path_seal:
  assumes "path (seal pd c sk rk ins f) h (Inr res)"
  shows "(\<exists>t fr p h'. h = (Now, Moment t) # (NewKeys, Keys fr) # h' \<and> path (f p) h' (Inr res)
      \<and> create pd c fr ins (sender_id_for c sk) sk rk (utc_datetime t) = Inr p)
    \<or> (\<exists>e. res = Inl e \<and> se_http_status e = 500 \<and> posts h = [])"
  using seal_ends [OF assms] by auto

text \<open>A packet this device made for a request, under a packet id.\<close>

definition made_from :: "pydantic \<Rightarrow> crypto \<Rightarrow> bytes \<Rightarrow> bytes \<Rightarrow> transaction_request \<Rightarrow> uuid \<Rightarrow> packet \<Rightarrow> bool" where
  "made_from pd c sk rk body u p \<longleftrightarrow>
     (\<exists>t t' fr ins. to_instruction pd u body (utc_datetime t) = Inr ins
        \<and> create pd c fr ins (sender_id_for c sk) sk rk (utc_datetime t') = Inr p)"

text \<open>A created packet, the instruction in it, and the identifiers returned with it.\<close>

lemma create_packet_returns:
  assumes "path (create_packet pd c sk rk body) h (Inr (Inr resp))"
  shows "\<exists>u. made_from pd c sk rk body u (pc_packet resp) \<and> resp = packet_created_of (pc_packet resp)"
proof -
  from path_instruct [OF assms [unfolded create_packet_def]] obtain u t ins h1 where
    i: "to_instruction pd u body (utc_datetime t) = Inr ins" "h = (NewId, Id u) # (Now, Moment t) # h1" and
    p: "path (seal pd c sk rk ins (\<lambda>packet.
       say ''info'' ''sender.packet_created''
         [(''packet_id'', uuid_str (p_packet_id packet)), (''sender_id'', p_sender_id packet),
          (''idempotency_key'', idempotency_key packet),
          (''signature_fp'', safe_fingerprint (p_signature packet) 12)]
         (Ret (Inr (packet_created_of packet))))) h1 (Inr (Inr resp))"
    by blast
  from path_seal [OF p] obtain t' fr q where
    "create pd c fr ins (sender_id_for c sk) sk rk (utc_datetime t') = Inr q" "resp = packet_created_of q" by auto
  moreover from this(1) i have "made_from pd c sk rk body u q" unfolding made_from_def by blast
  ultimately show ?thesis by (auto simp: packet_created_of_def)
qed

text \<open>
  What the device is told agrees with what happened to its post: a success answer is read from
  the report of an accepted post, a 502 means that the post was refused or did not go through,
  and an exception means that the neighbour accepted the packet but its report is unusable, or
  that the client failed in a way the route does not catch.
\<close>

definition unusable_report :: "nat \<Rightarrow> (string \<Rightarrow> exn + int) \<Rightarrow> string \<Rightarrow> packet \<Rightarrow> http_response \<Rightarrow> exn \<Rightarrow> bool" where
  "unusable_report limit trunc dest p a e \<longleftrightarrow>
     reported limit a = Inl e \<or> (\<exists>j. reported limit a = Inr j \<and> submitted_response trunc dest p j = Inl e)"

definition told ::
  "nat \<Rightarrow> (string \<Rightarrow> exn + int) \<Rightarrow> string \<Rightarrow> packet \<Rightarrow> node_reply
   \<Rightarrow> exn + (service_error + packet_submitted_response) \<Rightarrow> bool" where
  "told limit trunc dest p r res \<longleftrightarrow>
     (case res of
        Inr (Inr resp) \<Rightarrow> (\<exists>a j. r = Answered a \<and> is_success a \<and> reported limit a = Inr j
          \<and> submitted_response trunc dest p j = Inr resp)
      | Inr (Inl e) \<Rightarrow> se_http_status e = 502
          \<and> ((\<exists>m. r = Broken (HTTPError m)) \<or> (\<exists>a. r = Answered a \<and> \<not> is_success a))
      | Inl e \<Rightarrow> (\<exists>a. r = Answered a \<and> is_success a \<and> unusable_report limit trunc dest p a e)
          \<or> ((\<forall>m. r \<noteq> Broken (HTTPError m)) \<and> (\<forall>a. r \<noteq> Answered a)))"

lemma path_handed_over:
  assumes "path (handed_over limit trunc dest p a) h res"
  shows "posts h = [] \<and> ((\<exists>j resp. res = Inr (Inr resp) \<and> reported limit a = Inr j \<and> submitted_response trunc dest p j = Inr resp)
    \<or> (\<exists>e. res = Inl e \<and> unusable_report limit trunc dest p a e))"
proof (cases "reported limit a")
  case (Inl e)
  then show ?thesis using assms by (auto simp: handed_over_def unusable_report_def)
next
  case (Inr j)
  then show ?thesis
    using assms by (cases "submitted_response trunc dest p j") (auto simp: handed_over_def unusable_report_def)
qed

lemma submitted_response_names:
  "submitted_response trunc dest p j = Inr resp \<Longrightarrow>
     ps_idempotency_key resp = idempotency_key p \<and> ps_packet_id resp = p_packet_id p \<and> ps_submitted_to resp = dest"
  by (auto simp: submitted_response_def sum_bind_eq_Inr split: json.splits)

lemma hand_off_posts:
  assumes "path (hand_off pd limit trunc dest p) h res"
  shows "\<exists>r. posts h = [(Post dest (packet_to_json_bytes pd p), r)] \<and> told limit trunc dest p r res"
  using path_checked_post [OF assms [unfolded hand_off_def]]
proof (elim disjE exE conjE)
  fix a h' assume "h = (Post dest (packet_to_json_bytes pd p), Answered a) # h'" "is_success a"
    "path (handed_over limit trunc dest p a) h' res"
  then show ?thesis using path_handed_over [of limit trunc dest p a h' res] by (auto simp: told_def)
next
  fix r h' name m assume "h = (Post dest (packet_to_json_bytes pd p), r) # h'" "path (handoff_failed p dest name) h' res"
    "r = Broken (HTTPError m)"
  then show ?thesis by (auto simp: told_def handoff_failed_def)
next
  fix r h' name a assume "h = (Post dest (packet_to_json_bytes pd p), r) # h'" "path (handoff_failed p dest name) h' res"
    "r = Answered a" "\<not> is_success a"
  then show ?thesis by (auto simp: told_def handoff_failed_def)
next
  fix r e assume "h = [(Post dest (packet_to_json_bytes pd p), r)]" "res = Inl e"
    "\<forall>m. r \<noteq> Broken (HTTPError m)" "\<forall>a. r \<noteq> Answered a"
  then show ?thesis by (auto simp: told_def)
qed

text \<open>What leaves the device is a packet it signed, and one copy of it.\<close>

lemma submit_posts:
  assumes "path (submit_packet pd c limit trunc sk rk dest body) h res" "(Post url raw, r) \<in> set h"
  shows "\<exists>u p. made_from pd c sk rk body u p \<and> p_packet_id p = u \<and> url = dest \<and> raw = packet_to_json_bytes pd p
    \<and> posts h = [(Post url raw, r)] \<and> told limit trunc dest p r res"
proof -
  from instruct_ends [OF assms(1) [unfolded submit_packet_def]] posts_mem [OF assms(2)] obtain u t ins h1 where
    i: "to_instruction pd u body (utc_datetime t) = Inr ins" "h = (NewId, Id u) # (Now, Moment t) # h1" and
    p: "path (seal pd c sk rk ins (hand_off pd limit trunc dest)) h1 res" by blast
  have "posts h1 \<noteq> []" using posts_mem [OF assms(2)] i(2) by simp
  with seal_ends [OF p] obtain t' fr q h2 where
    q: "create pd c fr ins (sender_id_for c sk) sk rk (utc_datetime t') = Inr q"
    "path (hand_off pd limit trunc dest q) h2 res" "h1 = (Now, Moment t') # (NewKeys, Keys fr) # h2" by blast
  from hand_off_posts [OF q(2)] obtain r' where
    r': "posts h2 = [(Post dest (packet_to_json_bytes pd q), r')]" "told limit trunc dest q r' res" by blast
  have "(Post url raw, r) \<in> set (posts h2)" using assms(2) i(2) q(3) by (simp add: posts_def)
  with r'(1) have eq: "url = dest" "raw = packet_to_json_bytes pd q" "r = r'" by simp_all
  have "p_packet_id q = u"
    using create_Inr(2) [OF q(1)] to_instruction_Inr [OF i(1)] by (auto simp: instruction_for_def)
  moreover have "made_from pd c sk rk body u q" using i(1) q(1) unfolding made_from_def by blast
  ultimately show ?thesis using eq r' i(2) q(3) by auto
qed

text \<open>A validated request is answered with a packet, or the clock, the ids or the entropy failed.\<close>

lemma create_packet_answers:
  assumes "wf_request body" "valid_instant t" "valid_instant t'" "fresh_ok fr" "signs_correctly c" "seals_correctly c"
  shows "\<exists>p l. path (create_packet pd c sk (rsa_public c rk) body)
      [(NewId, Id u), (Now, Moment t), (Now, Moment t'), (NewKeys, Keys fr), (l, Fine)] (Inr (Inr (packet_created_of p)))
    \<and> create pd c fr (instruction_for u body t) (sender_id_for c sk) sk (rsa_public c rk) (utc_datetime t') = Inr p"
proof -
  obtain p where p: "create pd c fr (instruction_for u body t) (sender_id_for c sk) sk (rsa_public c rk) (utc_datetime t') = Inr p"
    using create_succeeds [OF assms(5,6,4) sender_id_identifier normalize_utc_datetime [OF assms(3)]] by blast
  show ?thesis
    by (intro exI conjI) (simp_all add: create_packet_def instruct_def fresh_id_def current_time_def seal_def
        fresh_keys_def path_Do_iff to_instruction_wf [OF assms(1,2)] p)
qed

text \<open>
  The neighbour accepted the packet, but its answer is not a JSON object: the route raises, and
  the device is told nothing although the packet is on its way.
\<close>

lemma unusable_report_raises:
  assumes "is_success resp" "json_loads limit (hr_content resp) = Inr (JArr js)" "hr_content resp \<noteq> []"
  shows "\<exists>l. path (hand_off pd limit trunc dest p)
      [(Post dest (packet_to_json_bytes pd p), Answered resp), (l, Fine)] (Inl (OtherError ''AttributeError''))"
  using assms by (intro exI) (simp add: hand_off_def checked_post_def handed_over_def reported_def path_Do_iff
      submitted_response_def)

end
