(* ===== verification/Ledger.thy ===== *)
theory Ledger
  imports Settlement_Run
begin

text \<open>
  What settlement promises, without Redis, transactions or exceptions: a ledger that takes
  the row of every authorised packet once.  Deliveries processed one after another, at
  non-decreasing times, refine it, whatever expires in between.
\<close>

section \<open>The ledger\<close>

text \<open>The row a message asks for when it arrives at a time.\<close>

definition due_row :: "processor \<Rightarrow> instant \<Rightarrow> bytes \<Rightarrow> settlement_row option" where
  "due_row pr now raw =
     (case packet_of_json_bytes (pr_validator pr) raw of
        Inl e \<Rightarrow> None
      | Inr p \<Rightarrow>
          if admissible pr p now
          then (case open_instruction (pr_validator pr) (pr_crypto pr) (pr_json_depth pr) p (pr_settlement_private_key pr) of
                  Inl e \<Rightarrow> None
                | Inr ins \<Rightarrow> Some (settlement_of p ins (idempotency_key p)))
          else None)"

definition same_payment :: "settlement_row \<Rightarrow> settlement_row \<Rightarrow> bool" where
  "same_payment r s \<longleftrightarrow> s_idempotency_key s = s_idempotency_key r \<or> s_packet_id s = s_packet_id r"

definition ledger_step :: "processor \<Rightarrow> settlement_row list \<Rightarrow> instant \<times> bytes \<Rightarrow> settlement_row list" where
  "ledger_step pr rows d =
     (case due_row pr (fst d) (snd d) of
        None \<Rightarrow> rows
      | Some row \<Rightarrow> if list_ex (same_payment row) rows then rows else rows @ [row])"

text \<open>A delivery to the service: the clock stands at its time and the pipeline runs.\<close>

definition deliver :: "'r redis \<Rightarrow> processor \<Rightarrow> 'r world \<Rightarrow> instant \<times> bytes \<Rightarrow> 'r world" where
  "deliver R pr w d = snd (run (perform R) (process_body pr (snd d)) (w \<lparr> w_now := fst d \<rparr>))"

definition ledger_of :: "'r world \<Rightarrow> settlement_row list" where
  "ledger_of w = map settlement_row.truncate (settlements (w_tables w))"

section \<open>Deliveries that do not reach the claim\<close>

lemma perform_quiet:
  assumes "quiet c"
  shows "w_redis (snd (perform R c w)) = w_redis w" "w_now (snd (perform R c w)) = w_now w"
    "settlements (w_tables (snd (perform R c w))) = settlements (w_tables w)"
proof -
  show "settlements (w_tables (snd (perform R c w))) = settlements (w_tables w)"
    using perform_settlements [of R c w] assms by auto
qed (use assms in \<open>cases c; auto split: prod.split sum.split\<close>)+

lemma run_quiet:
  assumes "quiet_history (trace (perform R) p w)"
  shows "w_redis (snd (run (perform R) p w)) = w_redis w" "w_now (snd (run (perform R) p w)) = w_now w"
    "settlements (w_tables (snd (run (perform R) p w))) = settlements (w_tables w)"
proof -
  have "quiet_history h \<Longrightarrow> w_redis (foldl (\<lambda>w c. snd (perform R c w)) w (map fst h)) = w_redis w
      \<and> w_now (foldl (\<lambda>w c. snd (perform R c w)) w (map fst h)) = w_now w
      \<and> settlements (w_tables (foldl (\<lambda>w c. snd (perform R c w)) w (map fst h))) = settlements (w_tables w)" for h
    by (induction h arbitrary: w) (auto simp: perform_quiet)
  from this [OF assms] show "w_redis (snd (run (perform R) p w)) = w_redis w"
    "w_now (snd (run (perform R) p w)) = w_now w"
    "settlements (w_tables (snd (run (perform R) p w))) = settlements (w_tables w)"
    unfolding run_trace by blast+
qed

lemma inadmissible_quiet:
  assumes "\<nexists>p. packet_of_json_bytes (pr_validator pr) raw = Inr p \<and> admissible pr p (w_now w)"
  shows "quiet_history (trace (perform R) (process_body pr raw) w)"
proof -
  let ?h = "trace (perform R) (process_body pr raw) w"
  have "now = w_now w" if "?h = (ClockNow, Time now) # h2" for now h2
    using trace_first [OF that] by simp
  with path_process_body [OF path_trace, of pr raw "perform R" w] assms show ?thesis
    by (auto dest: early_quiet)
qed

section \<open>The refinement\<close>

text \<open>
  Among the packets of a stream the keys tell payments apart (the digest does not collide),
  and hop lists stay below the range of their column.
\<close>

definition parsed_in :: "processor \<Rightarrow> bytes set \<Rightarrow> packet \<Rightarrow> bool" where
  "parsed_in pr raws p \<longleftrightarrow> (\<exists>raw \<in> raws. packet_of_json_bytes (pr_validator pr) raw = Inr p)"

definition keys_identify :: "processor \<Rightarrow> bytes set \<Rightarrow> bool" where
  "keys_identify pr raws \<longleftrightarrow>
     (\<forall>p q. parsed_in pr raws p \<longrightarrow> parsed_in pr raws q \<longrightarrow> idempotency_key p = idempotency_key q
        \<longrightarrow> p_packet_id p = p_packet_id q)
     \<and> (\<forall>p. parsed_in pr raws p \<longrightarrow> int (hop_count p) < 2 ^ 31)"

lemma truncate_fields [simp]:
  "s_idempotency_key (settlement_row.truncate s) = s_idempotency_key s"
  "s_packet_id (settlement_row.truncate s) = s_packet_id s"
  by (simp_all add: settlement_row.defs)

lemma conflicts_ledger:
  "settlement_conflicts row (w_tables w) \<longleftrightarrow> list_ex (same_payment row) (ledger_of w)"
  by (auto simp: settlement_conflicts_def ledger_of_def list_ex_iff same_payment_def)

text \<open>Every marker Redis will still show belongs to a payment the table has.\<close>

definition backed :: "'r redis \<Rightarrow> processor \<Rightarrow> bytes set \<Rightarrow> 'r world \<Rightarrow> bool" where
  "backed R pr raws w \<longleftrightarrow>
     (\<forall>t k m. w_now w \<le> t \<longrightarrow> held_in R (w_redis w) t k = Some m \<longrightarrow>
        m = settled_marker \<and> (\<forall>p. parsed_in pr raws p \<longrightarrow> idempotency_key p = k \<longrightarrow>
          (\<exists>s \<in> set (settlements (w_tables w)). s_idempotency_key s = k \<or> s_packet_id s = p_packet_id p)))"

lemma backedI:
  assumes "\<And>t k m. w_now w \<le> t \<Longrightarrow> held_in R (w_redis w) t k = Some m \<Longrightarrow> m = settled_marker"
    and "\<And>t k m p. w_now w \<le> t \<Longrightarrow> held_in R (w_redis w) t k = Some m \<Longrightarrow> parsed_in pr raws p \<Longrightarrow>
      idempotency_key p = k \<Longrightarrow> \<exists>s \<in> set (settlements (w_tables w)). s_idempotency_key s = k \<or> s_packet_id s = p_packet_id p"
  shows "backed R pr raws w"
  using assms unfolding backed_def by blast

lemma backedD:
  assumes "backed R pr raws w" "w_now w \<le> t" "held_in R (w_redis w) t k = Some m"
  shows "m = settled_marker"
    and "parsed_in pr raws p \<Longrightarrow> idempotency_key p = k \<Longrightarrow>
      \<exists>s \<in> set (settlements (w_tables w)). s_idempotency_key s = k \<or> s_packet_id s = p_packet_id p"
  using assms unfolding backed_def by blast+

lemma backed_mono:
  assumes "backed R pr raws w" "w_now w \<le> w_now w'"
    and "\<And>t k. w_now w' \<le> t \<Longrightarrow> held_in R (w_redis w') t k = held_in R (w_redis w) t k \<or> held_in R (w_redis w') t k = None"
    and "set (settlements (w_tables w)) \<subseteq> set (settlements (w_tables w'))"
  shows "backed R pr raws w'"
proof (rule backedI)
  fix t k m assume t: "w_now w' \<le> t" and h: "held_in R (w_redis w') t k = Some m"
  then have *: "w_now w \<le> t" "held_in R (w_redis w) t k = Some m" using assms(2) assms(3) [of t k] by auto
  show "m = settled_marker" by (rule backedD(1) [OF assms(1) *])
  fix p assume "parsed_in pr raws p" "idempotency_key p = k"
  then show "\<exists>s \<in> set (settlements (w_tables w')). s_idempotency_key s = k \<or> s_packet_id s = p_packet_id p"
    using backedD(2) [OF assms(1) *] assms(4) by blast
qed

context redis_service begin

lemma held_settled:
  assumes "now \<le> t" "held_in R r now k = None"
  shows "held_in R (settle_in R d (snd (claim_in R d r now k)) now k) t k' =
     (if k' = k then (if t < now + settled_ttl d * us_per_second then Some settled_marker else None)
      else held_in R r t k')"
  using assms by (simp add: settle_effect claim_effect)

lemma held_released:
  assumes "now \<le> t"
  shows "held_in R (release_in R d (snd (claim_in R d r now k)) now k) t k' =
     (if k' = k then None else held_in R r t k')"
  using assms by (simp add: release_effect claim_effect)

lemma held_lost:
  assumes "now \<le> t" "held_in R r now k \<noteq> None"
  shows "held_in R (snd (claim_in R d r now k)) t k' = held_in R r t k'"
  using assms by (auto simp: claim_effect)

text \<open>What one delivery must achieve: the ledger takes the row it is due, once.\<close>

definition accounts :: "processor \<Rightarrow> bytes set \<Rightarrow> 'r world \<Rightarrow> settlement_row option \<Rightarrow> 'r world \<Rightarrow> bool" where
  "accounts pr raws v row v' \<longleftrightarrow>
     ledger_of v' = (case row of
         None \<Rightarrow> ledger_of v
       | Some r \<Rightarrow> if list_ex (same_payment r) (ledger_of v) then ledger_of v else ledger_of v @ [r])
     \<and> backed R pr raws v' \<and> w_now v' = w_now v"

lemma accounts_lost:
  assumes "pr_dedupe pr = d" "backed R pr raws v" "parsed_in pr raws p" "held_in R (w_redis v) (w_now v) (idempotency_key p) = Some m"
    and "row = None \<or> (\<exists>ins. row = Some (settlement_of p ins (idempotency_key p)))"
  shows "accounts pr raws v row (snd (run (perform R) (claim_and_settle pr p (idempotency_key p)) v))"
proof -
  obtain w' where w': "snd (run (perform R) (claim_and_settle pr p (idempotency_key p)) v) = w'" "w_now w' = w_now v"
      "w_tables w' = w_tables v" "w_redis w' = snd (claim_in R d (w_redis v) (w_now v) (idempotency_key p))"
    using run_lost [OF assms(1,4), of p] by auto
  have "backed R pr raws w'"
    by (rule backed_mono [OF assms(2)]) (use w' assms(4) in \<open>simp_all add: held_lost\<close>)
  moreover have "list_ex (same_payment (settlement_of p ins (idempotency_key p))) (ledger_of v)" for ins
    using backedD(2) [OF assms(2) order_refl assms(4,3) refl]
    by (simp flip: conflicts_ledger add: settlement_conflicts_def settlement_of_def)
  ultimately show ?thesis
    using w' assms(5) by (auto simp: accounts_def ledger_of_def split: option.split)
qed

lemma accounts_unopened:
  assumes "pr_dedupe pr = d" "backed R pr raws v" "held_in R (w_redis v) (w_now v) k = None"
    and "open_instruction (pr_validator pr) (pr_crypto pr) (pr_json_depth pr) p (pr_settlement_private_key pr) = Inl e"
  shows "accounts pr raws v None (snd (run (perform R) (claim_and_settle pr p k) v))"
proof -
  obtain w' where w': "snd (run (perform R) (claim_and_settle pr p k) v) = w'" "w_now w' = w_now v"
      "settlements (w_tables w') = settlements (w_tables v)"
      "w_redis w' = release_in R d (snd (claim_in R d (w_redis v) (w_now v) k)) (w_now v) k"
    using run_unopened [OF assms(1,3,4)] by auto
  have "backed R pr raws w'"
    by (rule backed_mono [OF assms(2)]) (use w' in \<open>simp_all add: held_released\<close>)
  then show ?thesis using w' by (simp add: accounts_def ledger_of_def)
qed

text \<open>The claim promoted to the settled marker is backed by the row, or by the conflicting one.\<close>

lemma settled_backed:
  assumes "backed R pr raws v" "held_in R (w_redis v) (w_now v) k = None"
    and "\<And>q. parsed_in pr raws q \<Longrightarrow> idempotency_key q = k \<Longrightarrow>
      \<exists>s \<in> set (settlements (w_tables w')). s_idempotency_key s = k \<or> s_packet_id s = p_packet_id q"
    and "w_now w' = w_now v" "set (settlements (w_tables v)) \<subseteq> set (settlements (w_tables w'))"
    and "w_redis w' = settle_in R d (snd (claim_in R d (w_redis v) (w_now v) k)) (w_now v) k"
  shows "backed R pr raws w'"
proof (rule backedI)
  fix t k' m assume t: "w_now w' \<le> t" and h: "held_in R (w_redis w') t k' = Some m"
  then have cases: "(k' = k \<and> m = settled_marker) \<or> (k' \<noteq> k \<and> held_in R (w_redis v) t k' = Some m)"
    using assms(4,6) held_settled [of "w_now v" t "w_redis v" k k'] assms(2) by (simp split: if_splits)
  then show "m = settled_marker" using backedD(1) [OF assms(1), of t k' m] t assms(4) by auto
  fix q assume "parsed_in pr raws q" "idempotency_key q = k'"
  then show "\<exists>s \<in> set (settlements (w_tables w')). s_idempotency_key s = k' \<or> s_packet_id s = p_packet_id q"
    using cases assms(3) [of q] backedD(2) [OF assms(1), of t k' m q] t assms(4,5) by auto
qed

lemma accounts_opened:
  assumes "pr_dedupe pr = d" "backed R pr raws v" "keys_identify pr raws" "parsed_in pr raws p"
    and "held_in R (w_redis v) (w_now v) (idempotency_key p) = None" "opens_to pr p ins"
  shows "accounts pr raws v (Some (settlement_of p ins (idempotency_key p)))
    (snd (run (perform R) (claim_and_settle pr p (idempotency_key p)) v))"
    (is "accounts _ _ _ (Some ?row) (snd ?run)")
proof -
  let ?redis = "settle_in R d (snd (claim_in R d (w_redis v) (w_now v) (idempotency_key p))) (w_now v) (idempotency_key p)"
  have "settlement_storable ?row" "settlement_checks ?row"
    using settlement_of_storable assms(3,4,6) packet_of_json_bytes_wf open_instruction_Inr(1)
    unfolding keys_identify_def opens_to_def parsed_in_def by metis+
  then obtain res t where ins: "insert_settlement ?row (w_now v) (w_tables v) = (res, t)"
      "if settlement_conflicts ?row (w_tables v) then res = Inl IntegrityError \<and> settlements t = settlements (w_tables v)
       else \<exists>n. res = Inr n \<and> settlements t = settlements (w_tables v) @
              [settlement_row.extend ?row \<lparr> s_id = n, s_settled_at = w_now v \<rparr>]"
    by (cases "settlement_conflicts ?row (w_tables v)") (simp_all add: insert_settlement_def Let_def)
  then obtain w' where w': "snd ?run = w'" "w_now w' = w_now v" "w_tables w' = t" "w_redis w' = ?redis"
    using run_settles [OF assms(1,6,5)] run_refused [OF assms(1,6,5)] by (fastforce split: if_splits)
  have key: "s_idempotency_key ?row = idempotency_key p" "s_packet_id ?row = p_packet_id p"
    by (simp_all add: settlement_of_def)
  have found: "\<exists>s \<in> set (settlements (w_tables w')). s_idempotency_key s = idempotency_key p \<or> s_packet_id s = p_packet_id p"
    using ins(2) key w'(3) by (auto simp: settlement_conflicts_def split: if_splits)
  have "backed R pr raws w'"
  proof (rule settled_backed [OF assms(2,5) _ w'(2) _ w'(4)])
    fix q assume q: "parsed_in pr raws q" "idempotency_key q = idempotency_key p"
    then have "p_packet_id q = p_packet_id p" using assms(3,4) unfolding keys_identify_def by blast
    with found show "\<exists>s \<in> set (settlements (w_tables w')). s_idempotency_key s = idempotency_key p \<or> s_packet_id s = p_packet_id q"
      by simp
  qed (use ins(2) w'(3) in \<open>auto split: if_splits\<close>)
  then show ?thesis
    using w' ins(2) conflicts_ledger [of ?row v] by (auto simp: accounts_def ledger_of_def split: if_splits)
qed

text \<open>One delivery.\<close>

lemma deliver_step:
  assumes pr: "pr_dedupe pr = d" and ok: "keys_identify pr raws" "raw \<in> raws"
    and w: "backed R pr raws w" "w_now w \<le> now"
  shows "ledger_of (deliver R pr w (now, raw)) = ledger_step pr (ledger_of w) (now, raw)
    \<and> backed R pr raws (deliver R pr w (now, raw)) \<and> w_now (deliver R pr w (now, raw)) = now"
proof -
  define v where "v = w \<lparr> w_now := now \<rparr>"
  have v: "backed R pr raws v" "w_now v = now" "ledger_of v = ledger_of w"
    using backed_mono [OF w(1), of v] w(2) by (auto simp: v_def ledger_of_def)
  have "accounts pr raws v (due_row pr now raw) (snd (run (perform R) (process_body pr raw) v))"
  proof (cases "\<exists>p. packet_of_json_bytes (pr_validator pr) raw = Inr p \<and> admissible pr p now")
    case False
    then have q: "quiet_history (trace (perform R) (process_body pr raw) v)"
      by (intro inadmissible_quiet) (simp add: v(2))
    have "due_row pr now raw = None" using False by (auto simp: due_row_def split: sum.split)
    moreover have "backed R pr raws (snd (run (perform R) (process_body pr raw) v))"
      by (rule backed_mono [OF v(1)]) (simp_all add: run_quiet [OF q])
    ultimately show ?thesis using run_quiet [OF q] by (simp add: accounts_def ledger_of_def)
  next
    case True
    then obtain p where p: "packet_of_json_bytes (pr_validator pr) raw = Inr p" "admissible pr p now" by blast
    have parsed: "parsed_in pr raws p" using p(1) ok(2) by (auto simp: parsed_in_def)
    show ?thesis
    proof (cases "held_in R (w_redis v) (w_now v) (idempotency_key p)")
      case (Some m)
      have "due_row pr now raw = None \<or> (\<exists>ins. due_row pr now raw = Some (settlement_of p ins (idempotency_key p)))"
        using p by (auto simp: due_row_def split: sum.split)
      from accounts_lost [OF pr v(1) parsed Some this] show ?thesis
        using p v(2) by (simp add: run_process_admissible)
    next
      case None
      then show ?thesis
        using accounts_unopened [OF pr v(1) None, of p] accounts_opened [OF pr v(1) ok(1) parsed None] p v(2)
        by (auto simp: run_process_admissible due_row_def opens_to_def split: sum.split)
    qed
  qed
  then show ?thesis
    using v(2,3) unfolding deliver_def fst_conv snd_conv v_def [symmetric] by (simp add: accounts_def ledger_step_def split: option.split)
qed

text \<open>A stream of deliveries.\<close>

lemma deliver_stream:
  assumes "pr_dedupe pr = d" "keys_identify pr raws" "snd ` set ds \<subseteq> raws" "sorted (map fst ds)"
    and "backed R pr raws w" "\<And>t. t \<in> fst ` set ds \<Longrightarrow> w_now w \<le> t"
  shows "ledger_of (foldl (deliver R pr) w ds) = foldl (ledger_step pr) (ledger_of w) ds"
  using assms(3-6)
proof (induction ds arbitrary: w)
  case (Cons x ds)
  obtain now raw where x: "x = (now, raw)" by fastforce
  note step = deliver_step [OF assms(1,2), of raw w now]
  have s: "ledger_of (deliver R pr w x) = ledger_step pr (ledger_of w) x"
    "backed R pr raws (deliver R pr w x)" "w_now (deliver R pr w x) = now"
    using step Cons.prems unfolding x by auto
  have "ledger_of (foldl (deliver R pr) (deliver R pr w x) ds) = foldl (ledger_step pr) (ledger_of (deliver R pr w x)) ds"
    by (rule Cons.IH) (use Cons.prems s x in auto)
  then show ?case by (simp add: s)
qed simp

end

text \<open>An empty Redis backs everything.\<close>

lemma backed_empty: "(\<And>t k. rd_get R (w_redis w) t k = None) \<Longrightarrow> backed R pr raws w"
  by (simp add: backed_def held_in_def)

end
