(* ===== verification/Journey.thy ===== *)
theory Journey
  imports Mesh_Relay Bridge Sender Ledger
begin

text \<open>
  The mesh as a whole: relays that forward to one another and to the bridge, a packet handed to
  the first of them, and the settlement of what arrives on the queue.  A call from one node to
  another runs the callee's route; the depth of nested calls is the fuel of \<open>carry\<close>.
\<close>

section \<open>The network\<close>

text \<open>
  \<open>nw_read_body\<close> is what the web framework hands to a route for a request body; it is a
  parameter, assumed to give back a packet that was dumped.
\<close>

record 's network =
  nw_pydantic :: pydantic
  nw_crypto :: crypto
  nw_sender_key :: bytes
  nw_read_body :: "bytes \<Rightarrow> packet incoming"
  nw_relays :: "string \<Rightarrow> relay_config option"
  nw_bridge :: string
  nw_queue :: string
  nw_publish :: "bytes \<Rightarrow> string \<Rightarrow> 's \<Rightarrow> (exn + unit) \<times> 's"
  nw_now :: instant

definition respond :: "'s network \<Rightarrow> (exn + http_json) \<times> 's \<Rightarrow> node_reply \<times> 's" where
  "respond nw res =
     (case res of
        (Inr j, s) \<Rightarrow> (Answered \<lparr> hr_status = hj_status j, hr_content = pd_dump_json (nw_pydantic nw) (hj_body j),
                                hr_media_type = Some ''application/json'' \<rparr>, s)
      | (Inl e, s) \<Rightarrow> (Answered \<lparr> hr_status = 500, hr_content = utf8_encode ''Internal Server Error'',
                                hr_media_type = Some ''text/plain; charset=utf-8'' \<rparr>, s))"

definition no_route :: "'s \<Rightarrow> node_reply \<times> 's" where
  "no_route s = (Broken (HTTPError ''ConnectError''), s)"

primrec carry :: "'s network \<Rightarrow> nat \<Rightarrow> string \<Rightarrow> bytes \<Rightarrow> 's \<Rightarrow> node_reply \<times> 's" where
  "carry nw 0 = (\<lambda>url body. no_route)"
| "carry nw (Suc n) = (\<lambda>url body s.
     let ex = node_exec (nw_now nw) (nw_publish nw) (carry nw n) in
     if url = nw_bridge nw then
       respond nw (run ex (bridge_endpoint (nw_pydantic nw) (nw_crypto nw) (nw_sender_key nw) (nw_queue nw)
         (nw_read_body nw body)) s)
     else case nw_relays nw url of
         None \<Rightarrow> no_route s
       | Some cfg \<Rightarrow> respond nw (run ex (relay_endpoint (nw_pydantic nw) (nw_crypto nw) (nw_sender_key nw) cfg
           (nw_read_body nw body)) s))"

text \<open>A ring with one hop target and limit, whose relays lead to each other and to the bridge.\<close>

definition ring :: "'s network \<Rightarrow> nat \<Rightarrow> nat \<Rightarrow> bool" where
  "ring nw target limit \<longleftrightarrow>
     nw_relays nw (nw_bridge nw) = None \<and> valid_instant (nw_now nw)
     \<and> (\<forall>p. wf_packet p \<longrightarrow> nw_read_body nw (packet_to_json_bytes (nw_pydantic nw) p) = Accepted p)
     \<and> (\<forall>url cfg. nw_relays nw url = Some cfg \<longrightarrow>
          identifier_pattern (rc_node_id cfg) \<and> rc_hop_count_target cfg = int target \<and> rc_hop_limit cfg = int limit
          \<and> rstrip_slash (rc_bridge_url cfg) @ ''/bridge'' = nw_bridge nw
          \<and> nw_relays nw (rstrip_slash (rc_next_relay_url cfg) @ ''/relay'') \<noteq> None)"

section \<open>One node\<close>

lemma run_relay:
  assumes "verify c p key = None" "int (hop_count p) < rc_hop_limit cfg" "identifier_pattern (rc_node_id cfg)" "valid_instant now"
  defines "p' \<equiv> append_hop p \<lparr> h_node_id = rc_node_id cfg, h_received_at = now \<rparr>"
  shows "run (node_exec now pub post) (relay pd c key cfg p) s =
    run (node_exec now pub post) (send_on pd cfg p') s"
  using assms by (simp add: relay_def forward_def new_hop_valid)

lemma run_send_on:
  assumes "post (fst (next_destination cfg (int (hop_count p)))) (packet_to_json_bytes pd p) s = (Answered r, s')"
  shows "\<exists>out. run (node_exec now pub post) (send_on pd cfg p) s = (Inr out, s')
    \<and> (is_success r \<longleftrightarrow> (\<exists>resp. out = Inr resp)) \<and> (\<forall>e. out = Inl e \<longrightarrow> se_http_status e = 502)"
  using assms by (simp add: send_on_def checked_post_def Let_def forward_failed_def)

text \<open>What a route answered, as the caller sees it.\<close>

lemma run_serve:
  assumes "run (node_exec now pub post) (route x) s = (Inr out, s')"
  shows "\<exists>j. run (node_exec now pub post) (serve name render (\<lambda>_. None) route (Accepted x)) s = (Inr j, s')
    \<and> j = (case out of Inr v \<Rightarrow> render v | Inl e \<Rightarrow> error_of e)"
  using assms by (cases out) (simp_all add: serve_def run_bind)

text \<open>A relay in the ring answers with success when the next node did.\<close>

lemma carry_relay:
  assumes "ring nw target limit" "nw_relays nw url = Some cfg" "wf_packet p"
    and "verify (nw_crypto nw) p (nw_sender_key nw) = None" "hop_count p < limit"
  defines "p' \<equiv> append_hop p \<lparr> h_node_id = rc_node_id cfg, h_received_at = nw_now nw \<rparr>"
  assumes "carry nw n (fst (next_destination cfg (int (hop_count p'))))
      (packet_to_json_bytes (nw_pydantic nw) p') s = (Answered r, s')"
  shows "\<exists>r'. carry nw (Suc n) url (packet_to_json_bytes (nw_pydantic nw) p) s = (Answered r', s')
    \<and> (is_success r' \<longleftrightarrow> is_success r)"
proof -
  note ok = assms(1) [unfolded ring_def]
  have c: "identifier_pattern (rc_node_id cfg)" "int (hop_count p) < rc_hop_limit cfg" "valid_instant (nw_now nw)"
    "url \<noteq> nw_bridge nw" "nw_read_body nw (packet_to_json_bytes (nw_pydantic nw) p) = Accepted p"
    using ok assms(2,3,5) by auto
  let ?ex = "node_exec (nw_now nw) (nw_publish nw) (carry nw n)"
  let ?route = "relay (nw_pydantic nw) (nw_crypto nw) (nw_sender_key nw) cfg"
  obtain out where out: "run ?ex (?route p) s = (Inr out, s')" "is_success r \<longleftrightarrow> (\<exists>resp. out = Inr resp)"
    "\<forall>e. out = Inl e \<longrightarrow> se_http_status e = 502"
    using run_send_on [where post = "carry nw n" and cfg = cfg and p = p' and pd = "nw_pydantic nw", OF assms(7),
        where now = "nw_now nw" and pub = "nw_publish nw"]
      run_relay [OF assms(4) c(2,1,3), where pub = "nw_publish nw" and post = "carry nw n" and pd = "nw_pydantic nw"
        and s = s] unfolding p'_def by auto
  show ?thesis
    using run_serve [where route = ?route and x = p, OF out(1), where name = "''mesh_relay''"
        and render = "\<lambda>r. \<lparr> hj_status = 202, hj_body = relay_json r \<rparr>"] out(2,3) assms(2) c(4,5)
    by (cases out) (auto simp: respond_def relay_endpoint_def is_success_def error_of_def error_answer_def)
qed

section \<open>From the first relay to the queue\<close>

context publisher begin

lemma carry_bridge:
  assumes "ring nw target limit" "nw_publish nw = publish" "wf_packet p" "verify (nw_crypto nw) p (nw_sender_key nw) = None"
  shows "\<exists>r s'. carry nw (Suc n) (nw_bridge nw) (packet_to_json_bytes (nw_pydantic nw) p) s = (Answered r, s')
    \<and> queued s' = queued s @ (if is_success r then [(packet_to_json_bytes (nw_pydantic nw) p, idempotency_key p)] else [])"
proof -
  let ?ex = "node_exec (nw_now nw) publish (carry nw n)"
  let ?route = "bridge (nw_pydantic nw) (nw_crypto nw) (nw_sender_key nw) (nw_queue nw)"
  obtain out s' where run: "run ?ex (?route p) s = (out, s')" by fastforce
  from bridge_publishes [OF assms(4), where now = "nw_now nw" and post = "carry nw n" and pd = "nw_pydantic nw"
      and name = "nw_queue nw" and s = s] run
  obtain o2 where o2: "out = Inr o2" "queued s' = queued s @ (case o2 of
      Inr resp \<Rightarrow> [(packet_to_json_bytes (nw_pydantic nw) p, idempotency_key p)] | Inl e \<Rightarrow> [])"
    "\<forall>e. o2 = Inl e \<longrightarrow> se_http_status e = 503"
    by (auto split: sum.splits)
  have "nw_read_body nw (packet_to_json_bytes (nw_pydantic nw) p) = Accepted p"
    using assms(1,3) by (simp add: ring_def)
  then show ?thesis
    using run_serve [of "nw_now nw" publish "carry nw n" ?route p s o2 s', OF run [unfolded o2(1)]] o2(2,3)
    by (cases o2) (auto simp: respond_def bridge_endpoint_def assms(2) is_success_def error_of_def error_answer_def)
qed

lemma carry_reaches_queue:
  assumes "ring nw target limit" "nw_publish nw = publish"
  shows "wf_packet p \<Longrightarrow> verify (nw_crypto nw) p (nw_sender_key nw) = None \<Longrightarrow> nw_relays nw url \<noteq> None
    \<Longrightarrow> Suc k = max 1 (target - hop_count p) \<Longrightarrow> hop_count p + k < limit \<Longrightarrow> Suc k < n
    \<Longrightarrow> \<exists>hs r s'. carry nw n url (packet_to_json_bytes (nw_pydantic nw) p) s = (Answered r, s')
      \<and> length hs = Suc k \<and> list_all wf_hop hs
      \<and> queued s' = queued s @ (if is_success r
            then [(packet_to_json_bytes (nw_pydantic nw) (foldl append_hop p hs), idempotency_key p)] else [])"
proof (induction k arbitrary: p url n)
  case (0 p url n)
  then have "n = Suc (Suc (n - 2))" by simp
  then obtain m where n: "n = Suc (Suc m)" by blast
  obtain cfg where cfg: "nw_relays nw url = Some cfg" using 0 by auto
  define h where "h = \<lparr> h_node_id = rc_node_id cfg, h_received_at = nw_now nw \<rparr>"
  note r = assms(1) [unfolded ring_def]
  have c: "identifier_pattern (rc_node_id cfg)" "rc_hop_count_target cfg = int target" "valid_instant (nw_now nw)"
    "rstrip_slash (rc_bridge_url cfg) @ ''/bridge'' = nw_bridge nw"
    using cfg r by auto
  have hop: "wf_hop h" "wf_packet (append_hop p h)" using c 0 by (simp_all add: h_def wf_hop_def wf_append_hop)
  have dest: "fst (next_destination cfg (int (hop_count (append_hop p h)))) = nw_bridge nw"
  proof -
    have "target \<le> Suc (hop_count p)" using 0(4) by linarith
    then show ?thesis using c by (simp add: next_destination_def)
  qed
  have "verify (nw_crypto nw) (append_hop p h) (nw_sender_key nw) = None" using 0(2) by simp
  from carry_bridge [OF assms hop(2) this, where n = m and s = s]
  obtain r s' where b: "carry nw (Suc m) (nw_bridge nw) (packet_to_json_bytes (nw_pydantic nw) (append_hop p h)) s = (Answered r, s')"
    "queued s' = queued s @ (if is_success r then [(packet_to_json_bytes (nw_pydantic nw) (append_hop p h), idempotency_key (append_hop p h))] else [])"
    by (elim exE conjE)
  obtain r' where "carry nw n url (packet_to_json_bytes (nw_pydantic nw) p) s = (Answered r', s')" "is_success r' \<longleftrightarrow> is_success r"
    using carry_relay [OF assms(1) cfg, of p "Suc m" s r s'] 0 b(1) dest n unfolding h_def by auto
  then show ?case using b(2) hop by (intro exI [of _ "[h]"] exI [of _ r'] exI [of _ s']) simp
next
  case (Suc k p url n)
  then obtain m where n: "n = Suc m" "Suc k < m" by (cases n) auto
  obtain cfg where cfg: "nw_relays nw url = Some cfg" using Suc by auto
  define h where "h = \<lparr> h_node_id = rc_node_id cfg, h_received_at = nw_now nw \<rparr>"
  define onward where "onward = rstrip_slash (rc_next_relay_url cfg) @ ''/relay''"
  note r = assms(1) [unfolded ring_def]
  have c: "identifier_pattern (rc_node_id cfg)" "rc_hop_count_target cfg = int target" "valid_instant (nw_now nw)"
    "nw_relays nw onward \<noteq> None"
    using cfg r by (auto simp: onward_def)
  have hop: "wf_hop h" "wf_packet (append_hop p h)" using c Suc by (simp_all add: h_def wf_hop_def wf_append_hop)
  have k2: "target - hop_count p = Suc (Suc k)" using Suc.prems(4) by linarith
  then have "target - hop_count (append_hop p h) = Suc k" by simp
  with k2 have k: "Suc k = max 1 (target - hop_count (append_hop p h))" "target - hop_count p = Suc (Suc k)"
    by linarith+
  have dest: "fst (next_destination cfg (int (hop_count (append_hop p h)))) = onward"
    using k(2) c(2) by (simp add: next_destination_def onward_def)
  obtain hs r s' where b: "carry nw m onward (packet_to_json_bytes (nw_pydantic nw) (append_hop p h)) s = (Answered r, s')"
    "length hs = Suc k" "list_all wf_hop hs"
    "queued s' = queued s @ (if is_success r
       then [(packet_to_json_bytes (nw_pydantic nw) (foldl append_hop p (h # hs)), idempotency_key p)] else [])"
    using Suc.IH [of "append_hop p h" onward m] hop c(4) k(1) n(2) Suc.prems by auto
  obtain r' where "carry nw n url (packet_to_json_bytes (nw_pydantic nw) p) s = (Answered r', s')" "is_success r' \<longleftrightarrow> is_success r"
    using carry_relay [OF assms(1) cfg, of p m s r s'] Suc.prems b(1) dest n unfolding h_def by auto
  then show ?case using b hop by (intro exI [of _ "h # hs"] exI [of _ r'] exI [of _ s']) simp
qed

text \<open>The device: told of success, its packet is on the queue; told of failure, nothing is.\<close>

lemma hand_off_outcome:
  assumes "ring nw target limit" "nw_publish nw = publish" "wf_packet p"
    and "verify (nw_crypto nw) p (nw_sender_key nw) = None" "nw_relays nw url \<noteq> None"
    and "k = max 1 (target - hop_count p)" "hop_count p + k \<le> limit" "k < n"
    and "run (node_exec now publish (carry nw n)) (hand_off (nw_pydantic nw) depth trunc url p) s = (Inr res, s')"
  shows "case res of
      Inr resp \<Rightarrow> ps_idempotency_key resp = idempotency_key p \<and> (\<exists>hs. length hs = k \<and> list_all wf_hop hs
        \<and> queued s' = queued s @ [(packet_to_json_bytes (nw_pydantic nw) (foldl append_hop p hs), idempotency_key p)])
    | Inl e \<Rightarrow> queued s' = queued s"
proof -
  have k: "Suc (k - 1) = max 1 (target - hop_count p)" "hop_count p + (k - 1) < limit" "Suc (k - 1) < n" "Suc (k - 1) = k"
    using assms(6-8) by linarith+
  obtain hs r t where c: "carry nw n url (packet_to_json_bytes (nw_pydantic nw) p) s = (Answered r, t)"
    "length hs = k" "list_all wf_hop hs"
    "queued t = queued s @ (if is_success r
       then [(packet_to_json_bytes (nw_pydantic nw) (foldl append_hop p hs), idempotency_key p)] else [])"
    using carry_reaches_queue [OF assms(1-5) k(1-3), of s] unfolding k(4) by blast
  show ?thesis
  proof (cases "is_success r")
    case True
    then have "run (node_exec now publish (carry nw n)) (handed_over depth trunc url p r) t = (Inr res, s')"
      using assms(9) c(1) by (simp add: hand_off_def checked_post_def)
    then have "s' = t \<and> (\<exists>resp. res = Inr resp \<and> ps_idempotency_key resp = idempotency_key p)"
      by (auto simp: handed_over_def submitted_response_def sum_bind_eq_Inr split: sum.splits json.splits)
    then show ?thesis using c(2-4) True by auto
  next
    case False
    then have "s' = t \<and> (\<exists>e. res = Inl e)"
      using assms(9) c(1) by (auto simp: hand_off_def checked_post_def handoff_failed_def)
    then show ?thesis using c(4) False by auto
  qed
qed

end

section \<open>From the queue to the ledger\<close>

lemma foldl_append_hop:
  "signing_bytes (foldl append_hop p hs) = signing_bytes p"
  "idempotency_key (foldl append_hop p hs) = idempotency_key p"
  "verify c (foldl append_hop p hs) k = verify c p k"
  "open_instruction pd c limit (foldl append_hop p hs) k' = open_instruction pd c limit p k'"
  "expected_aad (foldl append_hop p hs) = expected_aad p"
  "hop_count (foldl append_hop p hs) = hop_count p + length hs"
  "p_created_at (foldl append_hop p hs) = p_created_at p"
  "p_envelope (foldl append_hop p hs) = p_envelope p"
  "p_packet_id (foldl append_hop p hs) = p_packet_id p"
  "p_sender_id (foldl append_hop p hs) = p_sender_id p"
  by (induction hs arbitrary: p) (simp_all add: append_hop_def [abs_def] append_hop_signed [unfolded append_hop_def])

lemma wf_foldl_append_hop: "wf_packet p \<Longrightarrow> list_all wf_hop hs \<Longrightarrow> wf_packet (foldl append_hop p hs)"
  by (induction hs arbitrary: p) (simp_all add: wf_append_hop)

text \<open>A settlement service set up for a sender: the keys match and the libraries behave.\<close>

definition matched :: "crypto \<Rightarrow> bytes \<Rightarrow> bytes \<Rightarrow> processor \<Rightarrow> bool" where
  "matched c sk rk pr \<longleftrightarrow>
     signs_correctly c \<and> seals_correctly c \<and> pr_crypto pr = c \<and> pr_sender_public_key pr = ed25519_public c sk
     \<and> pr_settlement_private_key pr = rk \<and> reads_scalars (pr_validator pr) \<and> reads_documents (pr_validator pr)
     \<and> 1 \<le> pr_json_depth pr"

text \<open>A packet the sender made is due its row wherever its hops took it, while it is fresh.\<close>

lemma arrived_row:
  assumes "create pd c fr ins sender sk (rsa_public c rk) created = Inr p" "wf_instruction ins" "fresh_ok fr"
    and "matched c sk rk pr" "list_all wf_hop hs" "fresh_at pr p now"
  defines "p' \<equiv> foldl append_hop p hs"
  shows "packet_of_json_bytes (pr_validator pr) (packet_to_json_bytes (pr_validator pr) p') = Inr p'"
    and "due_row pr now (packet_to_json_bytes (pr_validator pr) p') = Some (settlement_of p' ins (idempotency_key p))"
proof -
  note m = assms(4) [unfolded matched_def]
  have "wf_packet p'" using create_Inr(7) [OF assms(1)] assms(5) by (simp add: p'_def wf_foldl_append_hop)
  then show parsed: "packet_of_json_bytes (pr_validator pr) (packet_to_json_bytes (pr_validator pr) p') = Inr p'"
    using packet_wire m by blast
  have "admissible pr p' now"
    using create_verifies [OF assms(1)] create_aad [OF assms(1)] m assms(6)
    by (simp add: admissible_def p'_def foldl_append_hop fresh_at_def)
  moreover have "open_instruction (pr_validator pr) (pr_crypto pr) (pr_json_depth pr) p' (pr_settlement_private_key pr) = Inr ins"
    using create_opens [OF assms(1) _ assms(3) _ assms(2)] m by (simp add: p'_def foldl_append_hop)
  ultimately show "due_row pr now (packet_to_json_bytes (pr_validator pr) p') = Some (settlement_of p' ins (idempotency_key p))"
    using parsed by (simp add: due_row_def p'_def foldl_append_hop)
qed

text \<open>Delivered to a service that knows nothing of it, the row goes into the ledger.\<close>

context redis_service begin

lemma first_delivery:
  assumes "pr_dedupe pr = d" "packet_of_json_bytes (pr_validator pr) raw = Inr p" "int (hop_count p) < 2 ^ 31"
    and "due_row pr now raw = Some row" "\<not> list_ex (same_payment row) (ledger_of w)"
    and "\<And>t k. rd_get R (w_redis w) t k = None" "w_now w \<le> now"
  shows "ledger_of (deliver R pr w (now, raw)) = ledger_of w @ [row]"
proof -
  have "keys_identify pr {raw}" using assms(2,3) by (auto simp: keys_identify_def parsed_in_def)
  then have "ledger_of (deliver R pr w (now, raw)) = ledger_step pr (ledger_of w) (now, raw)"
    using deliver_step [OF assms(1), of "{raw}" raw w now] backed_empty [OF assms(6)] assms(7) by simp
  then show ?thesis using assms(4,5) by (simp add: ledger_step_def)
qed

end

section \<open>Forwarding ends\<close>

lemma run_checked_post:
  "run (node_exec now pub post) (checked_post url body failure f) s =
     (case post url body s of
        (Answered resp, s') \<Rightarrow> run (node_exec now pub post) (if is_success resp then f resp else failure ''HTTPStatusError'') s'
      | (Broken (HTTPError name), s') \<Rightarrow> run (node_exec now pub post) (failure name) s'
      | (Broken e, s') \<Rightarrow> (Inl e, s')
      | (_, s') \<Rightarrow> (Inl (OtherError ''no response''), s'))"
  by (auto simp: checked_post_def split: prod.split node_reply.split exn.split)

lemma run_send_on_post:
  assumes "post (fst (next_destination cfg (int (hop_count p)))) (packet_to_json_bytes pd p) s
    = post' (fst (next_destination cfg (int (hop_count p)))) (packet_to_json_bytes pd p) s"
  shows "run (node_exec now pub post) (send_on pd cfg p) s = run (node_exec now pub post') (send_on pd cfg p) s"
  unfolding send_on_def Let_def run_checked_post assms
  by (auto simp: forward_failed_def split: prod.split node_reply.split exn.split)

lemma new_hop_wf: "new_hop pd node (utc_datetime t) = Inr h \<Longrightarrow> wf_hop h"
  using make_hop_Inr [OF _ proper_at_loc proper_at_loc]
  by (fastforce simp: new_hop_def wf_hop_def dest: checked_timestamp_valid)

text \<open>What a relay does depends on the rest of the mesh only through the one call it makes.\<close>

lemma run_relay_post:
  assumes "\<And>h. wf_hop h \<Longrightarrow> int (hop_count p) < rc_hop_limit cfg \<Longrightarrow>
      post (fst (next_destination cfg (int (Suc (hop_count p))))) (packet_to_json_bytes pd (append_hop p h)) s
    = post' (fst (next_destination cfg (int (Suc (hop_count p))))) (packet_to_json_bytes pd (append_hop p h)) s"
  shows "run (node_exec now pub post) (relay pd c key cfg p) s = run (node_exec now pub post') (relay pd c key cfg p) s"
proof -
  have "run (node_exec now pub post) (forward pd cfg p) s = run (node_exec now pub post') (forward pd cfg p) s"
    if "int (hop_count p) < rc_hop_limit cfg"
  proof (cases "new_hop pd (rc_node_id cfg) (utc_datetime now)")
    case (Inr h)
    from assms [OF new_hop_wf [OF this] that] show ?thesis
      using run_send_on_post [of post cfg "append_hop p h" pd s post' now pub] Inr by (simp add: forward_def)
  qed (simp add: forward_def)
  then show ?thesis
    by (auto simp: relay_def relay_rejected_def split: option.split exn.split)
qed

lemma run_serve_cong:
  assumes "run (node_exec now pub post) (route x) s = run (node_exec now pub post') (route x) s"
  shows "run (node_exec now pub post) (serve name render (\<lambda>_. None) route (Accepted x)) s
    = run (node_exec now pub post') (serve name render (\<lambda>_. None) route (Accepted x)) s"
  by (simp add: serve_def run_bind assms split: prod.split sum.split)

lemma run_bridge_post:
  "run (node_exec now pub post) (bridge pd c key name p) s = run (node_exec now pub post') (bridge pd c key name p) s"
  by (auto simp: bridge_def bridge_publish_failed_def Let_def split: option.split exn.split prod.split sum.split)

text \<open>
  In any mesh, whatever its topology: one more level of calls than a packet has hops left changes
  nothing, so no chain of calls is longer.
\<close>

lemma carry_ends:
  assumes body: "\<And>p. wf_packet p \<Longrightarrow> nw_read_body nw (packet_to_json_bytes (nw_pydantic nw) p) = Accepted p"
    and limit: "\<And>url cfg. nw_relays nw url = Some cfg \<Longrightarrow> rc_hop_limit cfg \<le> int L"
  shows "wf_packet p \<Longrightarrow> L < hop_count p + n \<Longrightarrow> 0 < n \<Longrightarrow>
    carry nw (n + k) url (packet_to_json_bytes (nw_pydantic nw) p) s = carry nw n url (packet_to_json_bytes (nw_pydantic nw) p) s"
proof (induction n arbitrary: p url s)
  case (Suc n)
  note read = body [OF Suc.prems(1)]
  have bridge: "run (node_exec now pub (carry nw (n + k))) (bridge_endpoint pd c key q (Accepted p)) s
      = run (node_exec now pub (carry nw n)) (bridge_endpoint pd c key q (Accepted p)) s" for now pub pd c key q
    unfolding bridge_endpoint_def by (rule run_serve_cong, rule run_bridge_post)
  have relay: "run (node_exec now pub (carry nw (n + k))) (relay_endpoint (nw_pydantic nw) c key cfg (Accepted p)) s
      = run (node_exec now pub (carry nw n)) (relay_endpoint (nw_pydantic nw) c key cfg (Accepted p)) s"
    if cfg: "nw_relays nw url = Some cfg" for cfg now pub c key
    unfolding relay_endpoint_def
  proof (rule run_serve_cong, rule run_relay_post)
    fix h assume h: "wf_hop h" "int (hop_count p) < rc_hop_limit cfg"
    have "L < hop_count (append_hop p h) + n" using Suc.prems(2) by simp
    moreover have "0 < n" using h(2) limit [OF cfg] Suc.prems(2) by linarith
    ultimately show "carry nw (n + k) (fst (next_destination cfg (int (Suc (hop_count p))))) (packet_to_json_bytes (nw_pydantic nw) (append_hop p h)) s
        = carry nw n (fst (next_destination cfg (int (Suc (hop_count p))))) (packet_to_json_bytes (nw_pydantic nw) (append_hop p h)) s"
      by (intro Suc.IH wf_append_hop [OF Suc.prems(1) h(1)])
  qed
  show ?case by (simp add: read bridge relay Let_def split: option.split)
qed simp

end
