(* ===== verification/Example_Runs.thy ===== *)
theory Example_Runs
  imports Examples Broker_Runs Journey
begin

text \<open>
  The example packet in a world that starts empty: the broker runs that settle it, lose it or
  refuse it, and a ring of one relay in front of a RabbitMQ publisher that carries it.
\<close>

section \<open>The service\<close>

definition ex_world :: "expiring world" where
  "ex_world = \<lparr> w_redis = (\<lambda>_. None), w_tables = empty_tables, w_now = ex_now, w_log = [] \<rparr>"

definition ex_consumer :: consumer where
  "ex_consumer = new_consumer default_settings None None None False"

lemma ex_consumer_silent [simp]: "\<not> c_on_outcome ex_consumer"
  by (simp add: ex_consumer_def new_consumer_def)

lemma ex_world_simps [simp]:
  "w_redis ex_world = (\<lambda>_. None)" "w_tables ex_world = empty_tables" "w_now ex_world = ex_now"
  by (simp_all add: ex_world_def)

lemma ex_tables_ok: "tables_ok (w_tables ex_world)"
  by (simp add: empty_tables_ok)

lemma ex_redis_empty [simp]: "rd_get expiring_redis (\<lambda>_. None) t k = None" "held_in expiring_redis (\<lambda>_. None) t k = None"
  by (simp_all add: expiring_redis_def expiring_get_def held_in_def)

lemma ex_claim_ttl [simp]: "claim_ttl default_dedupe = 60" "settled_ttl default_dedupe = 86400"
  by (simp_all add: default_dedupe_def new_dedupe_store_def or_default_def default_settings_def)

lemma ex_fresh_at: "0 \<le> t - ex_now \<Longrightarrow> t - ex_now \<le> 86400 * us_per_second \<Longrightarrow> fresh_at ex_processor ex_packet t"
  by (simp add: fresh_at_def ex_packet_fields us_per_second_def)

lemma ex_admissible_at: "0 \<le> t - ex_now \<Longrightarrow> t - ex_now \<le> 86400 * us_per_second \<Longrightarrow> admissible ex_processor ex_packet t"
  using ex_admissible ex_fresh_at by (simp add: admissible_def)

lemma ex_hop_count [simp]: "hop_count ex_packet = 0"
  by (simp add: hop_count_def ex_packet_fields)

lemma ex_no_conflict: "\<not> settlement_conflicts row (w_tables ex_world)"
  by (simp add: settlement_conflicts_def empty_tables_def)

abbreviation ex_late :: instant where "ex_late \<equiv> ex_now + 60 * us_per_second"
abbreviation ex_early :: instant where "ex_early \<equiv> ex_now + 30 * us_per_second"

lemma ex_settled_run:
  "\<exists>b s. reachable expiring_redis ex_consumer ex_processor ex_world b \<and> bk_published b = [ex_raw] \<and> bk_queue b = []
    \<and> bk_in_flight b = [] \<and> bk_acked b = [ex_raw] \<and> settlements (w_tables (bk_world b)) = [s]
    \<and> settlement_row.truncate s = settlement_of ex_packet ex_instruction (idempotency_key ex_packet)"
  using expiring.late_redelivery [of ex_processor ex_consumer ex_raw ex_packet ex_world ex_late ex_instruction]
    ex_parsed_by ex_admissible_at ex_opens ex_no_conflict
  by (simp add: empty_tables_def us_per_second_def)

lemma ex_keys_identify: "keys_identify ex_processor {ex_raw}"
  by (auto simp: keys_identify_def parsed_in_def ex_parsed)

text \<open>A message whose timestamp has no UTC instant: the validator raises past pydantic.\<close>

definition ex_poison :: bytes where
  "ex_poison = utf8_encode (json_text (JObj
     [(''packet_id'', JStr (uuid_str 42)), (''sender_id'', JStr ''s''),
      (''created_at'', JStr ''0001-01-01T00:00:00+14:00'')]))"

section \<open>The mesh\<close>

definition ex_relay :: relay_config where
  "ex_relay = relay_config_from_settings default_settings"

definition ex_read_body :: "bytes \<Rightarrow> packet incoming" where
  "ex_read_body b = (case packet_of_json_bytes reference_pydantic b of Inl e \<Rightarrow> Invalid [] | Inr p \<Rightarrow> Accepted p)"

definition ex_network :: "(rabbit_publisher \<times> amqp_broker) network" where
  "ex_network =
     \<lparr> nw_pydantic = reference_pydantic, nw_crypto = reference_crypto,
       nw_sender_key = ed25519_public reference_crypto [1], nw_read_body = ex_read_body,
       nw_relays = (\<lambda>url. if url = ''http://localhost:8002/relay'' then Some ex_relay else None),
       nw_bridge = ''http://localhost:8003/bridge'', nw_queue = ''meshsettle.settlements'',
       nw_publish = rabbit_publish_at, nw_now = ex_now \<rparr>"

definition ex_publisher :: "rabbit_publisher \<times> amqp_broker" where
  "ex_publisher =
     (\<lparr> rp_url = ''amqp://'', rp_queue = ''meshsettle.settlements'', rp_connection = Some Open, rp_channel = True \<rparr>,
      \<lparr> ab_queues = (\<lambda>_. []), ab_up = True \<rparr>)"

lemma ex_network_simps [simp]:
  "nw_pydantic ex_network = reference_pydantic" "nw_crypto ex_network = reference_crypto"
  "nw_sender_key ex_network = ed25519_public reference_crypto [1]" "nw_publish ex_network = rabbit_publish_at"
  "nw_now ex_network = ex_now" "nw_read_body ex_network = ex_read_body"
  by (simp_all add: ex_network_def)

lemma ex_ring: "ring ex_network 2 16"
proof -
  have "ex_read_body (packet_to_json_bytes reference_pydantic p) = Accepted p" if "wf_packet p" for p
    using packet_wire [OF reference_reads_scalars reference_reads_documents that] by (simp add: ex_read_body_def)
  moreover have "identifier_pattern (mesh_node_id default_settings)"
    by (simp add: default_settings_def ex_identifiers)
  ultimately show ?thesis
    by (simp add: ring_def ex_valid_now)
      (simp add: ex_network_def ex_relay_def relay_config_from_settings_def default_settings_def rstrip_slash_def)
qed

lemma ex_matched: "matched reference_crypto [1] [2] ex_processor"
  using reference_signs_correctly reference_seals_correctly reference_reads_scalars reference_reads_documents
  by (simp add: matched_def)

lemma ex_verifies: "verify reference_crypto ex_packet (ed25519_public reference_crypto [1]) = None"
  by (rule create_verifies [OF ex_created_create reference_signs_correctly])

abbreviation ex_url :: string where "ex_url \<equiv> ''http://localhost:8002/relay''"

lemma ex_nodes [simp]:
  "nw_relays ex_network ex_url = Some ex_relay" "nw_bridge ex_network = ''http://localhost:8003/bridge''"
  "nw_queue ex_network = ''meshsettle.settlements''" "rc_hop_limit ex_relay = 16" "rc_node_id ex_relay = ''relay-1''"
  by (simp_all add: ex_network_def ex_relay_def relay_config_from_settings_def default_settings_def)

lemma ex_destination:
  "next_destination ex_relay n =
     (if 2 \<le> n then (''http://localhost:8003/bridge'', BRIDGED) else (ex_url, RELAYED))"
  by (simp add: next_destination_def ex_relay_def relay_config_from_settings_def default_settings_def rstrip_slash_def)

lemma ex_reads: "wf_packet p \<Longrightarrow> ex_read_body (packet_to_json_bytes reference_pydantic p) = Accepted p"
  using ex_ring by (simp add: ring_def)

text \<open>The bridge takes the packet, and each relay reports what it did.\<close>

lemma ex_bridged:
  assumes "wf_packet p" "verify reference_crypto p (ed25519_public reference_crypto [1]) = None"
  shows "\<exists>r s'. carry ex_network (Suc n) ''http://localhost:8003/bridge'' (packet_to_json_bytes reference_pydantic p) ex_publisher
      = (Answered r, s') \<and> is_success r"
  using assms by (simp add: ex_reads respond_def bridge_endpoint_def serve_def run_bind bridge_def Let_def
      rabbit_publish_at_simp ex_publisher_def is_success_def)

definition ex_report :: "packet \<Rightarrow> relay_response" where
  "ex_report p =
     (let d = next_destination ex_relay (int (hop_count p)) in
      \<lparr> rr_status = snd d, rr_node_id = ''relay-1'', rr_hop_count = int (hop_count p), rr_forwarded_to = fst d,
        rr_packet_id = p_packet_id p \<rparr>)"

definition ex_hop :: hop where "ex_hop = \<lparr> h_node_id = ''relay-1'', h_received_at = ex_now \<rparr>"

lemma ex_hop_wf: "wf_hop ex_hop"
  by (simp add: ex_hop_def wf_hop_def ex_identifiers ex_valid_now)

lemma ex_relayed:
  assumes "wf_packet p" "verify reference_crypto p (ed25519_public reference_crypto [1]) = None" "hop_count p < 16"
    and "carry ex_network n (fst (next_destination ex_relay (int (hop_count p) + 1)))
      (packet_to_json_bytes reference_pydantic (append_hop p ex_hop)) s = (Answered r, s')" "is_success r"
  shows "carry ex_network (Suc n) ex_url (packet_to_json_bytes reference_pydantic p) s =
    (Answered \<lparr> hr_status = 202, hr_content = pd_dump_json reference_pydantic (relay_json (ex_report (append_hop p ex_hop))),
       hr_media_type = Some ''application/json'' \<rparr>, s')"
proof -
  have "int (hop_count p) < rc_hop_limit ex_relay" "identifier_pattern (rc_node_id ex_relay)"
    using assms(3) ex_identifiers by simp_all
  from run_relay [OF assms(2) this ex_valid_now, where pub = rabbit_publish_at and post = "carry ex_network n"
      and pd = reference_pydantic and s = s]
  have "run (node_exec ex_now rabbit_publish_at (carry ex_network n))
      (relay reference_pydantic reference_crypto (ed25519_public reference_crypto [1]) ex_relay p) s
    = (Inr (Inr (ex_report (append_hop p ex_hop))), s')"
    using assms(4,5) by (simp add: send_on_def checked_post_def Let_def ex_report_def ex_hop_def [symmetric] add.commute)
  then show ?thesis
    using assms(1) by (simp add: ex_reads respond_def relay_endpoint_def serve_def run_bind)
qed

lemma ex_handed_off:
  "\<exists>resp s'. run (node_exec ex_now rabbit_publish_at (carry ex_network 4))
      (hand_off reference_pydantic 16 (\<lambda>_. Inl (OtherError ''float'')) ex_url ex_packet) ex_publisher = (Inr (Inr resp), s')"
proof -
  let ?p1 = "append_hop ex_packet ex_hop" and ?p2 = "append_hop (append_hop ex_packet ex_hop) ex_hop"
  have wf: "wf_packet ?p1" "wf_packet ?p2" using ex_packet_wf ex_hop_wf by (simp_all add: wf_append_hop)
  obtain r s' where b: "carry ex_network (Suc 1) ''http://localhost:8003/bridge'' (packet_to_json_bytes reference_pydantic ?p2)
      ex_publisher = (Answered r, s')" "is_success r"
    using ex_bridged [OF wf(2), of 1] ex_verifies by auto
  define r1 where "r1 = \<lparr> hr_status = 202, hr_content = pd_dump_json reference_pydantic (relay_json (ex_report ?p2)),
       hr_media_type = Some ''application/json'' \<rparr>"
  have "carry ex_network (Suc (Suc 1)) ex_url (packet_to_json_bytes reference_pydantic ?p1) ex_publisher = (Answered r1, s')"
    unfolding r1_def by (rule ex_relayed [OF wf(1) _ _ _ b(2)]) (use ex_verifies b(1) in \<open>simp_all add: ex_destination\<close>)
  moreover have "is_success r1" by (simp add: r1_def is_success_def)
  ultimately have c: "carry ex_network (Suc (Suc (Suc 1))) ex_url ex_raw ex_publisher =
    (Answered \<lparr> hr_status = 202, hr_content = pd_dump_json reference_pydantic (relay_json (ex_report ?p1)),
       hr_media_type = Some ''application/json'' \<rparr>, s')"
    unfolding ex_raw_def by (intro ex_relayed [OF ex_packet_wf ex_verifies]) (simp_all add: ex_destination)
  let ?j = "relay_json (ex_report ?p1)"
  have j: "?j = JObj [(''status'', JStr ''relayed''), (''node_id'', JStr ''relay-1''), (''hop_count'', JInt 1),
      (''forwarded_to'', JStr ex_url), (''packet_id'', JStr (uuid_str 42))]"
    by (simp add: relay_json_def ex_report_def ex_destination ex_packet_fields append_hop_def hop_count_def)
  have "small_int 1" unfolding small_int_def by (subst show_nat.simps) simp
  then have "wf_json ?j \<and> plain_json ?j \<and> json_depth ?j \<le> 16"
    unfolding j using is_ascii_uuid_str [of 42] by (simp add: is_ascii_def)
  then have "json_loads 16 (pd_dump_json reference_pydantic ?j) = Inr ?j"
    by (simp add: reference_pydantic_def json_loads_json_text)
  moreover have "pd_dump_json reference_pydantic ?j \<noteq> []"
    by (simp add: reference_pydantic_def utf8_encode_def j)
  ultimately have "reported 16 \<lparr> hr_status = 202, hr_content = pd_dump_json reference_pydantic ?j,
      hr_media_type = Some ''application/json'' \<rparr> = Inr ?j" by (simp add: reported_def)
  then show ?thesis
    using c by (simp add: ex_raw_def hand_off_def checked_post_def handed_over_def is_success_def numeral_eq_Suc
        submitted_response_def j dict_or_def packet_status_of_def int_of_json_def sum_bind_def)
qed

end
