(* ===== verification/Consumer_Life.thy ===== *)
theory Consumer_Life
  imports Consumer Amqp
begin

text \<open>
  The life cycle of \<^verbatim>\<open>SettlementConsumer\<close>: \<^verbatim>\<open>start\<close>, \<^verbatim>\<open>stop\<close>,
  \<^verbatim>\<open>wait_closed\<close> and \<^verbatim>\<open>queue_depth\<close> on an AMQP connection.
\<close>

section \<open>The object\<close>

record live_consumer = consumer +
  lc_connection :: "connection option"
  lc_consumer_tag :: "string option"
  lc_queue :: bool
  lc_stopped :: bool

definition fresh_consumer :: "consumer \<Rightarrow> live_consumer" where
  "fresh_consumer c =
     consumer.extend c \<lparr> lc_connection = None, lc_consumer_tag = None, lc_queue = False, lc_stopped = False \<rparr>"

definition start :: "live_consumer \<Rightarrow> (live_consumer, unit) self_call" where
  "start c =
     awaiting (Connect (c_url c)) c (\<lambda>_.
       let c = c \<lparr> lc_connection := Some Open \<rparr> in
       awaiting (OpenChannel True) c (\<lambda>_.
       awaiting (SetQos (c_prefetch_count c)) c (\<lambda>_.
       awaiting (DeclareQueue (c_queue_name c) True False) c (\<lambda>_.
       let c = c \<lparr> lc_queue := True \<rparr> in
       awaiting (Consume (c_queue_name c)) c (\<lambda>r.
       let c = c \<lparr> lc_consumer_tag := (case r of ConsumerTag t \<Rightarrow> Some t | _ \<Rightarrow> None) \<rparr> in
       awaiting (LogAmqp ''settlement.consumer_started''
                   [(''queue'', c_queue_name c), (''prefetch_count'', show_int (c_prefetch_count c))]) c
         (\<lambda>_. Ret (Inr (), c)))))))"

definition finish_stop :: "live_consumer \<Rightarrow> (live_consumer, unit) self_call" where
  "finish_stop c =
     (let c = c \<lparr> lc_connection := None, lc_queue := False, lc_stopped := True \<rparr> in
      awaiting (LogAmqp ''settlement.consumer_stopped'' [(''queue'', c_queue_name c)]) c (\<lambda>_. Ret (Inr (), c)))"

definition close_connection :: "live_consumer \<Rightarrow> (live_consumer, unit) self_call" where
  "close_connection c =
     (if lc_connection c = Some Open then awaiting CloseConnection c (\<lambda>_. finish_stop c) else finish_stop c)"

definition stop :: "live_consumer \<Rightarrow> (live_consumer, unit) self_call" where
  "stop c =
     (case (lc_queue c, lc_consumer_tag c) of
        (True, Some tag) \<Rightarrow>
          awaiting (CancelConsumer tag) c (\<lambda>_. close_connection (c \<lparr> lc_consumer_tag := None \<rparr>))
      | _ \<Rightarrow> close_connection c)"

text \<open>Whether \<^verbatim>\<open>wait_closed\<close> returns or goes on blocking.\<close>

definition wait_closed :: "live_consumer \<Rightarrow> bool" where
  "wait_closed c = lc_stopped c"

text \<open>
  \<^verbatim>\<open>declared.declaration_result.message_count\<close> under \<^verbatim>\<open>try ... finally\<close>: the
  channel is closed on both ways out, and an error of closing it replaces the other.
\<close>

fun message_count :: "amqp_reply \<Rightarrow> exn + int option" where
  "message_count (MessageCount n) = Inr (Some n)"
| "message_count (AmqpFailed e) = Inl e"
| "message_count _ = Inl (OtherError ''no declaration result'')"

definition queue_depth :: "live_consumer \<Rightarrow> (live_consumer, int option) self_call" where
  "queue_depth c =
     (if lc_connection c \<noteq> Some Open then Ret (Inr None, c)
      else awaiting (OpenChannel True) c (\<lambda>_.
        Do (DeclareQueue (c_queue_name c) True True) (\<lambda>r.
        awaiting CloseChannel c (\<lambda>_. Ret (message_count r, c)))))"

section \<open>What the life cycle keeps\<close>

text \<open>A tag is held only with a queue, and a queue only on a connection.\<close>

definition life_ok :: "live_consumer \<Rightarrow> bool" where
  "life_ok c \<longleftrightarrow> (lc_consumer_tag c \<noteq> None \<longrightarrow> lc_queue c) \<and> (lc_queue c \<longrightarrow> lc_connection c \<noteq> None)"

lemma path_awaiting:
  "path (awaiting cm st f) h res \<longleftrightarrow>
     (\<exists>e. h = [(cm, AmqpFailed e)] \<and> res = Inr (Inl e, st))
     \<or> (\<exists>r h'. h = (cm, r) # h' \<and> (\<forall>e. r \<noteq> AmqpFailed e) \<and> path (f r) h' res)"
  (is "?l \<longleftrightarrow> ?r")
proof
  assume ?l
  then obtain r h' where h: "h = (cm, r) # h'" "path (case r of AmqpFailed e \<Rightarrow> Ret (Inl e, st) | _ \<Rightarrow> f r) h' res"
    by (auto simp: awaiting_def path_Do_iff)
  then show ?r by (cases r) auto
next
  assume ?r
  then show ?l
    unfolding awaiting_def by (elim disjE exE conjE) (simp_all add: path_Do_iff split: amqp_reply.split, auto split: amqp_reply.split)
qed

lemma fresh_life_ok: "life_ok (fresh_consumer c)"
  by (simp add: life_ok_def fresh_consumer_def consumer.extend_def live_consumer.defs)

lemma start_life:
  assumes "path (start c) h (Inr (res, c'))" "life_ok c"
  shows "life_ok c' \<and> (res = Inr () \<longrightarrow> lc_connection c' = Some Open \<and> lc_queue c' \<and> lc_stopped c' = lc_stopped c)"
  using assms unfolding start_def Let_def path_awaiting by (auto simp: life_ok_def)

lemma path_finish_stop:
  assumes "path (finish_stop c) h (Inr (res, c'))"
  shows "lc_connection c' = None \<and> \<not> lc_queue c' \<and> lc_stopped c' \<and> lc_consumer_tag c' = lc_consumer_tag c"
  using assms unfolding finish_stop_def Let_def path_awaiting by auto

lemma path_close_connection:
  assumes "path (close_connection c) h (Inr (res, c'))"
  shows "c' = c \<and> res \<noteq> Inr ()
    \<or> lc_connection c' = None \<and> \<not> lc_queue c' \<and> lc_stopped c' \<and> lc_consumer_tag c' = lc_consumer_tag c"
  using assms unfolding close_connection_def by (auto simp: path_awaiting dest: path_finish_stop split: if_splits)

text \<open>Stopping a consumer that came from \<open>start\<close> leaves nothing open, and wakes the waiters.\<close>

lemma stop_life:
  assumes "path (stop c) h (Inr (Inr (), c'))" "life_ok c"
  shows "lc_connection c' = None \<and> lc_consumer_tag c' = None \<and> \<not> lc_queue c' \<and> wait_closed c'"
proof (cases "lc_queue c \<and> lc_consumer_tag c \<noteq> None")
  case True
  then obtain tag where "lc_queue c" "lc_consumer_tag c = Some tag" by auto
  with assms(1) obtain h' where "path (close_connection (c \<lparr> lc_consumer_tag := None \<rparr>)) h' (Inr (Inr (), c'))"
    by (auto simp: stop_def path_awaiting)
  from path_close_connection [OF this] show ?thesis by (auto simp: wait_closed_def)
next
  case False
  then have "lc_consumer_tag c = None" using assms(2) by (auto simp: life_ok_def)
  moreover from False assms(1) have "path (close_connection c) h (Inr (Inr (), c'))"
    by (auto simp: stop_def split: bool.splits option.splits)
  ultimately show ?thesis using path_close_connection [of c h "Inr ()" c'] by (auto simp: wait_closed_def)
qed

lemma queue_depth_unchanged: "path (queue_depth c) h (Inr (res, c')) \<Longrightarrow> c' = c"
  unfolding queue_depth_def by (auto simp: path_awaiting path_Do_iff split: if_splits)

text \<open>A channel that was opened is closed again, whatever the broker answers.\<close>

lemma queue_depth_closes:
  assumes "path (queue_depth c) h (Inr (res, c'))" "(OpenChannel True, r) \<in> set h" "\<forall>e. r \<noteq> AmqpFailed e"
  shows "\<exists>r'. last h = (CloseChannel, r')"
  using assms unfolding queue_depth_def
  by (auto simp: path_awaiting path_Do_iff split: if_splits)

lemma run_queue_depth:
  assumes "ab_up b" "lc_connection c = Some Open"
  shows "run amqp_perform (queue_depth c) b = (Inr (Inr (Some (int (length (ab_queues b (c_queue_name c))))), c), b)"
  using assms by (simp add: queue_depth_def awaiting_def)

end
