(* ===== verification/Settlement_Api.thy ===== *)
theory Settlement_Api
  imports Consumer_Life Http Tables
begin

text \<open>
  \<^verbatim>\<open>services/settlement/app.py\<close>: the read-only routes over the tables, the metrics, the
  deduplication store and the consumer.  Rendering a view as JSON is pydantic's.
\<close>

section \<open>Commands\<close>

datatype api_cmd =
    OnRedis cmd
  | OnBroker amqp_cmd
  | SelectOne
  | SelectByKey string
  | SelectRecent int
  | SayApi string string event

datatype api_reply =
    RedisReply reply
  | BrokerReply amqp_reply
  | Selected
  | FoundRow "stored_settlement option"
  | FoundRows "stored_settlement list"
  | DbFailed exn

type_synonym 'a api = "(api_cmd, api_reply, 'a) prog"

text \<open>A coroutine over other commands, run inside a route.\<close>

primrec via :: "('c \<Rightarrow> 'd) \<Rightarrow> ('s \<Rightarrow> 'r) \<Rightarrow> ('c, 'r, 'a) prog \<Rightarrow> ('d, 's, 'a) prog" where
  "via f g (Ret x) = Ret x"
| "via f g (Raise e) = Raise e"
| "via f g (Do c k) = Do (f c) (\<lambda>s. via f g (k (g s)))"

fun redis_reply :: "api_reply \<Rightarrow> reply" where
  "redis_reply (RedisReply r) = r"
| "redis_reply (DbFailed e) = Failed e"
| "redis_reply _ = Done"

fun broker_reply :: "api_reply \<Rightarrow> amqp_reply" where
  "broker_reply (BrokerReply r) = r"
| "broker_reply (DbFailed e) = AmqpFailed e"
| "broker_reply _ = Completed"

definition query :: "api_cmd \<Rightarrow> (api_reply \<Rightarrow> 'a api) \<Rightarrow> 'a api" where
  "query c f = Do c (\<lambda>r. case r of DbFailed e \<Rightarrow> Raise e | _ \<Rightarrow> f r)"

section \<open>Views\<close>

record settlement_view =
  sv_id :: int
  sv_idempotency_key :: string
  sv_packet_id :: uuid
  sv_sender_id :: string
  sv_payer_id :: string
  sv_payee_id :: string
  sv_amount_minor :: int
  sv_currency :: string
  sv_packet_created_at :: instant
  sv_settled_at :: instant
  sv_hop_count :: int

text \<open>\<^verbatim>\<open>SettlementView.model_validate(row)\<close> with \<^verbatim>\<open>from_attributes\<close>.\<close>

definition view_of :: "stored_settlement \<Rightarrow> settlement_view" where
  "view_of s =
     \<lparr> sv_id = s_id s, sv_idempotency_key = s_idempotency_key s, sv_packet_id = s_packet_id s,
       sv_sender_id = s_sender_id s, sv_payer_id = s_payer_id s, sv_payee_id = s_payee_id s,
       sv_amount_minor = s_amount_minor s, sv_currency = s_currency s,
       sv_packet_created_at = s_packet_created_at s, sv_settled_at = s_settled_at s,
       sv_hop_count = s_hop_count s \<rparr>"

record metrics_view =
  mv_settled :: int
  mv_rejected :: int
  mv_duplicates :: int
  mv_invalid_signature :: int
  mv_malformed :: int
  mv_decryption_failed :: int
  mv_expired :: int
  mv_not_yet_valid :: int
  mv_internal_errors :: int
  mv_queue_depth :: "int option"

definition metrics_fields :: "string list" where
  "metrics_fields =
     [''settled'', ''rejected'', ''duplicates'', ''invalid_signature'', ''malformed'', ''decryption_failed'',
      ''expired'', ''not_yet_valid'', ''internal_errors'']"

text \<open>\<^verbatim>\<open>MetricsView(**counts, queue_depth=depth)\<close>: a missing or an extra name is refused.\<close>

definition new_metrics_view :: "(string \<times> int) list \<Rightarrow> int option \<Rightarrow> exn + metrics_view" where
  "new_metrics_view counts depth =
     (if list_all (\<lambda>n. n \<in> set (map fst counts)) metrics_fields
         \<and> list_all (\<lambda>n. n \<in> set metrics_fields) (map fst counts) then
        (let f = (\<lambda>n. dict_get counts n 0) in
         Inr \<lparr> mv_settled = f ''settled'', mv_rejected = f ''rejected'', mv_duplicates = f ''duplicates'',
               mv_invalid_signature = f ''invalid_signature'', mv_malformed = f ''malformed'',
               mv_decryption_failed = f ''decryption_failed'', mv_expired = f ''expired'',
               mv_not_yet_valid = f ''not_yet_valid'', mv_internal_errors = f ''internal_errors'',
               mv_queue_depth = depth \<rparr>)
      else Inl (ValidationError []))"

record health_view =
  hv_status :: string
  hv_service :: string
  hv_redis :: bool
  hv_database :: bool
  hv_consuming :: bool

section \<open>Routes\<close>

definition healthz :: "live_consumer option \<Rightarrow> health_view api" where
  "healthz consumer =
     bindP (via OnRedis redis_reply ping) (\<lambda>redis_ok.
     bindP (tryP (query SelectOne (\<lambda>_. Ret True)) (\<lambda>e. Some (Ret False))) (\<lambda>database_ok.
     Ret \<lparr> hv_status = (if redis_ok \<and> database_ok then ''ok'' else ''degraded''), hv_service = ''settlement'',
           hv_redis = redis_ok, hv_database = database_ok, hv_consuming = (consumer \<noteq> None) \<rparr>))"

definition metrics_endpoint :: "metrics \<Rightarrow> live_consumer option \<Rightarrow> metrics_view api" where
  "metrics_endpoint m consumer =
     bindP
       (case consumer of
          None \<Rightarrow> Ret None
        | Some c \<Rightarrow> bindP (via OnBroker broker_reply (queue_depth c)) (\<lambda>res. lift (fst res)))
       (\<lambda>depth. lift (new_metrics_view (snapshot m) depth))"

definition read_settlement :: "string \<Rightarrow> (http_json + settlement_view) api" where
  "read_settlement key =
     query (SelectByKey key) (\<lambda>r. case r of
         FoundRow (Some s) \<Rightarrow> Ret (Inr (view_of s))
       | _ \<Rightarrow> Ret (Inl (error_answer MALFORMED_PAYLOAD ''no settlement for that idempotency key'' 404)))"

definition capped :: "int \<Rightarrow> int" where
  "capped limit = max 1 (min limit 100)"

definition list_settlements :: "int \<Rightarrow> settlement_view list api" where
  "list_settlements limit =
     query (SelectRecent (capped limit)) (\<lambda>r. case r of FoundRows rows \<Rightarrow> Ret (map view_of rows) | _ \<Rightarrow> Ret [])"

text \<open>The rate limiter in front of a route.\<close>

definition limited :: "string option \<Rightarrow> 'a api \<Rightarrow> (http_json + 'a) api" where
  "limited refused route =
     (case refused of
        None \<Rightarrow> bindP route (\<lambda>x. Ret (Inr x))
      | Some limit \<Rightarrow> Do (SayApi ''warning'' ''settlement.rate_limited'' [(''limit'', limit)])
          (\<lambda>_. Ret (Inl (error_answer INTERNAL_ERROR ''rate limit exceeded'' 429))))"

section \<open>Against the tables\<close>

text \<open>Newest first; the order among rows of one instant is the database's choice, here the later row first.\<close>

definition recent :: "int \<Rightarrow> tables \<Rightarrow> stored_settlement list" where
  "recent n t = take (nat n) (rev (sort_key s_settled_at (settlements t)))"

fun api_perform :: "tables \<Rightarrow> api_cmd \<Rightarrow> unit \<Rightarrow> api_reply \<times> unit" where
  "api_perform t (SelectByKey k) u = (FoundRow (get_settlement t k), u)"
| "api_perform t (SelectRecent n) u = (FoundRows (recent n t), u)"
| "api_perform t (OnRedis RedisPing) u = (RedisReply (Truth True), u)"
| "api_perform t c u = (Selected, u)"

lemma run_read_settlement:
  "fst (run (api_perform t) (read_settlement k) u) =
     Inr (case get_settlement t k of
       None \<Rightarrow> Inl (error_answer MALFORMED_PAYLOAD ''no settlement for that idempotency key'' 404)
     | Some s \<Rightarrow> Inr (view_of s))"
  by (cases "get_settlement t k") (simp_all add: read_settlement_def query_def)

lemma run_list_settlements:
  "fst (run (api_perform t) (list_settlements limit) u) = Inr (map view_of (recent (capped limit) t))"
  by (simp add: list_settlements_def query_def)

lemma capped_bounds: "1 \<le> capped n" "capped n \<le> 100"
  by (simp_all add: capped_def)

text \<open>The newest rows, in order, and none left out that is newer than one shown.\<close>

lemma recent_sorted: "sorted_wrt (\<lambda>a b. s_settled_at b \<le> s_settled_at a) (recent n t)"
proof -
  have "sorted_wrt (\<lambda>a b. s_settled_at b \<le> s_settled_at a) (rev (sort_key s_settled_at (settlements t)))"
    using sorted_sort_key [of s_settled_at "settlements t"] by (simp add: sorted_wrt_rev sorted_map)
  then show ?thesis unfolding recent_def by (rule sorted_wrt_take)
qed

lemma recent_newest:
  assumes "s \<in> set (settlements t)" "s \<notin> set (recent n t)" "r \<in> set (recent n t)"
  shows "s_settled_at s \<le> s_settled_at r"
proof -
  define l where "l = rev (sort_key s_settled_at (settlements t))"
  have "sorted_wrt (\<lambda>a b. s_settled_at b \<le> s_settled_at a) (take (nat n) l @ drop (nat n) l)"
    using sorted_sort_key [of s_settled_at "settlements t"] by (simp add: l_def sorted_wrt_rev sorted_map)
  note sorted = this
  have "s \<in> set (take (nat n) l @ drop (nat n) l)" using assms(1) by (simp add: l_def)
  moreover have "s \<notin> set (take (nat n) l)" using assms(2) by (simp add: recent_def l_def)
  ultimately have "s \<in> set (drop (nat n) l)" by (metis Un_iff set_append)
  moreover have "r \<in> set (take (nat n) l)" using assms(3) by (simp add: recent_def l_def)
  ultimately show ?thesis using sorted by (simp only: sorted_wrt_append)
qed

lemma recent_stored: "set (recent n t) \<subseteq> set (settlements t)"
  using set_take_subset by (fastforce simp: recent_def)

section \<open>What the probes report\<close>

lemma path_query:
  "path (query c f) h res \<longleftrightarrow>
     (\<exists>e. h = [(c, DbFailed e)] \<and> res = Inl e) \<or> (\<exists>r h'. h = (c, r) # h' \<and> (\<forall>e. r \<noteq> DbFailed e) \<and> path (f r) h' res)"
  (is "?l \<longleftrightarrow> ?r")
proof
  assume ?l
  then obtain r h' where h: "h = (c, r) # h'" "path (case r of DbFailed e \<Rightarrow> Raise e | _ \<Rightarrow> f r) h' res"
    by (auto simp: query_def path_Do_iff)
  then show ?r by (cases r) auto
next
  assume ?r
  then show ?l
    unfolding query_def by (elim disjE exE conjE) (simp_all add: path_Do_iff split: api_reply.split, auto split: api_reply.split)
qed

lemma path_via: "path (via f g p) h res \<Longrightarrow> \<exists>h'. path p h' res"
proof (induction p arbitrary: h)
  case (Do c k)
  then obtain r h1 where "path (via f g (k (g r))) h1 res" by (auto simp: path_Do_iff)
  with Do.IH [of "k (g r)"] obtain h' where "path (k (g r)) h' res" by blast
  then show ?case by (blast intro: path_Do)
qed auto

lemma ping_returns: "path ping h y \<Longrightarrow> \<exists>x. y = Inr x"
  unfolding ping_def by (auto simp: path_try_all)

text \<open>A probe answers whatever the services do, and says \<^verbatim>\<open>ok\<close> only when both did.\<close>

lemma healthz_answers:
  assumes "path (healthz c) h res"
  shows "\<exists>v. res = Inr v \<and> (hv_status v = ''ok'' \<longleftrightarrow> hv_redis v \<and> hv_database v)
    \<and> (hv_database v \<longrightarrow> (\<exists>r. (SelectOne, r) \<in> set h \<and> (\<forall>e. r \<noteq> DbFailed e)))
    \<and> hv_consuming v = (c \<noteq> None)"
proof -
  have ping: "\<exists>x. y = Inr x" if "path (via OnRedis redis_reply ping) h' y" for h' y
    using path_via [OF that] ping_returns by blast
  from assms [unfolded healthz_def path_bind [of "via _ _ _"]]
  obtain h1 h2 x where h: "h = h1 @ h2" "path (bindP (tryP (query SelectOne (\<lambda>_. Ret True)) (\<lambda>e. Some (Ret False))) (\<lambda>database_ok.
     Ret \<lparr> hv_status = (if x \<and> database_ok then ''ok'' else ''degraded''), hv_service = ''settlement'',
           hv_redis = x, hv_database = database_ok, hv_consuming = (c \<noteq> None) \<rparr>)) h2 res"
    using ping by blast
  then show ?thesis by (auto simp: path_bind path_try path_query)
qed

lemma metrics_view_complete:
  "\<exists>v. new_metrics_view (snapshot m) depth = Inr v \<and> mv_settled v = m_settled m
     \<and> mv_rejected v = rejected_total m \<and> mv_duplicates v = m_duplicates m \<and> mv_queue_depth v = depth"
  by (simp add: new_metrics_view_def snapshot_def metrics_fields_def dict_get_def)

section \<open>The counters\<close>

lemma total_update:
  "sum_list (map snd (AList.update k (dict_get l k 0 + 1) l)) = sum_list (map snd l) + 1"
proof (induction l)
  case (Cons x l)
  then show ?case by (cases x) (auto simp: dict_get_def)
qed (simp add: dict_get_def)

lemma record_outcome_counts:
  "m_settled (record_outcome m out) = m_settled m + (if settled out then 1 else 0)"
  "rejected_total (record_outcome m out) = rejected_total m + (if \<not> settled out \<and> o_code out \<noteq> None then 1 else 0)"
  "m_duplicates (record_outcome m out) = m_duplicates m + (if \<not> settled out \<and> o_code out = Some DUPLICATE_PACKET then 1 else 0)"
  by (auto simp: record_outcome_def rejected_total_def Let_def total_update split: option.split error_code.split)

lemma recorded_metrics:
  "m_settled (foldl record_outcome m outs) = m_settled m + int (length (filter settled outs))
   \<and> rejected_total (foldl record_outcome m outs)
      = rejected_total m + int (length (filter (\<lambda>out. \<not> settled out \<and> o_code out \<noteq> None) outs))
   \<and> m_duplicates (foldl record_outcome m outs)
      = m_duplicates m + int (length (filter (\<lambda>out. \<not> settled out \<and> o_code out = Some DUPLICATE_PACKET) outs))"
  by (induction outs arbitrary: m) (simp_all add: record_outcome_counts)

end
