(* ===== verification/Ui.thy ===== *)
theory Ui
  imports Http Config
begin

text \<open>
  \<^verbatim>\<open>services/ui/app.py\<close>: a proxy of four routes.  What an upstream answered is passed
  through as it is; only a transport error becomes a 502.
\<close>

definition bad_gateway :: "string \<Rightarrow> http_json" where
  "bad_gateway detail = error_answer INTERNAL_ERROR detail 502"

record passed =
  pa_status :: int
  pa_content :: bytes
  pa_media_type :: string

definition passthrough :: "http_response \<Rightarrow> passed" where
  "passthrough r =
     \<lparr> pa_status = hr_status r, pa_content = hr_content r,
       pa_media_type = (case hr_media_type r of None \<Rightarrow> ''application/json'' | Some m \<Rightarrow> m) \<rparr>"

definition upstream_failed :: "string \<Rightarrow> string \<Rightarrow> string \<Rightarrow> (http_json + passed) route" where
  "upstream_failed upstream path_name detail =
     say ''warning'' ''ui.upstream_failed'' [(''upstream'', upstream), (''path'', path_name)]
       (Ret (Inl (bad_gateway detail)))"

definition forward_reply :: "http_response \<Rightarrow> (http_json + passed) route" where
  "forward_reply r = Ret (Inr (passthrough r))"

text \<open>\<^verbatim>\<open>await request.json()\<close> raises on a body that is not JSON.\<close>

definition ui_create_packet :: "settings \<Rightarrow> nat \<Rightarrow> bytes \<Rightarrow> (http_json + passed) route" where
  "ui_create_packet s limit raw =
     (case json_loads limit raw of
        Inl e \<Rightarrow> Raise e
      | Inr body \<Rightarrow>
          proxied (PostJson (rstrip_slash (sender_url s) @ ''/packets'') body)
            (upstream_failed ''sender'' ''/packets'' ''the sender service is unreachable'') forward_reply)"

definition ui_relay_packet :: "settings \<Rightarrow> bytes \<Rightarrow> (http_json + passed) route" where
  "ui_relay_packet s raw =
     proxied (Post (rstrip_slash (mesh_relay_url s) @ ''/relay'') raw)
       (upstream_failed ''mesh_relay'' ''/relay'' ''the mesh relay is unreachable'') forward_reply"

definition ui_read_settlement :: "settings \<Rightarrow> string \<Rightarrow> (http_json + passed) route" where
  "ui_read_settlement s key =
     proxied (Get (rstrip_slash (settlement_url s) @ ''/settlements/'' @ key))
       (upstream_failed ''settlement'' ''/settlements'' ''the settlement service is unreachable'') forward_reply"

definition ui_read_metrics :: "settings \<Rightarrow> (http_json + passed) route" where
  "ui_read_metrics s =
     proxied (Get (rstrip_slash (settlement_url s) @ ''/metrics''))
       (upstream_failed ''settlement'' ''/metrics'' ''the settlement service is unreachable'') forward_reply"

definition ui_rate_limited :: "string option \<Rightarrow> (http_json + passed) route \<Rightarrow> (http_json + passed) route" where
  "ui_rate_limited refused r =
     (case refused of
        None \<Rightarrow> r
      | Some limit \<Rightarrow> say ''warning'' ''ui.rate_limited'' [(''limit'', limit)]
          (Ret (Inl (error_answer INTERNAL_ERROR ''rate limit exceeded'' 429))))"

definition ui_healthz :: json where
  "ui_healthz = JObj [(''status'', JStr ''ok''), (''service'', JStr ''ui'')]"

lemma path_proxied:
  assumes "path (proxied cm failure f) h res"
  shows "(\<exists>r h'. h = (cm, Answered r) # h' \<and> path (f r) h' res)
    \<or> (\<exists>m h'. h = (cm, Broken (HTTPError m)) # h' \<and> path failure h' res)
    \<or> (\<exists>r e. h = [(cm, r)] \<and> res = Inl e)"
proof -
  from assms obtain r h' where h: "h = (cm, r) # h'" "path (case r of
         Answered resp \<Rightarrow> f resp
       | Broken (HTTPError _) \<Rightarrow> failure
       | Broken e \<Rightarrow> Raise e
       | _ \<Rightarrow> Raise (OtherError ''no response'')) h' res"
    unfolding proxied_def path_Do_iff by blast
  show ?thesis
  proof (cases r)
    case (Broken e)
    with h show ?thesis by (cases e) auto
  qed (use h in auto)
qed

text \<open>The browser sees the status and the bytes of the upstream, or a 502 of the proxy.\<close>

lemma proxied_verbatim:
  assumes "path (proxied cm (upstream_failed u p d) forward_reply) h (Inr res)"
  shows "\<exists>r. (cm, r) \<in> set h
    \<and> (case res of
         Inr out \<Rightarrow> (\<exists>a. r = Answered a \<and> pa_status out = hr_status a \<and> pa_content out = hr_content a)
       | Inl err \<Rightarrow> hj_status err = 502 \<and> (\<exists>m. r = Broken (HTTPError m)))"
  using path_proxied [OF assms]
  by (elim disjE exE conjE) (auto simp: forward_reply_def upstream_failed_def passthrough_def bad_gateway_def error_answer_def)

end
