(* ===== verification/Service_Properties.thy ===== *)
theory Service_Properties
  imports Example_Runs Settlement_Api Ui
begin

text \<open>
  Properties of the services around the settlement pipeline: the mesh relay, the bridge, the
  sender, the consumer's life cycle, the settlement API and the proxy.
\<close>

section \<open>The relay and the bridge\<close>

text \<open>C27. A relay forwards nothing it did not verify: what it posts is the packet it received with one
  more, well-formed hop naming this node, posted to the destination that hop count selects, and
  only when the signature verified and the packet was under the hop limit.\<close>

theorem relay_forwards_only_verified:
  assumes "path (relay pd c key cfg p) h res" and "(Post url body, r) \<in> set h"
  shows "\<exists>hp. verify c p key = None \<and> int (hop_count p) < rc_hop_limit cfg
    \<and> h_node_id hp = rc_node_id cfg \<and> wf_hop hp
    \<and> body = packet_to_json_bytes pd (append_hop p hp)
    \<and> url = fst (next_destination cfg (int (hop_count p) + 1))"
  using relay_posts [OF assms] by blast

theorem relay_forwards_only_verified_witness:
  "\<exists>h url. (\<exists>res. path (relay reference_pydantic reference_crypto (ed25519_public reference_crypto [1]) ex_relay ex_packet) h res)
    \<and> (\<exists>body r. (Post url body, r) \<in> set h) \<and> url = ex_url"
proof -
  let ?p = "append_hop ex_packet ex_hop"
  let ?r = "Answered \<lparr> hr_status = 202, hr_content = [], hr_media_type = None \<rparr>"
  have "new_hop reference_pydantic ''relay-1'' (utc_datetime ex_now) = Inr ex_hop"
    by (simp add: new_hop_valid ex_identifiers ex_valid_now ex_hop_def)
  then have "\<exists>l res. path (relay reference_pydantic reference_crypto (ed25519_public reference_crypto [1]) ex_relay ex_packet)
      [(Now, Moment ex_now), (Post ex_url (packet_to_json_bytes reference_pydantic ?p), ?r), (l, Fine)] (Inr res)"
    using ex_verifies by (simp add: relay_def forward_def current_time_def send_on_def checked_post_def Let_def
        path_Do_iff ex_destination is_success_def)
  then obtain l res where h: "path (relay reference_pydantic reference_crypto (ed25519_public reference_crypto [1]) ex_relay ex_packet)
      [(Now, Moment ex_now), (Post ex_url (packet_to_json_bytes reference_pydantic ?p), ?r), (l, Fine)] (Inr res)" by blast
  have posted: "(Post ex_url (packet_to_json_bytes reference_pydantic ?p), ?r) \<in>
      set [(Now, Moment ex_now), (Post ex_url (packet_to_json_bytes reference_pydantic ?p), ?r), (l, Fine)]" by simp
  from relay_forwards_only_verified [OF h posted] h posted show ?thesis by blast
qed



section \<open>The device\<close>

text \<open>The device's answer matches its packet: what the create route returns is a packet it made for a
  valid instruction of the request, under its own sender id, with that packet's key.\<close>

lemma created_response_is_the_packet:
  assumes "path (create_packet pd c sk rk body) h (Inr (Inr resp))"
  shows "\<exists>u. made_from pd c sk rk body u (pc_packet resp)
    \<and> p_sender_id (pc_packet resp) = sender_id_for c sk \<and> wf_packet (pc_packet resp)
    \<and> pc_idempotency_key resp = idempotency_key (pc_packet resp) \<and> pc_status resp = CREATED"
proof -
  obtain u where u: "made_from pd c sk rk body u (pc_packet resp)" "resp = packet_created_of (pc_packet resp)"
    using create_packet_returns [OF assms] by blast
  from u(2) have "pc_idempotency_key resp = idempotency_key (pc_packet resp)" "pc_status resp = CREATED"
    by (metis packet_created_of_def packet_created_response.select_convs(2,3))+
  moreover from u(1) have "p_sender_id (pc_packet resp) = sender_id_for c sk" "wf_packet (pc_packet resp)"
    unfolding made_from_def using create_Inr(3,7) by blast+
  ultimately show ?thesis using u(1) by blast
qed

definition ex_request :: transaction_request where
  "ex_request = \<lparr> t_payer_id = ''alice'', t_payee_id = ''bob'', t_amount_minor = 2500, t_currency = ''INR'' \<rparr>"

lemma ex_request_wf: "wf_request ex_request"
  by (simp add: wf_request_def ex_request_def ex_identifiers max_amount_minor_def currency_pattern_def upper_char_def)

lemma created_response_is_the_packet_witness:
  "\<exists>h resp. path (create_packet reference_pydantic reference_crypto [1] (rsa_public reference_crypto [2]) ex_request) h
      (Inr (Inr resp))
    \<and> p_sender_id (pc_packet resp) = sender_id_for reference_crypto [1]"
proof -
  obtain h p where h: "path (create_packet reference_pydantic reference_crypto [1] (rsa_public reference_crypto [2]) ex_request) h
      (Inr (Inr (packet_created_of p)))"
    using create_packet_answers [OF ex_request_wf ex_valid_now ex_valid_now ex_fresh_ok reference_signs_correctly
        reference_seals_correctly] by blast
  from created_response_is_the_packet [OF h] show ?thesis using h by blast
qed

text \<open>C35. A valid request is answered: with a working clock, id source and entropy the create route returns
  a packet whatever the request's values, after exactly one log line.\<close>

theorem valid_request_is_answered:
  assumes "validate_request pd j = Inr body" and "valid_instant t" and "valid_instant t'" and "fresh_ok fr"
    and "signs_correctly c" and "seals_correctly c"
  shows "\<exists>p l. path (create_packet pd c sk (rsa_public c rk) body)
      [(NewId, Id u), (Now, Moment t), (Now, Moment t'), (NewKeys, Keys fr), (l, Fine)]
      (Inr (Inr (packet_created_of p))) \<and> p_packet_id p = u \<and> p_created_at p = t'"
proof -
  obtain p l where p: "path (create_packet pd c sk (rsa_public c rk) body)
      [(NewId, Id u), (Now, Moment t), (Now, Moment t'), (NewKeys, Keys fr), (l, Fine)] (Inr (Inr (packet_created_of p)))"
    "create pd c fr (instruction_for u body t) (sender_id_for c sk) sk (rsa_public c rk) (utc_datetime t') = Inr p"
    using create_packet_answers [OF validate_request_wf [OF assms(1)] assms(2-6)] by blast
  moreover from create_Inr(1,2) [OF p(2)] assms(3) have "p_packet_id p = u" "p_created_at p = t'"
    by (simp_all add: instruction_for_def)
  ultimately show ?thesis by blast
qed

definition ex_body :: json where
  "ex_body = JObj [(''payer_id'', JStr ''alice''), (''payee_id'', JStr ''bob''), (''amount_minor'', JInt 2500)]"

theorem valid_request_is_answered_witness:
  "\<exists>body p l. validate_request reference_pydantic ex_body = Inr body
    \<and> path (create_packet reference_pydantic reference_crypto [1] (rsa_public reference_crypto [2]) body)
      [(NewId, Id 5), (Now, Moment ex_now), (Now, Moment ex_now), (NewKeys, Keys ex_fresh), (l, Fine)]
      (Inr (Inr (packet_created_of p))) \<and> p_packet_id p = 5"
proof -
  have "validate_request reference_pydantic ex_body = Inr ex_request"
    by (simp add: validate_request_def ex_body_def ex_request_def get_field_def get_default_def read_pattern_def
        check_pattern_def ex_identifiers sum_bind_def at_loc_def payee_differs_from_payer_def read_amount_def
        check_amount_def reference_pydantic_def require_def max_amount_minor_def build_model_def extra_errors_def
        request_fields_def)
  from valid_request_is_answered [OF this ex_valid_now ex_valid_now ex_fresh_ok reference_signs_correctly
      reference_seals_correctly, of "[1]" "[2]" 5] this show ?thesis by blast
qed

text \<open>C34. What leaves the device is a packet it signed, and what it is told is what happened.  Every post of
  the submit route is its only one and carries a packet made from the request to the configured entry
  point.  Whatever the route then does agrees with the fate of that post: a success answer names the
  packet's key and id and is read from the report of a neighbour that accepted it; an error answer is a 502,
  and the post was refused with a status other than 2xx or failed with an \<^verbatim>\<open>httpx.HTTPError\<close>; and the
  route raises (a 500) exactly in the remaining cases, a neighbour that accepted the packet but whose report
  cannot be read, or a client failure the route does not catch.\<close>

theorem device_posts_its_own_packet:
  assumes "path (submit_packet pd c limit trunc sk rk dest body) h res" and "(Post url raw, r) \<in> set h"
  shows "\<exists>u p. made_from pd c sk rk body u p \<and> url = dest \<and> raw = packet_to_json_bytes pd p
    \<and> posts h = [(Post url raw, r)]
    \<and> (case res of
         Inr (Inr resp) \<Rightarrow> ps_idempotency_key resp = idempotency_key p \<and> ps_packet_id resp = u \<and> ps_submitted_to resp = dest
           \<and> (\<exists>a j. r = Answered a \<and> is_success a \<and> reported limit a = Inr j \<and> submitted_response trunc dest p j = Inr resp)
       | Inr (Inl e) \<Rightarrow> se_http_status e = 502
           \<and> ((\<exists>m. r = Broken (HTTPError m)) \<or> (\<exists>a. r = Answered a \<and> \<not> is_success a))
       | Inl e \<Rightarrow> (\<exists>a. r = Answered a \<and> is_success a
              \<and> (reported limit a = Inl e \<or> (\<exists>j. reported limit a = Inr j \<and> submitted_response trunc dest p j = Inl e)))
           \<or> ((\<forall>m. r \<noteq> Broken (HTTPError m)) \<and> (\<forall>a. r \<noteq> Answered a)))"
proof -
  from submit_posts [OF assms] obtain u p where p: "made_from pd c sk rk body u p" "p_packet_id p = u" "url = dest"
    "raw = packet_to_json_bytes pd p" "posts h = [(Post url raw, r)]" "told limit trunc dest p r res" by blast
  have names: "ps_idempotency_key resp = idempotency_key p" "ps_packet_id resp = u" "ps_submitted_to resp = dest"
    if "submitted_response trunc dest p j = Inr resp" for j resp
    using submitted_response_names [OF that] p(2) by simp_all
  show ?thesis
    using p(1,3-6) names unfolding told_def unusable_report_def
    by (intro exI [of _ u] exI [of _ p]) (auto split: sum.splits)
qed

theorem device_posts_its_own_packet_witness:
  "\<exists>h raw. (\<exists>e. path (submit_packet reference_pydantic reference_crypto 16 (\<lambda>_. Inr 0) [1] (rsa_public reference_crypto [2])
        ex_url ex_request) h (Inr (Inl e)) \<and> se_http_status e = 502)
    \<and> (Post ex_url raw, Broken (HTTPError ''ConnectError'')) \<in> set h"
proof -
  let ?p = "create reference_pydantic reference_crypto ex_fresh (instruction_for 5 ex_request ex_now)
    (sender_id_for reference_crypto [1]) [1] (rsa_public reference_crypto [2]) (utc_datetime ex_now)"
  obtain p where p: "?p = Inr p"
    using create_succeeds [OF reference_signs_correctly reference_seals_correctly ex_fresh_ok sender_id_identifier
        normalize_utc_datetime [OF ex_valid_now]] by blast
  have "\<exists>l e. path (submit_packet reference_pydantic reference_crypto 16 (\<lambda>_. Inr 0) [1] (rsa_public reference_crypto [2])
        ex_url ex_request)
      [(NewId, Id 5), (Now, Moment ex_now), (Now, Moment ex_now), (NewKeys, Keys ex_fresh),
       (Post ex_url (packet_to_json_bytes reference_pydantic p), Broken (HTTPError ''ConnectError'')), (l, Fine)] (Inr (Inl e))"
    by (simp add: submit_packet_def instruct_def fresh_id_def current_time_def seal_def fresh_keys_def path_Do_iff
        to_instruction_wf [OF ex_request_wf ex_valid_now] p hand_off_def checked_post_def handoff_failed_def)
  then obtain l e where h: "path (submit_packet reference_pydantic reference_crypto 16 (\<lambda>_. Inr 0) [1] (rsa_public reference_crypto [2])
        ex_url ex_request)
      [(NewId, Id 5), (Now, Moment ex_now), (Now, Moment ex_now), (NewKeys, Keys ex_fresh),
       (Post ex_url (packet_to_json_bytes reference_pydantic p), Broken (HTTPError ''ConnectError'')), (l, Fine)] (Inr (Inl e))"
    (is "path _ ?h _") by blast
  have "(Post ex_url (packet_to_json_bytes reference_pydantic p), Broken (HTTPError ''ConnectError'')) \<in> set ?h" by simp
  from device_posts_its_own_packet [OF h this] h show ?thesis by (intro exI [of _ ?h]) auto
qed



text \<open>C28. Forwarding ends, whatever the topology: relays may lead to one another in a circle, but a packet
  that has made \<open>h\<close> of at most \<open>L\<close> hops causes at most \<open>L - h + 1\<close> nested
  calls; more levels of calls change neither the answer nor the state.\<close>

theorem forwarding_ends:
  assumes "\<And>p. wf_packet p \<Longrightarrow> nw_read_body nw (packet_to_json_bytes (nw_pydantic nw) p) = Accepted p"
    and "\<And>url cfg. nw_relays nw url = Some cfg \<Longrightarrow> rc_hop_limit cfg \<le> int L"
    and "wf_packet p" and "L - hop_count p + 1 \<le> n"
  shows "carry nw (n + k) url (packet_to_json_bytes (nw_pydantic nw) p) s
    = carry nw n url (packet_to_json_bytes (nw_pydantic nw) p) s"
proof -
  have "L < hop_count p + n" "0 < n" using assms(4) by linarith+
  then show ?thesis by - (rule carry_ends [where L = L]; (assumption | erule assms(1,2) | rule assms(3)))
qed

theorem forwarding_ends_witness:
  "carry ex_network 100 ex_url (packet_to_json_bytes reference_pydantic ex_packet) ex_publisher
   = carry ex_network 17 ex_url (packet_to_json_bytes reference_pydantic ex_packet) ex_publisher"
proof -
  have "nw_read_body ex_network (packet_to_json_bytes (nw_pydantic ex_network) p) = Accepted p" if "wf_packet p" for p
    using ex_ring that by (simp add: ring_def)
  moreover have "rc_hop_limit cfg \<le> int 16" if "nw_relays ex_network url = Some cfg" for url cfg
    using ex_ring that unfolding ring_def by auto
  ultimately show ?thesis
    using forwarding_ends [of ex_network 16 ex_packet 17 83 ex_url ex_publisher] ex_packet_wf by simp
qed

section \<open>Consumer, API and proxy\<close>

text \<open>C40. The list of settlements is bounded and newest first: for any limit a caller sends it shows at
  most a hundred rows, all of them stored, in descending order of settlement time, and it leaves
  out no row newer than one it shows.\<close>

theorem listing_is_bounded_and_newest_first:
  "\<exists>rows. fst (run (api_perform t) (list_settlements limit) u) = Inr (map view_of rows)
    \<and> length rows \<le> 100 \<and> (settlements t \<noteq> [] \<longrightarrow> rows \<noteq> []) \<and> set rows \<subseteq> set (settlements t)
    \<and> sorted_wrt (\<lambda>a b. s_settled_at b \<le> s_settled_at a) rows
    \<and> (\<forall>s \<in> set (settlements t). \<forall>r \<in> set rows. s \<notin> set rows \<longrightarrow> s_settled_at s \<le> s_settled_at r)"
proof -
  have len: "length (recent (capped limit) t) = min (length (settlements t)) (nat (capped limit))"
    by (simp add: recent_def)
  then have "length (recent (capped limit) t) \<le> 100" using capped_bounds(2) [of limit] by linarith
  moreover have "settlements t \<noteq> [] \<longrightarrow> recent (capped limit) t \<noteq> []"
  proof
    assume "settlements t \<noteq> []"
    then have "0 < length (recent (capped limit) t)" unfolding len using capped_bounds(1) [of limit] by simp
    then show "recent (capped limit) t \<noteq> []" by simp
  qed
  ultimately show ?thesis
    using run_list_settlements recent_stored recent_sorted recent_newest by blast
qed

theorem listing_is_bounded_and_newest_first_witness:
  "\<exists>rows. fst (run (api_perform empty_tables) (list_settlements 5000) ()) = Inr (map view_of rows) \<and> length rows \<le> 100"
  using listing_is_bounded_and_newest_first [of empty_tables 5000 "()"] by blast

text \<open>A health probe always answers: whatever Redis, the database and the consumer do it returns a
  view, and reports \<^verbatim>\<open>ok\<close> only when both dependencies answered.\<close>

lemma health_probe_always_answers:
  assumes "path (healthz c) h res"
  shows "\<exists>v. res = Inr v \<and> (hv_status v = ''ok'' \<longleftrightarrow> hv_redis v \<and> hv_database v)
    \<and> (hv_database v \<longrightarrow> (\<exists>r. (SelectOne, r) \<in> set h \<and> (\<forall>e. r \<noteq> DbFailed e)))
    \<and> hv_consuming v = (c \<noteq> None)"
  by (rule healthz_answers [OF assms])

lemma health_probe_always_answers_witness:
  "\<exists>v. path (healthz None) [(OnRedis RedisPing, RedisReply (Failed (RedisError ''down''))), (SelectOne, DbFailed (DatabaseError ''down''))] (Inr v)
    \<and> hv_status v \<noteq> ''ok''"
proof -
  obtain v where v: "path (healthz None) [(OnRedis RedisPing, RedisReply (Failed (RedisError ''down''))),
      (SelectOne, DbFailed (DatabaseError ''down''))] (Inr v)"
    by (force simp: healthz_def ping_def call_def query_def path_Do_iff)
  from health_probe_always_answers [OF this] v show ?thesis by auto
qed

end
