(* ===== verification/Schema.thy ===== *)
theory Schema
  imports Tables Config
begin

text \<open>
  The schema of \<^verbatim>\<open>services/settlement/db.py\<close> as data, the Alembic revision that
  creates it (\<^verbatim>\<open>migrations/versions/9fe74eee6261_\<dots>.py\<close>) as a list of operations
  on a catalog, \<^verbatim>\<open>migrations/env.py\<close>, and what a table with such columns and
  constraints accepts.  The insert of \<open>Services\<close> is proved to be the insert into the
  migrated table.
\<close>

section \<open>Declarations\<close>

datatype sql_type = BigInteger | Integer | String nat | Uuid | Timestamptz

record column =
  cl_name :: string
  cl_type :: sql_type
  cl_nullable :: bool
  cl_autoincrement :: bool
  cl_server_default :: "string option"

datatype table_constraint =
    PrimaryKeyConstraint "string list"
  | UniqueConstraint string string
  | CheckConstraint string string

record table_index =
  ix_name :: string
  ix_column :: string
  ix_unique :: bool

record table_def =
  tb_columns :: "column list"
  tb_constraints :: "table_constraint list"
  tb_indexes :: "table_index list"

text \<open>
  A mapped column: \<^verbatim>\<open>mapped_column(type, primary_key=\<dots>, nullable=\<dots>, \<dots>)\<close>.  A
  primary key column is not nullable.  The client-side \<^verbatim>\<open>default=0\<close> of
  \<^verbatim>\<open>hop_count\<close> is no part of the table and never applies: every row the processor
  builds sets the field.
\<close>

record mapped_column = column +
  mc_primary_key :: bool

definition plain_column :: "string \<Rightarrow> sql_type \<Rightarrow> bool \<Rightarrow> mapped_column" where
  "plain_column name ty nullable =
     \<lparr> cl_name = name, cl_type = ty, cl_nullable = nullable, cl_autoincrement = False,
       cl_server_default = None, mc_primary_key = False \<rparr>"

definition id_column :: mapped_column where
  "id_column =
     \<lparr> cl_name = ''id'', cl_type = BigInteger, cl_nullable = False, cl_autoincrement = True,
       cl_server_default = None, mc_primary_key = True \<rparr>"

definition now_column :: "string \<Rightarrow> mapped_column" where
  "now_column name = (plain_column name Timestamptz False) \<lparr> cl_server_default := Some ''now()'' \<rparr>"

text \<open>A declarative class: the primary key of its columns, then \<^verbatim>\<open>__table_args__\<close>.\<close>

definition declarative :: "mapped_column list \<Rightarrow> table_constraint list \<Rightarrow> (string \<times> string) list \<Rightarrow> table_def" where
  "declarative columns constraints indexes =
     \<lparr> tb_columns = map column.truncate columns,
       tb_constraints = PrimaryKeyConstraint (map cl_name (filter mc_primary_key columns)) # constraints,
       tb_indexes = map (\<lambda>(n, c). \<lparr> ix_name = n, ix_column = c, ix_unique = False \<rparr>) indexes \<rparr>"

definition settlements_model :: table_def where
  "settlements_model = declarative
     [id_column,
      plain_column ''idempotency_key'' (String 80) False,
      plain_column ''packet_id'' Uuid False,
      plain_column ''sender_id'' (String 64) False,
      plain_column ''payer_id'' (String 64) False,
      plain_column ''payee_id'' (String 64) False,
      plain_column ''amount_minor'' BigInteger False,
      plain_column ''currency'' (String 3) False,
      plain_column ''packet_created_at'' Timestamptz False,
      now_column ''settled_at'',
      plain_column ''hop_count'' Integer False]
     [UniqueConstraint ''idempotency_key'' ''uq_settlements_idempotency_key'',
      UniqueConstraint ''packet_id'' ''uq_settlements_packet_id'',
      CheckConstraint ''amount_minor > 0'' ''ck_settlements_amount_positive'',
      CheckConstraint ''hop_count >= 0'' ''ck_settlements_hop_count_non_negative'']
     [(''ix_settlements_settled_at'', ''settled_at''), (''ix_settlements_payer_id'', ''payer_id'')]"

definition rejected_packets_model :: table_def where
  "rejected_packets_model = declarative
     [id_column,
      plain_column ''idempotency_key'' (String 80) True,
      plain_column ''packet_id'' Uuid True,
      plain_column ''reason'' (String 32) False,
      plain_column ''detail'' (String 256) False,
      now_column ''rejected_at'']
     []
     [(''ix_rejected_packets_reason'', ''reason''), (''ix_rejected_packets_rejected_at'', ''rejected_at'')]"

text \<open>\<^verbatim>\<open>Base.metadata\<close>.\<close>

definition metadata :: "(string \<times> table_def) list" where
  "metadata = [(''settlements'', settlements_model), (''rejected_packets'', rejected_packets_model)]"

section \<open>The catalog and the operations of a migration\<close>

type_synonym catalog = "(string \<times> table_def) list"

datatype ddl =
    CreateTable string "column list" "table_constraint list"
  | CreateIndex string string string bool
  | DropIndex string string
  | DropTable string

definition refused :: "string \<Rightarrow> exn" where
  "refused what = DatabaseError (what @ '' cannot be created or dropped'')"

text \<open>
  Tables, indexes and the indexes behind primary keys and unique constraints share one name space
  of the database; PostgreSQL refuses to create a name that is there and to drop one that is not.
  An index is dropped by its name alone, and goes with its table.
\<close>

fun backing_index :: "string \<Rightarrow> table_constraint \<Rightarrow> string list" where
  "backing_index table (PrimaryKeyConstraint cols) = [table @ ''_pkey'']"
| "backing_index table (UniqueConstraint col name) = [name]"
| "backing_index table (CheckConstraint sql name) = []"

definition relation_names :: "string \<times> table_def \<Rightarrow> string list" where
  "relation_names nt =
     fst nt # concat (map (backing_index (fst nt)) (tb_constraints (snd nt))) @ map ix_name (tb_indexes (snd nt))"

definition taken :: "catalog \<Rightarrow> string set" where
  "taken c = set (concat (map relation_names c))"

definition index_names :: "catalog \<Rightarrow> string set" where
  "index_names c = set (concat (map (\<lambda>(n, t). map ix_name (tb_indexes t)) c))"

definition add_index :: "string \<Rightarrow> table_index \<Rightarrow> catalog \<Rightarrow> catalog" where
  "add_index table ix c =
     map (\<lambda>(n, t). (n, if n = table then t \<lparr> tb_indexes := tb_indexes t @ [ix] \<rparr> else t)) c"

definition remove_index :: "string \<Rightarrow> catalog \<Rightarrow> catalog" where
  "remove_index ix c = map (\<lambda>(n, t). (n, t \<lparr> tb_indexes := filter (\<lambda>i. ix_name i \<noteq> ix) (tb_indexes t) \<rparr>)) c"

fun ddl_step :: "ddl \<Rightarrow> catalog \<Rightarrow> exn + catalog" where
  "ddl_step (CreateTable name cols cons) c =
     (let t = \<lparr> tb_columns = cols, tb_constraints = cons, tb_indexes = [] \<rparr> in
      if \<exists>r \<in> set (relation_names (name, t)). r \<in> taken c then Inl (refused name) else Inr (c @ [(name, t)]))"
| "ddl_step (CreateIndex ix name col uniq) c =
     (case map_of c name of
        None \<Rightarrow> Inl (refused ix)
      | Some t \<Rightarrow>
          if ix \<in> taken c \<or> col \<notin> cl_name ` set (tb_columns t) then Inl (refused ix)
          else Inr (add_index name \<lparr> ix_name = ix, ix_column = col, ix_unique = uniq \<rparr> c))"
| "ddl_step (DropIndex ix name) c = (if ix \<in> index_names c then Inr (remove_index ix c) else Inl (refused ix))"
| "ddl_step (DropTable name) c =
     (if name \<in> fst ` set c then Inr (filter (\<lambda>nt. fst nt \<noteq> name) c) else Inl (refused name))"

fun ddl_run :: "ddl list \<Rightarrow> catalog \<Rightarrow> exn + catalog" where
  "ddl_run [] c = Inr c"
| "ddl_run (d # ds) c = sum_bind (ddl_step d c) (ddl_run ds)"

lemma ddl_run_append: "ddl_run (ds @ es) c = sum_bind (ddl_run ds c) (ddl_run es)"
  by (induction ds arbitrary: c) (auto simp: sum_bind_def split: sum.split)

section \<open>The revision\<close>

definition sa_column :: "string \<Rightarrow> sql_type \<Rightarrow> bool \<Rightarrow> column" where
  "sa_column name ty nullable =
     \<lparr> cl_name = name, cl_type = ty, cl_nullable = nullable, cl_autoincrement = False, cl_server_default = None \<rparr>"

definition upgrade :: "ddl list" where
  "upgrade =
     [CreateTable ''rejected_packets''
        [(sa_column ''id'' BigInteger False) \<lparr> cl_autoincrement := True \<rparr>,
         sa_column ''idempotency_key'' (String 80) True,
         sa_column ''packet_id'' Uuid True,
         sa_column ''reason'' (String 32) False,
         sa_column ''detail'' (String 256) False,
         (sa_column ''rejected_at'' Timestamptz False) \<lparr> cl_server_default := Some ''now()'' \<rparr>]
        [PrimaryKeyConstraint [''id'']],
      CreateIndex ''ix_rejected_packets_reason'' ''rejected_packets'' ''reason'' False,
      CreateIndex ''ix_rejected_packets_rejected_at'' ''rejected_packets'' ''rejected_at'' False,
      CreateTable ''settlements''
        [(sa_column ''id'' BigInteger False) \<lparr> cl_autoincrement := True \<rparr>,
         sa_column ''idempotency_key'' (String 80) False,
         sa_column ''packet_id'' Uuid False,
         sa_column ''sender_id'' (String 64) False,
         sa_column ''payer_id'' (String 64) False,
         sa_column ''payee_id'' (String 64) False,
         sa_column ''amount_minor'' BigInteger False,
         sa_column ''currency'' (String 3) False,
         sa_column ''packet_created_at'' Timestamptz False,
         (sa_column ''settled_at'' Timestamptz False) \<lparr> cl_server_default := Some ''now()'' \<rparr>,
         sa_column ''hop_count'' Integer False]
        [CheckConstraint ''amount_minor > 0'' ''ck_settlements_amount_positive'',
         CheckConstraint ''hop_count >= 0'' ''ck_settlements_hop_count_non_negative'',
         PrimaryKeyConstraint [''id''],
         UniqueConstraint ''idempotency_key'' ''uq_settlements_idempotency_key'',
         UniqueConstraint ''packet_id'' ''uq_settlements_packet_id''],
      CreateIndex ''ix_settlements_payer_id'' ''settlements'' ''payer_id'' False,
      CreateIndex ''ix_settlements_settled_at'' ''settlements'' ''settled_at'' False]"

definition downgrade :: "ddl list" where
  "downgrade =
     [DropIndex ''ix_settlements_settled_at'' ''settlements'',
      DropIndex ''ix_settlements_payer_id'' ''settlements'',
      DropTable ''settlements'',
      DropIndex ''ix_rejected_packets_rejected_at'' ''rejected_packets'',
      DropIndex ''ix_rejected_packets_reason'' ''rejected_packets'',
      DropTable ''rejected_packets'']"

text \<open>
  \<^verbatim>\<open>migrations/env.py\<close>: the steps Alembic chose run in one transaction against the
  synchronous connection string, or are printed for review.
\<close>

datatype migration_output = Applied string | Emitted string "ddl list"

definition run_migrations_online :: "settings \<Rightarrow> ddl list \<Rightarrow> catalog \<Rightarrow> (exn + migration_output) \<times> catalog" where
  "run_migrations_online s steps c =
     (case ddl_run steps c of
        Inl e \<Rightarrow> (Inl e, c)
      | Inr c' \<Rightarrow> (Inr (Applied (postgres_sync_dsn s)), c'))"

definition run_migrations_offline :: "settings \<Rightarrow> ddl list \<Rightarrow> catalog \<Rightarrow> (exn + migration_output) \<times> catalog" where
  "run_migrations_offline s steps c = (Inr (Emitted (postgres_sync_dsn s) steps), c)"

definition run_migrations :: "bool \<Rightarrow> settings \<Rightarrow> ddl list \<Rightarrow> catalog \<Rightarrow> (exn + migration_output) \<times> catalog" where
  "run_migrations offline s steps c =
     (if offline then run_migrations_offline s steps c else run_migrations_online s steps c)"

text \<open>\<^verbatim>\<open>create_all\<close> creates the declared tables that are missing, \<^verbatim>\<open>drop_all\<close> drops those that are there.\<close>

definition create_all :: "catalog \<Rightarrow> catalog" where
  "create_all c = c @ filter (\<lambda>nt. fst nt \<notin> fst ` set c) metadata"

definition drop_all :: "catalog \<Rightarrow> catalog" where
  "drop_all c = filter (\<lambda>nt. fst nt \<notin> fst ` set metadata) c"

section \<open>The revision builds the declared schema\<close>

text \<open>The same table, whatever the order its constraints and indexes were written in.\<close>

definition same_table :: "table_def \<Rightarrow> table_def \<Rightarrow> bool" where
  "same_table a b \<longleftrightarrow>
     tb_columns a = tb_columns b \<and> set (tb_constraints a) = set (tb_constraints b)
     \<and> set (tb_indexes a) = set (tb_indexes b)"

lemma taken_simps [simp]: "taken [] = {}" "taken (c @ d) = taken c \<union> taken d"
  by (simp_all add: taken_def)

lemma index_names_taken: "index_names c \<subseteq> taken c"
  by (auto simp: index_names_def taken_def relation_names_def)

lemma tables_taken: "fst ` set c \<subseteq> taken c"
  by (auto simp: taken_def relation_names_def)

lemma add_index_append [simp]: "add_index n ix (c @ d) = add_index n ix c @ add_index n ix d"
  by (simp add: add_index_def)

lemma add_index_other: "n \<notin> taken c \<Longrightarrow> add_index n ix c = c"
  using tables_taken [of c] by (force simp: add_index_def intro: map_idI)

lemma remove_index_append [simp]: "remove_index ix (c @ d) = remove_index ix c @ remove_index ix d"
  by (simp add: remove_index_def)

lemma remove_index_other: "ix \<notin> taken c \<Longrightarrow> remove_index ix c = c"
proof -
  assume "ix \<notin> taken c"
  then have "filter (\<lambda>i. ix_name i \<noteq> ix) (tb_indexes t) = tb_indexes t" if "(n, t) \<in> set c" for n t
    using that by (force simp: taken_def relation_names_def intro: filter_True)
  then show ?thesis unfolding remove_index_def by (intro map_idI) auto
qed

lemma map_of_not_taken: "n \<notin> taken c \<Longrightarrow> map_of c n = None"
  using tables_taken [of c] by (auto simp: map_of_eq_None_iff)

lemma filter_other_tables: "n \<notin> taken c \<Longrightarrow> filter (\<lambda>nt. fst nt \<noteq> n) c = c"
  using tables_taken [of c] by (auto intro: filter_True)

text \<open>The names an operation depends on; beside other relations it does what it does alone.\<close>

fun ddl_names :: "ddl \<Rightarrow> string list" where
  "ddl_names (CreateTable name cols cons) =
     relation_names (name, \<lparr> tb_columns = cols, tb_constraints = cons, tb_indexes = [] \<rparr>)"
| "ddl_names (CreateIndex ix name col uniq) = [ix, name]"
| "ddl_names (DropIndex ix name) = [ix]"
| "ddl_names (DropTable name) = [name]"

definition beside :: "catalog \<Rightarrow> exn + catalog \<Rightarrow> exn + catalog" where
  "beside c r = sum_bind r (\<lambda>x. Inr (c @ x))"

lemma ddl_step_frame:
  assumes "set (ddl_names d) \<inter> taken c = {}"
  shows "ddl_step d (c @ x) = beside c (ddl_step d x)"
proof (cases d)
  case (CreateTable name cols cons)
  with assms show ?thesis by (auto simp: beside_def Let_def)
next
  case (CreateIndex ix name col uniq)
  with assms have "name \<notin> taken c" "ix \<notin> taken c" by auto
  with CreateIndex show ?thesis
    by (auto simp: beside_def map_add_def map_of_not_taken add_index_other split: option.split)
next
  case (DropIndex ix name)
  with assms have "ix \<notin> taken c" by simp
  moreover from this have "ix \<notin> index_names c" using index_names_taken by blast
  moreover have "index_names (c @ x) = index_names c \<union> index_names x" by (simp add: index_names_def)
  ultimately show ?thesis using DropIndex by (auto simp: beside_def remove_index_other)
next
  case (DropTable name)
  with assms have "name \<notin> taken c" by simp
  moreover from this have "name \<notin> fst ` set c" using tables_taken by blast
  ultimately show ?thesis using DropTable filter_other_tables [of name c] by (auto simp: beside_def image_Un)
qed

lemma ddl_run_frame:
  assumes "\<forall>d \<in> set ds. set (ddl_names d) \<inter> taken c = {}"
  shows "ddl_run ds (c @ x) = beside c (ddl_run ds x)"
  using assms
proof (induction ds arbitrary: x)
  case (Cons d ds)
  then have step: "ddl_step d (c @ x) = beside c (ddl_step d x)" by (simp add: ddl_step_frame)
  show ?case
  proof (cases "ddl_step d x")
    case (Inr y)
    then show ?thesis using Cons step by (simp add: beside_def)
  qed (use step in \<open>simp add: beside_def\<close>)
qed (simp add: beside_def)

text \<open>What the revision leaves on an empty database, and the names it needs on any other.\<close>

definition revision_tables :: catalog where
  "revision_tables = (case ddl_run upgrade [] of Inl e \<Rightarrow> [] | Inr c \<Rightarrow> c)"

definition revision_free :: "catalog \<Rightarrow> bool" where
  "revision_free c \<longleftrightarrow> (\<forall>d \<in> set (upgrade @ downgrade). set (ddl_names d) \<inter> taken c = {})"

lemma upgrade_empty: "ddl_run upgrade [] = Inr revision_tables"
proof -
  have "(case ddl_run upgrade [] of Inl e \<Rightarrow> False | Inr c \<Rightarrow> True)" by code_simp
  then show ?thesis by (auto simp: revision_tables_def split: sum.splits)
qed

lemma downgrade_empty: "ddl_run downgrade revision_tables = Inr []"
  by code_simp

lemma revision_same:
  "\<exists>t. map_of revision_tables ''settlements'' = Some t \<and> same_table t settlements_model"
  "\<exists>t. map_of revision_tables ''rejected_packets'' = Some t \<and> same_table t rejected_packets_model"
proof -
  have "case map_of revision_tables ''settlements'' of None \<Rightarrow> False | Some t \<Rightarrow> same_table t settlements_model" by code_simp
  then show "\<exists>t. map_of revision_tables ''settlements'' = Some t \<and> same_table t settlements_model" by (simp split: option.splits)
  have "case map_of revision_tables ''rejected_packets'' of None \<Rightarrow> False | Some t \<Rightarrow> same_table t rejected_packets_model" by code_simp
  then show "\<exists>t. map_of revision_tables ''rejected_packets'' = Some t \<and> same_table t rejected_packets_model" by (simp split: option.splits)
qed

lemma revision_table_names: "map fst revision_tables = [''rejected_packets'', ''settlements'']"
  by code_simp

lemma upgrade_beside: "revision_free c \<Longrightarrow> ddl_run upgrade c = Inr (c @ revision_tables)"
  using ddl_run_frame [of upgrade c "[]"] by (simp add: revision_free_def upgrade_empty beside_def)

lemma downgrade_beside: "revision_free c \<Longrightarrow> ddl_run downgrade (c @ revision_tables) = Inr c"
  using ddl_run_frame [of downgrade c revision_tables] by (simp add: revision_free_def downgrade_empty beside_def)

section \<open>What a declared table accepts\<close>

datatype sql_value = Null | IntValue int | TextValue string | UuidValue uuid | TimeValue instant

type_synonym cells = "(string \<times> sql_value) list"

definition cell :: "cells \<Rightarrow> string \<Rightarrow> sql_value" where
  "cell r c = (case map_of r c of None \<Rightarrow> Null | Some v \<Rightarrow> v)"

fun in_range :: "sql_type \<Rightarrow> sql_value \<Rightarrow> bool" where
  "in_range ty Null = True"
| "in_range BigInteger (IntValue i) = (- (2 ^ 63) \<le> i \<and> i < 2 ^ 63)"
| "in_range Integer (IntValue i) = (- (2 ^ 31) \<le> i \<and> i < 2 ^ 31)"
| "in_range (String n) (TextValue s) = fits n s"
| "in_range Uuid (UuidValue u) = True"
| "in_range Timestamptz (TimeValue t) = True"
| "in_range ty v = False"

fun split_spaces :: "string \<Rightarrow> string \<Rightarrow> string list" where
  "split_spaces word [] = [word]"
| "split_spaces word (c # cs) =
     (if c = CHR '' '' then word # split_spaces [] cs else split_spaces (word @ [c]) cs)"

text \<open>A check is an SQL comparison of a column with a number; on a null it is unknown, which passes.\<close>

definition check_verdict :: "string \<Rightarrow> cells \<Rightarrow> bool option" where
  "check_verdict sql r =
     (case split_spaces [] sql of
        [column, operator, number] \<Rightarrow>
          (case (cell r column, read_digits 0 number) of
             (IntValue i, Some n) \<Rightarrow>
               (if operator = ''>'' then Some (int n < i) else if operator = ''>='' then Some (int n \<le> i) else None)
           | _ \<Rightarrow> None)
      | _ \<Rightarrow> None)"

definition same_value :: "cells \<Rightarrow> cells \<Rightarrow> string \<Rightarrow> bool" where
  "same_value r s c \<longleftrightarrow> cell r c \<noteq> Null \<and> cell s c = cell r c"

fun violates :: "cells list \<Rightarrow> cells \<Rightarrow> table_constraint \<Rightarrow> bool" where
  "violates rows r (PrimaryKeyConstraint cols) = (\<exists>s \<in> set rows. \<forall>c \<in> set cols. same_value r s c)"
| "violates rows r (UniqueConstraint col name) = (\<exists>s \<in> set rows. same_value r s col)"
| "violates rows r (CheckConstraint sql name) = (check_verdict sql r = Some False)"

definition integrity_violated :: "table_def \<Rightarrow> cells list \<Rightarrow> cells \<Rightarrow> bool" where
  "integrity_violated t rows r \<longleftrightarrow>
     (\<exists>col \<in> set (tb_columns t). \<not> cl_nullable col \<and> cell r (cl_name col) = Null)
     \<or> (\<exists>k \<in> set (tb_constraints t). violates rows r k)
     \<or> (\<exists>ix \<in> set (tb_indexes t). ix_unique ix \<and> (\<exists>s \<in> set rows. same_value r s (ix_column ix)))"

text \<open>Columns the statement leaves out get the sequence's number, the server's default or null.\<close>

definition default_cell :: "int \<Rightarrow> instant \<Rightarrow> column \<Rightarrow> sql_value" where
  "default_cell n now col =
     (if cl_autoincrement col then IntValue n
      else if cl_server_default col = Some ''now()'' then TimeValue now else Null)"

definition complete_cells :: "table_def \<Rightarrow> int \<Rightarrow> instant \<Rightarrow> cells \<Rightarrow> cells" where
  "complete_cells t n now r =
     map (\<lambda>col. (cl_name col, case map_of r (cl_name col) of None \<Rightarrow> default_cell n now col | Some v \<Rightarrow> v)) (tb_columns t)"

definition sql_insert :: "table_def \<Rightarrow> int \<Rightarrow> instant \<Rightarrow> cells \<Rightarrow> cells list \<Rightarrow> exn + cells list" where
  "sql_insert t n now r rows =
     (let full = complete_cells t n now r in
      if \<exists>col \<in> set (tb_columns t). \<not> in_range (cl_type col) (cell full (cl_name col))
      then Inl (DatabaseError ''value out of range for its column'')
      else if integrity_violated t rows full then Inl IntegrityError
      else Inr (rows @ [full]))"

lemma sql_insert_same:
  assumes "same_table a b"
  shows "sql_insert a n now r rows = sql_insert b n now r rows"
proof -
  have "complete_cells a n now r = complete_cells b n now r" using assms by (simp add: complete_cells_def same_table_def)
  moreover have "integrity_violated a rows x = integrity_violated b rows x" for x
    using assms by (simp add: integrity_violated_def same_table_def)
  moreover have "tb_columns a = tb_columns b" using assms by (simp add: same_table_def)
  ultimately show ?thesis by (simp add: sql_insert_def Let_def)
qed

section \<open>The rows of the program\<close>

text \<open>The statement of \<^verbatim>\<open>session.add(Settlement(\<dots>))\<close> names every column but two.\<close>

definition settlement_cells :: "settlement_row \<Rightarrow> cells" where
  "settlement_cells r =
     [(''idempotency_key'', TextValue (s_idempotency_key r)), (''packet_id'', UuidValue (s_packet_id r)),
      (''sender_id'', TextValue (s_sender_id r)), (''payer_id'', TextValue (s_payer_id r)),
      (''payee_id'', TextValue (s_payee_id r)), (''amount_minor'', IntValue (s_amount_minor r)),
      (''currency'', TextValue (s_currency r)), (''packet_created_at'', TimeValue (s_packet_created_at r)),
      (''hop_count'', IntValue (s_hop_count r))]"

definition stored_cells :: "stored_settlement \<Rightarrow> cells" where
  "stored_cells s = complete_cells settlements_model (s_id s) (s_settled_at s) (settlement_cells (settlement_row.truncate s))"

definition rejection_cells :: "rejection_row \<Rightarrow> cells" where
  "rejection_cells r =
     [(''idempotency_key'', case r_idempotency_key r of None \<Rightarrow> Null | Some k \<Rightarrow> TextValue k),
      (''packet_id'', case r_packet_id r of None \<Rightarrow> Null | Some u \<Rightarrow> UuidValue u),
      (''reason'', TextValue (r_reason r)), (''detail'', TextValue (r_detail r))]"

lemmas schema_defs =
  settlements_model_def rejected_packets_model_def declarative_def id_column_def plain_column_def now_column_def
  column.defs mapped_column.defs

lemma settlement_complete:
  "complete_cells settlements_model n now (settlement_cells r) =
     [(''id'', IntValue n), (''idempotency_key'', TextValue (s_idempotency_key r)),
      (''packet_id'', UuidValue (s_packet_id r)), (''sender_id'', TextValue (s_sender_id r)),
      (''payer_id'', TextValue (s_payer_id r)), (''payee_id'', TextValue (s_payee_id r)),
      (''amount_minor'', IntValue (s_amount_minor r)), (''currency'', TextValue (s_currency r)),
      (''packet_created_at'', TimeValue (s_packet_created_at r)), (''settled_at'', TimeValue now),
      (''hop_count'', IntValue (s_hop_count r))]"
  by (simp add: complete_cells_def settlement_cells_def default_cell_def schema_defs)

lemma rejection_complete:
  "complete_cells rejected_packets_model n now (rejection_cells r) =
     [(''id'', IntValue n),
      (''idempotency_key'', case r_idempotency_key r of None \<Rightarrow> Null | Some k \<Rightarrow> TextValue k),
      (''packet_id'', case r_packet_id r of None \<Rightarrow> Null | Some u \<Rightarrow> UuidValue u),
      (''reason'', TextValue (r_reason r)), (''detail'', TextValue (r_detail r)), (''rejected_at'', TimeValue now)]"
  by (simp add: complete_cells_def rejection_cells_def default_cell_def schema_defs)

lemma check_amount: "check_verdict ''amount_minor > 0'' r =
    (case cell r ''amount_minor'' of IntValue i \<Rightarrow> Some (0 < i) | _ \<Rightarrow> None)"
  by (simp add: check_verdict_def digit_value_def split: sql_value.split)

lemma check_hop_count: "check_verdict ''hop_count >= 0'' r =
    (case cell r ''hop_count'' of IntValue i \<Rightarrow> Some (0 \<le> i) | _ \<Rightarrow> None)"
  by (simp add: check_verdict_def digit_value_def split: sql_value.split)

lemma settlement_ranges:
  "(\<exists>col \<in> set (tb_columns settlements_model).
      \<not> in_range (cl_type col) (cell (complete_cells settlements_model n now (settlement_cells r)) (cl_name col)))
   \<longleftrightarrow> \<not> settlement_storable r \<or> n < - (2 ^ 63) \<or> 2 ^ 63 \<le> n"
  unfolding settlement_complete by (auto simp: schema_defs cell_def settlement_storable_def)

lemma settlement_integrity:
  "integrity_violated settlements_model (map stored_cells ss) (complete_cells settlements_model n now (settlement_cells r))
   \<longleftrightarrow> \<not> settlement_checks r
     \<or> (\<exists>s \<in> set ss. s_idempotency_key s = s_idempotency_key r \<or> s_packet_id s = s_packet_id r \<or> s_id s = n)"
  unfolding integrity_violated_def stored_cells_def settlement_complete
  by (auto simp: schema_defs cell_def same_value_def check_amount check_hop_count settlement_checks_def
      settlement_row.defs)

text \<open>The insert of \<open>Services\<close> is the insert into a table with the declared columns and constraints.\<close>

lemma sql_insert_settlement:
  assumes "same_table t settlements_model" "tables_ok tb" "- (2 ^ 63) \<le> next_id tb" "next_id tb < 2 ^ 63"
  shows "sql_insert t (next_id tb) now (settlement_cells r) (map stored_cells (settlements tb)) =
    (case insert_settlement r now tb of (Inl e, tb') \<Rightarrow> Inl e | (Inr n, tb') \<Rightarrow> Inr (map stored_cells (settlements tb')))"
proof -
  have ids: "s_id s \<noteq> next_id tb" if "s \<in> set (settlements tb)" for s
    using assms(2) that by (auto simp: tables_ok_def list_all_iff)
  have "integrity_violated settlements_model (map stored_cells (settlements tb))
      (complete_cells settlements_model (next_id tb) now (settlement_cells r))
    \<longleftrightarrow> \<not> settlement_checks r \<or> settlement_conflicts r tb"
    using ids by (auto simp: settlement_integrity settlement_conflicts_def)
  then show ?thesis
    using assms(3,4) unfolding sql_insert_same [OF assms(1)] unfolding sql_insert_def Let_def settlement_ranges
    by (simp add: insert_settlement_def Let_def stored_cells_def)
qed

lemma sql_insert_rejection:
  assumes "same_table t rejected_packets_model" "- (2 ^ 63) \<le> n" "n < 2 ^ 63" "\<forall>s \<in> set rows. cell s ''id'' \<noteq> IntValue n"
  shows "sql_insert t n (r_rejected_at r) (rejection_cells r) rows =
    (if rejection_storable r then Inr (rows @ [complete_cells rejected_packets_model n (r_rejected_at r) (rejection_cells r)])
     else Inl (DatabaseError ''value out of range for its column''))"
proof -
  let ?full = "complete_cells rejected_packets_model n (r_rejected_at r) (rejection_cells r)"
  have "(\<exists>col \<in> set (tb_columns rejected_packets_model). \<not> in_range (cl_type col) (cell ?full (cl_name col)))
    \<longleftrightarrow> \<not> rejection_storable r"
    using assms(2,3) unfolding rejection_complete
    by (auto simp: schema_defs cell_def rejection_storable_def split: option.splits)
  moreover have "\<not> integrity_violated rejected_packets_model rows ?full"
    using assms(4) unfolding integrity_violated_def rejection_complete
    by (auto simp: schema_defs cell_def same_value_def)
  ultimately show ?thesis unfolding sql_insert_same [OF assms(1)] unfolding sql_insert_def Let_def by simp
qed

end
