(* ===== verification/Startup.thy ===== *)
theory Startup
  imports Bridge Settlement_Api
begin

text \<open>
  How the five applications come up and go down: the \<^verbatim>\<open>lifespan\<close> of each
  \<^verbatim>\<open>app.py\<close>, the clients they construct, the attributes of
  \<^verbatim>\<open>app.state\<close> they set and the dependencies that read them.  A history of a
  lifespan determines what it holds open; the lemmas say when nothing is left.
\<close>

section \<open>Commands\<close>

text \<open>\<^verbatim>\<open>create_async_engine\<close> and \<^verbatim>\<open>aioredis.from_url\<close> with their arguments.\<close>

record engine_options =
  eo_dsn :: string
  eo_echo :: bool
  eo_pool_pre_ping :: bool

record redis_options =
  ro_url :: string
  ro_decode_responses :: bool
  ro_health_check_interval :: int

datatype boot_cmd =
    ConfigureLogging string
  | OpenHttpClient rat
  | CloseHttpClient
  | CreateEngine engine_options
  | DisposeEngine
  | CreateRedisClient redis_options
  | CloseRedisClient
  | BootAmqp amqp_cmd
  | Assign string
  | Serve
  | BootLog string event

text \<open>\<open>Served lost\<close>: serving ended, and the AMQP connection was or was not lost meanwhile.\<close>

datatype boot_reply =
    BootDone
  | AmqpReply amqp_reply
  | Served bool
  | BootFailed exn

type_synonym lifespan = "(boot_cmd, boot_reply, unit) prog"

fun failure :: "boot_reply \<Rightarrow> exn option" where
  "failure (BootFailed e) = Some e"
| "failure (AmqpReply (AmqpFailed e)) = Some e"
| "failure r = None"

definition boot :: "boot_cmd \<Rightarrow> lifespan \<Rightarrow> lifespan" where
  "boot c p = Do c (\<lambda>r. case failure r of Some e \<Rightarrow> Raise e | None \<Rightarrow> p)"

definition announce :: "string \<Rightarrow> event \<Rightarrow> lifespan \<Rightarrow> lifespan" where
  "announce name ev p = Do (BootLog name ev) (\<lambda>_. p)"

definition assign :: "string \<Rightarrow> lifespan \<Rightarrow> lifespan" where
  "assign name p = Do (Assign name) (\<lambda>_. p)"

text \<open>\<^verbatim>\<open>try: yield finally: \<dots>\<close>; the shutdown code also runs when an exception is thrown in.\<close>

definition serving :: "(bool \<Rightarrow> lifespan) \<Rightarrow> lifespan" where
  "serving shutdown =
     Do Serve (\<lambda>r. case failure r of
         Some e \<Rightarrow> bindP (shutdown False) (\<lambda>_. Raise e)
       | None \<Rightarrow> shutdown (r = Served True))"

text \<open>A method of an object on an AMQP connection, awaited inside a lifespan.\<close>

fun amqp_answer :: "boot_reply \<Rightarrow> amqp_reply" where
  "amqp_answer (AmqpReply r) = r"
| "amqp_answer (BootFailed e) = AmqpFailed e"
| "amqp_answer _ = Completed"

definition on_amqp :: "('s, unit) self_call \<Rightarrow> ('s \<Rightarrow> lifespan) \<Rightarrow> lifespan" where
  "on_amqp p f =
     bindP (via BootAmqp amqp_answer p) (\<lambda>(res, st). case res of Inl e \<Rightarrow> Raise e | Inr _ \<Rightarrow> f st)"

section \<open>The clients\<close>

definition create_engine :: "settings \<Rightarrow> string option \<Rightarrow> bool \<Rightarrow> engine_options" where
  "create_engine s dsn echo = \<lparr> eo_dsn = or_text dsn (postgres_dsn s), eo_echo = echo, eo_pool_pre_ping = True \<rparr>"

definition create_redis_client :: "settings \<Rightarrow> string option \<Rightarrow> redis_options" where
  "create_redis_client s url =
     \<lparr> ro_url = or_text url (redis_url s), ro_decode_responses = False, ro_health_check_interval = 30 \<rparr>"

section \<open>The lifespans\<close>

definition relay_lifespan :: "settings \<Rightarrow> lifespan" where
  "relay_lifespan s =
     boot (ConfigureLogging ''mesh_relay'')
    (boot (OpenHttpClient (mesh_forward_timeout_seconds s))
    (assign ''http_client''
    (announce ''mesh_relay.startup''
       [(''node_id'', mesh_node_id s), (''hop_count_target'', show_int (mesh_hop_count s)),
        (''hop_limit'', show_int (mesh_hop_limit s))]
    (serving (\<lambda>_. boot CloseHttpClient (announce ''mesh_relay.shutdown'' [] (Ret ())))))))"

definition sender_lifespan :: "settings \<Rightarrow> lifespan" where
  "sender_lifespan s =
     boot (ConfigureLogging ''sender'')
    (boot (OpenHttpClient (mesh_forward_timeout_seconds s))
    (assign ''http_client''
    (announce ''sender.startup''
       [(''rate_limit_per_minute'', show_int (rate_limit_per_minute s)),
        (''mesh_entrypoint'', rstrip_slash (mesh_relay_url s) @ ''/relay'')]
    (serving (\<lambda>_. boot CloseHttpClient (announce ''sender.shutdown'' [] (Ret ())))))))"

definition ui_lifespan :: "settings \<Rightarrow> lifespan" where
  "ui_lifespan s =
     boot (ConfigureLogging ''ui'')
    (boot (OpenHttpClient 15)
    (assign ''http_client''
    (announce ''ui.startup'' [(''sender_url'', sender_url s), (''settlement_url'', settlement_url s)]
    (serving (\<lambda>_. boot CloseHttpClient (announce ''ui.shutdown'' [] (Ret ())))))))"

text \<open>What losing the connection does to the object that holds it.\<close>

definition publisher_after :: "bool \<Rightarrow> rabbit_publisher \<Rightarrow> rabbit_publisher" where
  "publisher_after lost p = (if lost then p \<lparr> rp_connection := map_option (\<lambda>_. Closed) (rp_connection p) \<rparr> else p)"

definition consumer_after :: "bool \<Rightarrow> live_consumer \<Rightarrow> live_consumer" where
  "consumer_after lost c = (if lost then c \<lparr> lc_connection := map_option (\<lambda>_. Closed) (lc_connection c) \<rparr> else c)"

definition bridge_lifespan :: "settings \<Rightarrow> lifespan" where
  "bridge_lifespan s =
     boot (ConfigureLogging ''bridge'')
    (on_amqp (publisher_connect (new_rabbit_publisher s None None)) (\<lambda>publisher.
     assign ''publisher''
    (announce ''bridge.startup'' [(''queue'', rp_queue publisher)]
    (serving (\<lambda>lost.
       on_amqp (publisher_close (publisher_after lost publisher)) (\<lambda>_.
       announce ''bridge.shutdown'' [] (Ret ())))))))"

definition settlement_attributes :: "string list" where
  "settlement_attributes =
     [''engine'', ''session_factory'', ''redis_client'', ''dedupe'', ''metrics'', ''processor'', ''consumer'']"

definition settlement_lifespan :: "crypto \<Rightarrow> settings \<Rightarrow> key_cache \<Rightarrow> lifespan" where
  "settlement_lifespan c s kc =
     boot (ConfigureLogging ''settlement'')
    (boot (CreateEngine (create_engine s None False))
    (boot (CreateRedisClient (create_redis_client s None))
    (case fst (sender_signing_public_key c s kc) of Inl e \<Rightarrow> Raise e | Inr sender_key \<Rightarrow>
    (case fst (settlement_rsa_private_key c s kc) of Inl e \<Rightarrow> Raise e | Inr private_key \<Rightarrow>
     on_amqp (start (fresh_consumer (new_consumer s None None None False))) (\<lambda>consumer.
     foldr assign settlement_attributes
    (announce ''settlement.startup'' [(''queue'', c_queue_name consumer)]
    (serving (\<lambda>lost.
       on_amqp (stop (consumer_after lost consumer)) (\<lambda>_.
       boot CloseRedisClient
      (boot DisposeEngine
      (announce ''settlement.shutdown'' [] (Ret ()))))))))))))"

text \<open>The processor the lifespan wires together from the configuration and the two keys.\<close>

definition wired_processor :: "pydantic \<Rightarrow> crypto \<Rightarrow> nat \<Rightarrow> settings \<Rightarrow> bytes \<Rightarrow> bytes \<Rightarrow> processor" where
  "wired_processor pd c depth s sender_key private_key =
     new_processor pd c depth s (new_dedupe_store None None s) sender_key private_key None None"

section \<open>Dependencies\<close>

text \<open>
  \<^verbatim>\<open>app.state\<close> as the attributes it has.  An overridden dependency reads its
  attribute; one that is not runs the function of the module, which refuses.
\<close>

definition attribute :: "(string \<Rightarrow> 'v option) \<Rightarrow> string \<Rightarrow> exn + 'v" where
  "attribute attrs name = (case attrs name of None \<Rightarrow> Inl (OtherError ''AttributeError'') | Some v \<Rightarrow> Inr v)"

definition not_configured :: "string \<Rightarrow> exn + 'v" where
  "not_configured what = Inl (RuntimeError (what @ '' dependency was not configured''))"

definition http_client :: "bool \<Rightarrow> (string \<Rightarrow> 'v option) \<Rightarrow> exn + 'v" where
  "http_client overridden attrs = (if overridden then attribute attrs ''http_client'' else not_configured ''HTTP client'')"

definition publisher_of :: "bool \<Rightarrow> (string \<Rightarrow> 'v option) \<Rightarrow> exn + 'v" where
  "publisher_of overridden attrs = (if overridden then attribute attrs ''publisher'' else not_configured ''publisher'')"

datatype settlement_dependency = SessionFactory | DedupeStore | Metrics | RunningConsumer

fun settlement_default :: "settlement_dependency \<Rightarrow> exn + 'v option" where
  "settlement_default SessionFactory = not_configured ''session factory''"
| "settlement_default DedupeStore = not_configured ''dedupe store''"
| "settlement_default Metrics = not_configured ''metrics''"
| "settlement_default RunningConsumer = Inr None"

fun settlement_override :: "settlement_dependency \<Rightarrow> (string \<Rightarrow> 'v option) \<Rightarrow> exn + 'v option" where
  "settlement_override SessionFactory attrs = map_sum id Some (attribute attrs ''session_factory'')"
| "settlement_override DedupeStore attrs = map_sum id Some (attribute attrs ''dedupe'')"
| "settlement_override Metrics attrs = map_sum id Some (attribute attrs ''metrics'')"
| "settlement_override RunningConsumer attrs = Inr (attrs ''consumer'')"

text \<open>\<^verbatim>\<open>app.state\<close> after a history: the attributes it assigned.\<close>

definition app_state_after :: "(boot_cmd \<times> boot_reply) list \<Rightarrow> string \<Rightarrow> unit option" where
  "app_state_after h name = (if Assign name \<in> fst ` set h then Some () else None)"

section \<open>What a history holds open\<close>

datatype resource = HttpClient | Engine | RedisClient | AmqpConnection

definition boot_failed :: "boot_reply \<Rightarrow> bool" where
  "boot_failed r \<longleftrightarrow> failure r \<noteq> None"

definition hold :: "resource set \<Rightarrow> boot_cmd \<times> boot_reply \<Rightarrow> resource set" where
  "hold R = (\<lambda>(c, r).
     if boot_failed r then R else
       case c of
         OpenHttpClient t \<Rightarrow> insert HttpClient R
       | CloseHttpClient \<Rightarrow> R - {HttpClient}
       | CreateEngine opts \<Rightarrow> insert Engine R
       | DisposeEngine \<Rightarrow> R - {Engine}
       | CreateRedisClient opts \<Rightarrow> insert RedisClient R
       | CloseRedisClient \<Rightarrow> R - {RedisClient}
       | BootAmqp a \<Rightarrow>
           (case a of Connect url \<Rightarrow> insert AmqpConnection R | CloseConnection \<Rightarrow> R - {AmqpConnection} | _ \<Rightarrow> R)
       | Serve \<Rightarrow> if r = Served True then R - {AmqpConnection} else R
       | _ \<Rightarrow> R)"

definition held :: "(boot_cmd \<times> boot_reply) list \<Rightarrow> resource set" where
  "held h = foldl hold {} h"

definition served :: "(boot_cmd \<times> boot_reply) list \<Rightarrow> bool" where
  "served h \<longleftrightarrow> Serve \<in> fst ` set h"

text \<open>The part of a history before serving, and whether all after it went well.\<close>

definition preparation :: "(boot_cmd \<times> boot_reply) list \<Rightarrow> (boot_cmd \<times> boot_reply) list" where
  "preparation h = takeWhile (\<lambda>x. fst x \<noteq> Serve) h"

definition shutdown_ok :: "(boot_cmd \<times> boot_reply) list \<Rightarrow> bool" where
  "shutdown_ok h \<longleftrightarrow> list_all (\<lambda>x. \<not> boot_failed (snd x)) (drop 1 (dropWhile (\<lambda>x. fst x \<noteq> Serve) h))"

section \<open>Paths of the building blocks\<close>

named_theorems boot_paths

lemma path_boot [boot_paths]:
  "path (boot c p) h res \<longleftrightarrow>
     (\<exists>r e. h = [(c, r)] \<and> failure r = Some e \<and> res = Inl e)
     \<or> (\<exists>r h'. h = (c, r) # h' \<and> \<not> boot_failed r \<and> path p h' res)"
proof -
  have "path (boot c p) h res \<longleftrightarrow>
      (\<exists>r h'. h = (c, r) # h' \<and> path (case failure r of Some e \<Rightarrow> Raise e | None \<Rightarrow> p) h' res)"
    by (auto simp: boot_def path_Do_iff)
  moreover have "path (case failure r of Some e \<Rightarrow> Raise e | None \<Rightarrow> p) h' res \<longleftrightarrow>
      (\<exists>e. h' = [] \<and> failure r = Some e \<and> res = Inl e) \<or> \<not> boot_failed r \<and> path p h' res" for r h'
    by (cases "failure r") (auto simp: boot_failed_def)
  ultimately show ?thesis by blast
qed

lemma path_announce [boot_paths]: "path (announce n ev p) h res \<longleftrightarrow> (\<exists>r h'. h = (BootLog n ev, r) # h' \<and> path p h' res)"
  by (auto simp: announce_def path_Do_iff)

lemma path_assign [boot_paths]: "path (assign n p) h res \<longleftrightarrow> (\<exists>r h'. h = (Assign n, r) # h' \<and> path p h' res)"
  by (auto simp: assign_def path_Do_iff)

lemma path_serving:
  assumes "path (serving f) h res"
  shows "\<exists>r h' lost res'. h = (Serve, r) # h' \<and> path (f lost) h' res' \<and> (lost \<longleftrightarrow> r = Served True)"
proof -
  from assms obtain r h' where h: "h = (Serve, r) # h'" "path (case failure r of
         Some e \<Rightarrow> bindP (f False) (\<lambda>_. Raise e)
       | None \<Rightarrow> f (r = Served True)) h' res" unfolding serving_def path_Do_iff by blast
  show ?thesis
  proof (cases "failure r")
    case (Some e)
    then have "r \<noteq> Served True" by auto
    moreover from h Some obtain res' where "path (f False) h' res'" by (auto simp: path_bind)
    ultimately show ?thesis using h by blast
  qed (use h in auto)
qed

lemma on_amqp_Ret [simp]: "on_amqp (Ret (Inr u, st)) f = f st"
  by (simp add: on_amqp_def)

lemma path_on_amqp [boot_paths]:
  "path (on_amqp (awaiting cm st k) f) h res \<longleftrightarrow>
     (\<exists>r e. h = [(BootAmqp cm, r)] \<and> failure r = Some e \<and> res = Inl e)
     \<or> (\<exists>r h'. h = (BootAmqp cm, r) # h' \<and> \<not> boot_failed r \<and> path (on_amqp (k (amqp_answer r)) f) h' res)"
  (is "?l \<longleftrightarrow> ?r")
proof -
  have "path (on_amqp (awaiting cm st k) f) h res \<longleftrightarrow>
      (\<exists>r h'. h = (BootAmqp cm, r) # h' \<and>
        path (bindP (via BootAmqp amqp_answer (case amqp_answer r of AmqpFailed e \<Rightarrow> Ret (Inl e, st) | _ \<Rightarrow> k (amqp_answer r)))
          (\<lambda>(res, st). case res of Inl e \<Rightarrow> Raise e | Inr _ \<Rightarrow> f st)) h' res)"
    by (simp add: on_amqp_def awaiting_def path_Do_iff)
  also have "\<dots> \<longleftrightarrow> ?r"
  proof -
    have "path (bindP (via BootAmqp amqp_answer (case amqp_answer r of AmqpFailed e \<Rightarrow> Ret (Inl e, st) | _ \<Rightarrow> k (amqp_answer r)))
          (\<lambda>(res, st). case res of Inl e \<Rightarrow> Raise e | Inr _ \<Rightarrow> f st)) h' res \<longleftrightarrow>
        (\<exists>e. h' = [] \<and> failure r = Some e \<and> res = Inl e)
        \<or> \<not> boot_failed r \<and> path (on_amqp (k (amqp_answer r)) f) h' res" for r h'
      by (cases r rule: amqp_answer.cases) (auto simp: on_amqp_def boot_failed_def split: amqp_reply.split)
    then show ?thesis by auto
  qed
  finally show ?thesis .
qed

section \<open>Coming up and going down\<close>

lemma served_simps [simp]: "\<not> served []" "served ((c, r) # h) \<longleftrightarrow> c = Serve \<or> served h"
  by (auto simp: served_def)

lemma failed_Some [simp]: "failure r = Some e \<Longrightarrow> boot_failed r"
  by (simp add: boot_failed_def)

lemma hold_failed [simp]: "boot_failed r \<Longrightarrow> hold R (c, r) = R"
  by (simp add: hold_def)

lemma hold_simps [simp]:
  "hold R (ConfigureLogging n, r) = R" "hold R (Assign n, r) = R" "hold R (BootLog n ev, r) = R"
  "hold R (BootAmqp (OpenChannel b), r) = R" "hold R (BootAmqp (SetQos q), r) = R"
  "hold R (BootAmqp (DeclareQueue n d a), r) = R" "hold R (BootAmqp (Consume n), r) = R"
  "hold R (BootAmqp (CancelConsumer t), r) = R" "hold R (BootAmqp (LogAmqp n ev), r) = R"
  by (simp_all add: hold_def)

lemma hold_done [simp]:
  assumes "\<not> boot_failed r"
  shows "hold R (OpenHttpClient t, r) = insert HttpClient R" "hold R (CloseHttpClient, r) = R - {HttpClient}"
    "hold R (CreateEngine o1, r) = insert Engine R" "hold R (DisposeEngine, r) = R - {Engine}"
    "hold R (CreateRedisClient o2, r) = insert RedisClient R" "hold R (CloseRedisClient, r) = R - {RedisClient}"
    "hold R (BootAmqp (Connect url), r) = insert AmqpConnection R"
    "hold R (BootAmqp CloseConnection, r) = R - {AmqpConnection}"
  using assms by (simp_all add: hold_def)

lemma hold_serve: "hold R (Serve, r) = (if r = Served True then R - {AmqpConnection} else R)"
  by (cases r) (auto simp: hold_def boot_failed_def)

lemma shutdown_simps [simp]:
  "c \<noteq> Serve \<Longrightarrow> shutdown_ok ((c, r) # h) = shutdown_ok h"
  "shutdown_ok ((Serve, r) # h) = list_all (\<lambda>x. \<not> boot_failed (snd x)) h"
  by (simp_all add: shutdown_ok_def)

lemma preparation_simps [simp]:
  "c \<noteq> Serve \<Longrightarrow> preparation ((c, r) # h) = (c, r) # preparation h" "preparation ((Serve, r) # h) = []"
  by (simp_all add: preparation_def)

lemma held_Cons: "held (x # h) = foldl hold (hold {} x) h"
  by (simp add: held_def)

text \<open>A service with an HTTP client only.\<close>

definition http_lifespan :: "string \<Rightarrow> rat \<Rightarrow> string \<Rightarrow> event \<Rightarrow> string \<Rightarrow> lifespan" where
  "http_lifespan service timeout up ev down =
     boot (ConfigureLogging service)
    (boot (OpenHttpClient timeout)
    (assign ''http_client''
    (announce up ev
    (serving (\<lambda>_. boot CloseHttpClient (announce down [] (Ret ())))))))"

lemma http_lifespans:
  "\<exists>service timeout up ev down. relay_lifespan s = http_lifespan service timeout up ev down"
  "\<exists>service timeout up ev down. sender_lifespan s = http_lifespan service timeout up ev down"
  "\<exists>service timeout up ev down. ui_lifespan s = http_lifespan service timeout up ev down"
  unfolding http_lifespan_def relay_lifespan_def sender_lifespan_def ui_lifespan_def by blast+

lemma http_served:
  assumes "path (http_lifespan service timeout up ev down) h res" "served h"
  shows "\<exists>r1 r2 r3 r4 r5 h'. h = (ConfigureLogging service, r1) # (OpenHttpClient timeout, r2) # (Assign ''http_client'', r3)
      # (BootLog up ev, r4) # (Serve, r5) # h' \<and> \<not> boot_failed r2
    \<and> ((\<exists>r6. h' = [(CloseHttpClient, r6)] \<and> boot_failed r6) \<or> (\<exists>r6 r7. h' = [(CloseHttpClient, r6), (BootLog down [], r7)] \<and> \<not> boot_failed r6))"
  using assms unfolding http_lifespan_def boot_paths
  by (elim disjE exE conjE) (auto simp: boot_paths boot_failed_def dest!: path_serving)

lemma http_released:
  assumes "path (http_lifespan service timeout up ev down) h res" "served h" "shutdown_ok h"
  shows "held h = {}"
  using http_served [OF assms(1,2)] assms(3) by (elim exE conjE disjE) (simp_all add: held_Cons hold_serve)

text \<open>Closing an object releases its connection, unless the connection was lost before.\<close>

lemma publisher_close_holds:
  assumes "path (on_amqp (publisher_close p) (\<lambda>_. announce n [] (Ret ()))) h res" "list_all (\<lambda>x. \<not> boot_failed (snd x)) h"
  shows "foldl hold R h = (if rp_connection p = Some Open then R - {AmqpConnection} else R)"
proof (cases "rp_connection p = Some Open")
  case True
  with assms show ?thesis
    unfolding publisher_close_def Let_def if_P [OF True] boot_paths on_amqp_Ret
    by (elim disjE exE conjE) simp_all
next
  case False
  with assms show ?thesis
    unfolding publisher_close_def Let_def if_not_P [OF False] boot_paths on_amqp_Ret
    by (elim disjE exE conjE) simp_all
qed

lemma bridge_released:
  assumes "path (bridge_lifespan s) h res" "served h" "shutdown_ok h"
  shows "held h = {}"
proof -
  define p where "p = new_rabbit_publisher s None None \<lparr> rp_connection := Some Open, rp_channel := True \<rparr>"
  define down where "down = (\<lambda>lost. on_amqp (publisher_close (publisher_after lost p)) (\<lambda>_. announce ''bridge.shutdown'' [] (Ret ())))"
  from assms obtain h' where h': "path (serving down) h' res" "shutdown_ok h'" "held h = foldl hold {AmqpConnection} h'"
    unfolding bridge_lifespan_def publisher_connect_def Let_def boot_paths on_amqp_Ret p_def down_def
    by (elim disjE exE conjE) (simp_all add: held_Cons)
  from path_serving [OF h'(1)] obtain r h'' lost res' where
    h'': "h' = (Serve, r) # h''" "path (down lost) h'' res'" "lost \<longleftrightarrow> r = Served True" by blast
  with h'(2) have "list_all (\<lambda>x. \<not> boot_failed (snd x)) h''" by simp
  from publisher_close_holds [OF h''(2) [unfolded down_def] this]
  show ?thesis using h'(3) h''(1,3) by (simp add: hold_serve publisher_after_def p_def)
qed

lemma close_connection_holds:
  assumes "path (on_amqp (close_connection c) f) h res" "list_all (\<lambda>x. \<not> boot_failed (snd x)) h"
    and "\<And>st h R. path (f st) h res \<Longrightarrow> list_all (\<lambda>x. \<not> boot_failed (snd x)) h \<Longrightarrow> foldl hold R h = g R"
  shows "foldl hold R h = g (if lc_connection c = Some Open then R - {AmqpConnection} else R)"
proof (cases "lc_connection c = Some Open")
  case True
  with assms(1,2) show ?thesis
    unfolding close_connection_def finish_stop_def Let_def if_P [OF True] boot_paths on_amqp_Ret
    by (elim disjE exE conjE) (simp_all add: assms(3))
next
  case False
  with assms(1,2) show ?thesis
    unfolding close_connection_def finish_stop_def Let_def if_not_P [OF False] boot_paths on_amqp_Ret
    by (elim disjE exE conjE) (simp_all add: assms(3))
qed

text \<open>After the consumer has stopped: Redis, then the engine.\<close>

definition close_clients :: lifespan where
  "close_clients = boot CloseRedisClient (boot DisposeEngine (announce ''settlement.shutdown'' [] (Ret ())))"

lemma close_clients_holds:
  assumes "path close_clients h res" "list_all (\<lambda>x. \<not> boot_failed (snd x)) h"
  shows "foldl hold R h = R - {RedisClient} - {Engine}"
  using assms unfolding close_clients_def boot_paths by (elim disjE exE conjE) simp_all

lemma stop_holds:
  assumes "path (on_amqp (stop c) (\<lambda>_. close_clients)) h res" "list_all (\<lambda>x. \<not> boot_failed (snd x)) h"
  shows "foldl hold R h = (if lc_connection c = Some Open then R - {AmqpConnection} else R) - {RedisClient} - {Engine}"
proof (cases "(lc_queue c, lc_consumer_tag c)" rule: prod.exhaust)
  case (Pair q t)
  show ?thesis
  proof (cases "q \<and> t \<noteq> None")
    case True
    then obtain tag where "lc_queue c" "lc_consumer_tag c = Some tag" using Pair by auto
    then have stop: "stop c = awaiting (CancelConsumer tag) c (\<lambda>_. close_connection (c \<lparr> lc_consumer_tag := None \<rparr>))"
      by (simp add: stop_def)
    from assms obtain r h' where "h = (BootAmqp (CancelConsumer tag), r) # h'" "list_all (\<lambda>x. \<not> boot_failed (snd x)) h'"
      "path (on_amqp (close_connection (c \<lparr> lc_consumer_tag := None \<rparr>)) (\<lambda>_. close_clients)) h' res"
      unfolding stop boot_paths by (elim disjE exE conjE) simp_all
    then show ?thesis using close_connection_holds [OF _ _ close_clients_holds] by simp
  next
    case False
    then have "stop c = close_connection c" using Pair by (auto simp: stop_def split: bool.splits option.splits)
    with assms(1) have "path (on_amqp (close_connection c) (\<lambda>_. close_clients)) h res" by simp
    from close_connection_holds [OF this assms(2) close_clients_holds] show ?thesis by simp
  qed
qed

section \<open>Settlement\<close>

definition idle_consumer :: "settings \<Rightarrow> live_consumer" where
  "idle_consumer s = fresh_consumer (new_consumer s None None None False)"

lemma settlement_keys:
  assumes "path (settlement_lifespan c s kc) h res" "served h"
  shows "\<exists>sender_key private_key. fst (sender_signing_public_key c s kc) = Inr sender_key
    \<and> fst (settlement_rsa_private_key c s kc) = Inr private_key"
  using assms unfolding settlement_lifespan_def boot_paths
  by (cases "fst (sender_signing_public_key c s kc)"; cases "fst (settlement_rsa_private_key c s kc)")
    (elim disjE exE conjE; simp)+

text \<open>What has happened when a lifespan comes to serve, and what is left to do.\<close>

lemma settlement_prepared:
  assumes "path (settlement_lifespan c s kc) h res" "served h"
  shows "\<exists>h' consumer. path (serving (\<lambda>lost. on_amqp (stop (consumer_after lost consumer)) (\<lambda>_. close_clients))) h' res
    \<and> lc_connection consumer = Some Open \<and> held h = foldl hold {AmqpConnection, RedisClient, Engine} h'
    \<and> shutdown_ok h = shutdown_ok h'
    \<and> (\<exists>r. (BootAmqp (Consume (settlement_queue s)), r) \<in> set (preparation h) \<and> \<not> boot_failed r)
    \<and> Assign ` set settlement_attributes \<subseteq> fst ` set (preparation h)"
proof -
  from settlement_keys [OF assms] obtain sender_key private_key where
    keys: "fst (sender_signing_public_key c s kc) = Inr sender_key" "fst (settlement_rsa_private_key c s kc) = Inr private_key"
    by blast
  have queue: "c_queue_name (fresh_consumer (new_consumer s None None None False)) = settlement_queue s"
    by (simp add: fresh_consumer_def new_consumer_def consumer.extend_def or_text_def)
  show ?thesis
    using assms unfolding settlement_lifespan_def keys sum.case settlement_attributes_def start_def Let_def
      foldr.simps comp_def id_apply boot_paths on_amqp_Ret
    by (elim disjE exE conjE) (simp_all add: held_Cons queue flip: close_clients_def, (rule exI conjI | assumption)+, simp_all, auto)
qed

text \<open>Every dependency of the routes finds the attribute it asks for.\<close>

lemma settlement_dependencies_found:
  assumes "path (settlement_lifespan c s kc) h res" "served h"
  shows "settlement_override d (app_state_after (preparation h)) = Inr (Some ())"
proof -
  from settlement_prepared [OF assms] have "Assign ` set settlement_attributes \<subseteq> fst ` set (preparation h)" by blast
  then have "app_state_after (preparation h) name = Some ()" if "name \<in> set settlement_attributes" for name
    using that by (auto simp: app_state_after_def)
  then show ?thesis by (cases d) (simp_all add: settlement_attributes_def attribute_def)
qed

lemma settlement_released:
  assumes "path (settlement_lifespan c s kc) h res" "served h" "shutdown_ok h"
  shows "held h = {}"
proof -
  from settlement_prepared [OF assms(1,2)] obtain h' consumer where
    h': "path (serving (\<lambda>lost. on_amqp (stop (consumer_after lost consumer)) (\<lambda>_. close_clients))) h' res"
    "lc_connection consumer = Some Open" "held h = foldl hold {AmqpConnection, RedisClient, Engine} h'" "shutdown_ok h'"
    using assms(3) by blast
  from path_serving [OF h'(1)] obtain r h'' lost res' where
    h'': "h' = (Serve, r) # h''" "path (on_amqp (stop (consumer_after lost consumer)) (\<lambda>_. close_clients)) h'' res'"
    "lost \<longleftrightarrow> r = Served True" by blast
  with h'(4) have "list_all (\<lambda>x. \<not> boot_failed (snd x)) h''" by simp
  from stop_holds [OF h''(2) this] show ?thesis
    using h'(2,3) h''(1,3) by (auto simp: hold_serve consumer_after_def)
qed

text \<open>
  A start that fails once the clients exist ends the process with both of them open: nothing
  before \<^verbatim>\<open>try\<close> closes them.
\<close>

lemma settlement_failed_start:
  assumes "path (settlement_lifespan c s kc) h res" "\<not> served h"
    and "(CreateRedisClient (create_redis_client s None), r) \<in> set h" "\<not> boot_failed r"
  shows "{Engine, RedisClient} \<subseteq> held h \<and> (\<exists>e. res = Inl e)"
proof (cases "fst (sender_signing_public_key c s kc)")
  case (Inl e)
  with assms show ?thesis unfolding settlement_lifespan_def Inl sum.case boot_paths
    by (elim disjE exE conjE) (simp_all add: held_Cons)
next
  case (Inr sender_key)
  note sender = this
  show ?thesis
  proof (cases "fst (settlement_rsa_private_key c s kc)")
    case (Inl e)
    with assms show ?thesis unfolding settlement_lifespan_def sender Inl sum.case boot_paths
      by (elim disjE exE conjE) (simp_all add: held_Cons)
  next
    case (Inr private_key)
    from assms show ?thesis
      unfolding settlement_lifespan_def sender Inr sum.case settlement_attributes_def start_def Let_def
        foldr.simps comp_def id_apply boot_paths on_amqp_Ret
      by (elim disjE exE conjE) (auto simp: held_Cons dest!: path_serving)
  qed
qed

end
