(* ===== verification/Key_Setup.thy ===== *)
theory Key_Setup
  imports Packet_Facts Provision
begin

text \<open>
  Key generation of \<^verbatim>\<open>shared/crypto.py\<close>, the files \<^verbatim>\<open>bootstrap_env.py\<close>
  renders from it, and the way back: the services that read those files load keys that fit
  together.  The generators and the PEM writer are the \<^verbatim>\<open>cryptography\<close> package's,
  reading an environment file is pydantic-settings'; both are parameters.
\<close>

section \<open>Generation\<close>

definition rsa_key_bits :: int where "rsa_key_bits = 3072"
definition rsa_public_exponent :: int where "rsa_public_exponent = 65537"

record key_generator =
  generate_ed25519 :: "bytes \<Rightarrow> bytes"
  generate_rsa :: "bytes \<Rightarrow> int \<Rightarrow> int \<Rightarrow> bytes"
  private_pem_bytes :: "pem_key \<Rightarrow> bytes"
  public_pem_bytes :: "pem_key \<Rightarrow> bytes"

text \<open>\<^verbatim>\<open>.decode("ascii")\<close>.\<close>

definition decode_ascii_strict :: "bytes \<Rightarrow> exn + string" where
  "decode_ascii_strict bs =
     (if list_all (\<lambda>b. unat b < 128) bs then Inr (utf8_units bs)
      else Inl (UnicodeDecodeError ''ordinal not in range(128)''))"

text \<open>The randomness of the generators is an argument.\<close>

definition generate_signing_keypair :: "crypto \<Rightarrow> key_generator \<Rightarrow> bytes \<Rightarrow> exn + (string \<times> string)" where
  "generate_signing_keypair c g entropy =
     (let private_key = generate_ed25519 g entropy in
      sum_bind (decode_ascii_strict (private_pem_bytes g (Ed25519PrivateKey private_key))) (\<lambda>private_pem.
      sum_bind (decode_ascii_strict (public_pem_bytes g (Ed25519PublicKey (ed25519_public c private_key)))) (\<lambda>public_pem.
      Inr (private_pem, public_pem))))"

definition generate_rsa_keypair :: "crypto \<Rightarrow> key_generator \<Rightarrow> bytes \<Rightarrow> int \<Rightarrow> exn + (string \<times> string)" where
  "generate_rsa_keypair c g entropy key_bits =
     (let private_key = generate_rsa g entropy rsa_public_exponent key_bits in
      sum_bind (decode_ascii_strict (private_pem_bytes g (RSAPrivateKey private_key))) (\<lambda>private_pem.
      sum_bind (decode_ascii_strict (public_pem_bytes g (RSAPublicKey (rsa_public c private_key)))) (\<lambda>public_pem.
      Inr (private_pem, public_pem))))"

text \<open>\<^verbatim>\<open>secrets.token_urlsafe(24)\<close>: 24 random bytes in base64url without padding.\<close>

definition password :: "bytes \<Rightarrow> string" where
  "password random = b64u_encode random"

record entropy =
  en_postgres :: bytes
  en_rabbitmq :: bytes
  en_signing :: bytes
  en_rsa :: bytes

definition generate_keys :: "crypto \<Rightarrow> key_generator \<Rightarrow> bytes \<Rightarrow> bytes \<Rightarrow> exn + key_material" where
  "generate_keys c g signing rsa =
     sum_bind (generate_signing_keypair c g signing) (\<lambda>(signing_private, signing_public).
     sum_bind (generate_rsa_keypair c g rsa rsa_key_bits) (\<lambda>(rsa_private, rsa_public).
     Inr \<lparr> km_signing_private = signing_private, km_signing_public = signing_public,
           km_rsa_private = rsa_private, km_rsa_public = rsa_public \<rparr>))"

definition build_files :: "crypto \<Rightarrow> key_generator \<Rightarrow> entropy \<Rightarrow> exn + (string list \<times> string list)" where
  "build_files c g en =
     (let pw = \<lparr> pw_postgres = password (en_postgres en), pw_rabbitmq = password (en_rabbitmq en) \<rparr> in
      sum_bind (generate_keys c g (en_signing en) (en_rsa en)) (\<lambda>keys. Inr (env_lines pw keys, infra_lines pw)))"

section \<open>Documented behaviour\<close>

text \<open>A PEM text: printable, from dash to dash and a final newline.\<close>

definition pem_body :: "string \<Rightarrow> bool" where
  "pem_body t \<longleftrightarrow> t \<noteq> [] \<and> hd t = CHR ''-'' \<and> last t = CHR ''-'' \<and> list_all is_ascii t
     \<and> set t \<inter> {CHR 0x22, CHR 0x5C, CHR ''$'', CHR 0x0D} = {}"

definition writes_pem :: "bytes \<Rightarrow> bool" where
  "writes_pem bs \<longleftrightarrow> (\<exists>t. pem_body t \<and> bs = utf8_encode (t @ [CHR 0x0A]))"

definition pem_round_trip :: "crypto \<Rightarrow> key_generator \<Rightarrow> bool" where
  "pem_round_trip c g \<longleftrightarrow>
     (\<forall>k. \<forall>key \<in> {Ed25519PrivateKey k, RSAPrivateKey k}.
        writes_pem (private_pem_bytes g key) \<and> load_pem_private_key c (private_pem_bytes g key) = Inr key)
     \<and> (\<forall>k. \<forall>key \<in> {Ed25519PublicKey k, RSAPublicKey k}.
        writes_pem (public_pem_bytes g key) \<and> load_pem_public_key c (public_pem_bytes g key) = Inr key)"

text \<open>
  An environment file: the value of a name that one line sets to a quoted text, with the newline
  escapes of the text decoded or not.
\<close>

fun starts_with :: "string \<Rightarrow> string \<Rightarrow> bool" where
  "starts_with [] l = True"
| "starts_with (c # p) [] = False"
| "starts_with (c # p) (d # l) = (c = d \<and> starts_with p l)"

definition env_reader :: "(string list \<Rightarrow> string \<Rightarrow> string option) \<Rightarrow> bool" where
  "env_reader rd \<longleftrightarrow>
     (\<forall>lines name u. set u \<inter> {CHR 0x22, CHR 0x5C, CHR ''$'', CHR 0x0D} = {} \<longrightarrow>
        filter (starts_with (name @ ''='')) lines = [name @ ''='' @ quoted (escape_newlines u)] \<longrightarrow>
        rd lines name = Some (escape_newlines u) \<or> rd lines name = Some u)"

definition configured_from :: "(string list \<Rightarrow> string \<Rightarrow> string option) \<Rightarrow> string list \<Rightarrow> settings \<Rightarrow> bool" where
  "configured_from rd lines s \<longleftrightarrow>
     rd lines ''SENDER_SIGNING_PRIVATE_KEY_PEM'' = Some (sender_signing_private_key_pem s)
     \<and> rd lines ''SENDER_SIGNING_PUBLIC_KEY_PEM'' = Some (sender_signing_public_key_pem s)
     \<and> rd lines ''SETTLEMENT_RSA_PRIVATE_KEY_PEM'' = Some (settlement_rsa_private_key_pem s)
     \<and> rd lines ''SETTLEMENT_RSA_PUBLIC_KEY_PEM'' = Some (settlement_rsa_public_key_pem s)"

section \<open>From the file to the keys\<close>

lemma spaces_not_dash:
  "p \<in> set py_spaces \<Longrightarrow> \<exists>c cs. p = c # cs \<and> c \<noteq> CHR ''-''"
  "p \<in> set (map rev py_spaces) \<Longrightarrow> \<exists>c cs. p = c # cs \<and> c \<noteq> CHR ''-''"
proof -
  have all: "list_all (\<lambda>p. case p of [] \<Rightarrow> False | c # cs \<Rightarrow> c \<noteq> CHR ''-'') (py_spaces @ map rev py_spaces)"
    by (simp add: py_spaces_def char_of_nat_eq_iff)
  have dash: "\<exists>c cs. p = c # cs \<and> c \<noteq> CHR ''-''" if "p \<in> set (py_spaces @ map rev py_spaces)" for p
  proof -
    have "case p of [] \<Rightarrow> False | c # cs \<Rightarrow> c \<noteq> CHR ''-''" using all that unfolding list_all_iff by blast
    then show ?thesis by (cases p) simp_all
  qed
  show "p \<in> set py_spaces \<Longrightarrow> \<exists>c cs. p = c # cs \<and> c \<noteq> CHR ''-''"
    "p \<in> set (map rev py_spaces) \<Longrightarrow> \<exists>c cs. p = c # cs \<and> c \<noteq> CHR ''-''"
    by (rule dash, simp)+
qed

lemma newline_char: "(CHR 0x0A = char_of n) \<longleftrightarrow> (n :: nat) mod 256 = 10"
  using char_of_nat_eq_iff [of n "CHR 0x0A"] by auto

lemma drop_spaces_dash:
  assumes "\<And>p. p \<in> set sps \<Longrightarrow> \<exists>c cs. p = c # cs \<and> c \<noteq> CHR ''-''"
  shows "drop_spaces sps n (CHR ''-'' # s) = CHR ''-'' # s"
  by (rule drop_spaces_done) (use assms in fastforce)

lemma strip_pem:
  assumes "pem_body t"
  shows "py_strip t = t" "py_strip (t @ [CHR 0x0A]) = t"
proof -
  from assms obtain r where t: "t = CHR ''-'' # r" by (cases t) (auto simp: pem_body_def)
  from assms obtain q where rev_t: "rev t = CHR ''-'' # q"
    by (cases t rule: rev_cases) (auto simp: pem_body_def)
  have left: "drop_spaces py_spaces n (t @ x) = t @ x" for n x
    unfolding t append_Cons by (rule drop_spaces_dash) (rule spaces_not_dash(1))
  have right: "drop_spaces (map rev py_spaces) n (rev t) = rev t" for n
    unfolding rev_t by (rule drop_spaces_dash) (rule spaces_not_dash(2))
  show "py_strip t = t"
    using left [of "length t" "[]"] right [of "length t"] by (simp add: py_strip_def Let_def)
  have "find (\<lambda>p. take (length p) (CHR 0x0A # rev t) = p) (map rev py_spaces) = Some [CHR 0x0A]"
    by (simp add: py_spaces_def newline_char char_of_nat_eq_iff)
  then have "drop_spaces (map rev py_spaces) (Suc n) (CHR 0x0A # rev t) = rev t" for n
    using right [of n] by simp
  then show "py_strip (t @ [CHR 0x0A]) = t"
    using left [of "length (t @ [CHR 0x0A])" "[CHR 0x0A]"] by (simp add: py_strip_def Let_def)
qed

lemma pem_value:
  assumes "pem_body t" "v = escape_newlines t \<or> v = t"
  shows "normalize_pem v = t @ [CHR 0x0A]"
proof -
  have plain: "CHR 0x5C \<notin> set t" "t \<noteq> []" using assms(1) by (auto simp: pem_body_def)
  have "escape_newlines t \<noteq> []" using plain(2) by (cases t) auto
  with assms(2) show ?thesis
    using plain by (auto simp: normalize_pem_def unescape_escape unescape_plain strip_pem [OF assms(1)])
qed

text \<open>No other line sets one of the four names.\<close>

definition key_names :: "string list" where
  "key_names = [''SENDER_SIGNING_PRIVATE_KEY_PEM'', ''SENDER_SIGNING_PUBLIC_KEY_PEM'',
     ''SETTLEMENT_RSA_PRIVATE_KEY_PEM'', ''SETTLEMENT_RSA_PUBLIC_KEY_PEM'']"

lemma other_lines:
  "list_all (\<lambda>name. list_all (\<lambda>l. \<not> starts_with (name @ ''='') l) (env_head pw @ env_tail)) key_names"
  by (simp add: key_names_def env_head_def env_tail_def)

lemma key_lines:
  assumes "(name, pem) \<in> set (key_pairs k)"
  shows "filter (starts_with (name @ ''='')) (env_lines pw k) = [name @ ''='' @ quoted (escape_pem pem)]"
proof -
  have "name \<in> set key_names" using assms by (auto simp: key_pairs_def key_names_def)
  then have "filter (starts_with (name @ ''='')) (env_head pw) = []" "filter (starts_with (name @ ''='')) env_tail = []"
    using other_lines [of pw] by (auto simp: list_all_iff filter_empty_conv)
  moreover have "filter (starts_with (name @ ''='')) (map (\<lambda>(name, pem). name @ ''='' @ quoted (escape_pem pem)) (key_pairs k))
      = [name @ ''='' @ quoted (escape_pem pem)]"
    using assms by (auto simp: key_pairs_def)
  ultimately show ?thesis by (simp add: env_lines_def)
qed

lemma decode_pem:
  assumes "writes_pem bs"
  shows "decode_ascii_strict bs = Inr (utf8_units bs)"
proof -
  from assms obtain t where t: "pem_body t" "bs = utf8_encode (t @ [CHR 0x0A])" by (auto simp: writes_pem_def)
  have "list_all (\<lambda>b. unat b < 128) (utf8_encode u)" if "list_all is_ascii u" for u
    using that by (induction u) (auto simp: utf8_encode_def is_ascii_def byte_of_char_def unat_of_nat)
  moreover have "list_all is_ascii (t @ [CHR 0x0A])" using t(1) by (simp add: pem_body_def is_ascii_def)
  ultimately show ?thesis using t(2) unfolding decode_ascii_strict_def by presburger
qed

text \<open>A key written to the file by the generator is the text its loader gets.\<close>

lemma key_from_env:
  assumes "env_reader rd" "(name, utf8_units bs) \<in> set (key_pairs k)" "writes_pem bs"
    and "rd (env_lines pw k) name = Some v"
  shows "normalize_pem v = utf8_units bs"
proof -
  from assms(3) obtain t where t: "pem_body t" "utf8_units bs = t @ [CHR 0x0A]"
    unfolding writes_pem_def using utf8_units_encode by blast
  have strip: "escape_pem (utf8_units bs) = escape_newlines t" by (simp add: escape_pem_def t(2) strip_pem [OF t(1)])
  have "filter (starts_with (name @ ''='')) (env_lines pw k) = [name @ ''='' @ quoted (escape_newlines t)]"
    using key_lines [OF assms(2)] unfolding strip .
  moreover have "set t \<inter> {CHR 0x22, CHR 0x5C, CHR ''$'', CHR 0x0D} = {}" using t(1) by (simp add: pem_body_def)
  ultimately have "rd (env_lines pw k) name = Some (escape_newlines t) \<or> rd (env_lines pw k) name = Some t"
    using assms(1) [unfolded env_reader_def, rule_format, where u = t and lines = "env_lines pw k" and name = name] by blast
  with assms(4) have "v = escape_newlines t \<or> v = t" by auto
  from pem_value [OF t(1) this] show ?thesis by (simp only: t(2))
qed

lemma pem_loadable:
  assumes "writes_pem bs" "loader bs = Inr key"
  shows "parse_pem loader (utf8_units bs) = Some key" "py_strip (utf8_units bs) \<noteq> []" "utf8_units bs \<noteq> []"
proof -
  from assms(1) obtain t where t: "pem_body t" "utf8_units bs = t @ [CHR 0x0A]"
    unfolding writes_pem_def using utf8_units_encode by blast
  then show "py_strip (utf8_units bs) \<noteq> []" "utf8_units bs \<noteq> []" by (auto simp: strip_pem pem_body_def)
  have "list_all is_ascii (utf8_units bs)" unfolding t(2) using t(1) by (simp add: pem_body_def is_ascii_def)
  then show "parse_pem loader (utf8_units bs) = Some key" by (simp add: parse_pem_def assms(2))
qed

text \<open>The four texts a generator writes for a signing key and an RSA key.\<close>

definition material_of :: "crypto \<Rightarrow> key_generator \<Rightarrow> bytes \<Rightarrow> bytes \<Rightarrow> key_material" where
  "material_of c g sk rk =
     \<lparr> km_signing_private = utf8_units (private_pem_bytes g (Ed25519PrivateKey sk)),
       km_signing_public = utf8_units (public_pem_bytes g (Ed25519PublicKey (ed25519_public c sk))),
       km_rsa_private = utf8_units (private_pem_bytes g (RSAPrivateKey rk)),
       km_rsa_public = utf8_units (public_pem_bytes g (RSAPublicKey (rsa_public c rk))) \<rparr>"

lemma pem_round_tripD:
  assumes "pem_round_trip c g"
  shows "writes_pem (private_pem_bytes g (Ed25519PrivateKey k))" "writes_pem (private_pem_bytes g (RSAPrivateKey k))"
    "writes_pem (public_pem_bytes g (Ed25519PublicKey k))" "writes_pem (public_pem_bytes g (RSAPublicKey k))"
    "load_pem_private_key c (private_pem_bytes g (Ed25519PrivateKey k)) = Inr (Ed25519PrivateKey k)"
    "load_pem_private_key c (private_pem_bytes g (RSAPrivateKey k)) = Inr (RSAPrivateKey k)"
    "load_pem_public_key c (public_pem_bytes g (Ed25519PublicKey k)) = Inr (Ed25519PublicKey k)"
    "load_pem_public_key c (public_pem_bytes g (RSAPublicKey k)) = Inr (RSAPublicKey k)"
  using assms by (simp_all add: pem_round_trip_def)

lemma generate_keys_material:
  assumes "pem_round_trip c g"
  shows "generate_keys c g a b = Inr (material_of c g (generate_ed25519 g a) (generate_rsa g b rsa_public_exponent rsa_key_bits))"
  by (simp add: generate_keys_def generate_signing_keypair_def generate_rsa_keypair_def material_of_def Let_def
      decode_pem [OF pem_round_tripD(1) [OF assms]] decode_pem [OF pem_round_tripD(2) [OF assms]]
      decode_pem [OF pem_round_tripD(3) [OF assms]] decode_pem [OF pem_round_tripD(4) [OF assms]])

lemma material_from_env:
  assumes "pem_round_trip c g" "env_reader rd" "configured_from rd (env_lines pw (material_of c g sk rk)) s"
  shows "normalize_pem (sender_signing_private_key_pem s) = utf8_units (private_pem_bytes g (Ed25519PrivateKey sk))"
    "normalize_pem (sender_signing_public_key_pem s) = utf8_units (public_pem_bytes g (Ed25519PublicKey (ed25519_public c sk)))"
    "normalize_pem (settlement_rsa_private_key_pem s) = utf8_units (private_pem_bytes g (RSAPrivateKey rk))"
    "normalize_pem (settlement_rsa_public_key_pem s) = utf8_units (public_pem_bytes g (RSAPublicKey (rsa_public c rk)))"
proof -
  note conf = assms(3) [unfolded configured_from_def]
  show "normalize_pem (sender_signing_private_key_pem s) = utf8_units (private_pem_bytes g (Ed25519PrivateKey sk))"
    by (rule key_from_env [OF assms(2) _ pem_round_tripD(1) [OF assms(1)] conf [THEN conjunct1]])
      (simp add: key_pairs_def material_of_def)
  show "normalize_pem (sender_signing_public_key_pem s) = utf8_units (public_pem_bytes g (Ed25519PublicKey (ed25519_public c sk)))"
    by (rule key_from_env [OF assms(2) _ pem_round_tripD(3) [OF assms(1)] conf [THEN conjunct2, THEN conjunct1]])
      (simp add: key_pairs_def material_of_def)
  show "normalize_pem (settlement_rsa_private_key_pem s) = utf8_units (private_pem_bytes g (RSAPrivateKey rk))"
    by (rule key_from_env [OF assms(2) _ pem_round_tripD(2) [OF assms(1)] conf [THEN conjunct2, THEN conjunct2, THEN conjunct1]])
      (simp add: key_pairs_def material_of_def)
  show "normalize_pem (settlement_rsa_public_key_pem s) = utf8_units (public_pem_bytes g (RSAPublicKey (rsa_public c rk)))"
    by (rule key_from_env [OF assms(2) _ pem_round_tripD(4) [OF assms(1)] conf [THEN conjunct2, THEN conjunct2, THEN conjunct2]])
      (simp add: key_pairs_def material_of_def)
qed

lemma provisioned_keys:
  assumes "pem_round_trip c g" "env_reader rd" "build_files c g en = Inr (env, infra)" "configured_from rd env s"
  shows "\<exists>sk rk. fst (sender_signing_private_key c s empty_key_cache) = Inr sk
    \<and> fst (sender_signing_public_key c s empty_key_cache) = Inr (ed25519_public c sk)
    \<and> fst (settlement_rsa_private_key c s empty_key_cache) = Inr rk
    \<and> fst (settlement_rsa_public_key c s empty_key_cache) = Inr (rsa_public c rk)"
proof -
  obtain sk rk pw where "env = env_lines pw (material_of c g sk rk)"
    using assms(3) by (auto simp: build_files_def Let_def generate_keys_material [OF assms(1)])
  note norm = material_from_env [OF assms(1,2) assms(4) [unfolded this]]
  note rt = pem_round_tripD [OF assms(1)]
  show ?thesis
  proof (intro exI conjI)
    show "fst (sender_signing_private_key c s empty_key_cache) = Inr sk"
      by (simp add: sender_signing_private_key_def empty_key_cache_def cached_def Let_def norm(1)
          load_signing_private_key_def pem_loadable [OF rt(1), where loader = "load_pem_private_key c", OF rt(5)])
    show "fst (sender_signing_public_key c s empty_key_cache) = Inr (ed25519_public c sk)"
      by (simp add: sender_signing_public_key_def empty_key_cache_def cached_def Let_def norm(2)
          load_signing_public_key_def pem_loadable [OF rt(3), where loader = "load_pem_public_key c", OF rt(7)])
    show "fst (settlement_rsa_private_key c s empty_key_cache) = Inr rk"
      by (simp add: settlement_rsa_private_key_def empty_key_cache_def cached_def Let_def norm(3)
          load_rsa_private_key_def pem_loadable [OF rt(2), where loader = "load_pem_private_key c", OF rt(6)])
    show "fst (settlement_rsa_public_key c s empty_key_cache) = Inr (rsa_public c rk)"
      by (simp add: settlement_rsa_public_key_def empty_key_cache_def cached_def Let_def norm(4)
          load_rsa_public_key_def pem_loadable [OF rt(4), where loader = "load_pem_public_key c", OF rt(8)])
  qed
qed

text \<open>Both files carry the same passwords, and the passwords survive any connection string.\<close>

lemma passwords_match:
  assumes "build_files c g en = Inr (env, infra)"
  shows "''POSTGRES_PASSWORD='' @ password (en_postgres en) \<in> set env \<inter> set infra
    \<and> ''RABBITMQ_PASSWORD='' @ password (en_rabbitmq en) \<in> set env
    \<and> ''RABBITMQ_DEFAULT_PASS='' @ password (en_rabbitmq en) \<in> set infra"
proof -
  from assms obtain pw k where "env = env_lines pw k" "infra = infra_lines pw"
    "pw_postgres pw = password (en_postgres en)" "pw_rabbitmq pw = password (en_rabbitmq en)"
    by (auto simp: build_files_def Let_def sum_bind_eq_Inr)
  moreover have "''POSTGRES_PASSWORD='' @ pw_postgres pw \<in> set (env_head pw)" "''RABBITMQ_PASSWORD='' @ pw_rabbitmq pw \<in> set (env_head pw)"
    "''POSTGRES_PASSWORD='' @ pw_postgres pw \<in> set (infra_lines pw)" "''RABBITMQ_DEFAULT_PASS='' @ pw_rabbitmq pw \<in> set (infra_lines pw)"
    unfolding env_head_def infra_lines_def by (rule list.set_intros | rule list.set_intros(2))+
  ultimately show ?thesis by (simp add: env_lines_def)
qed

end
