(* ===== verification/Key_Examples.thy ===== *)
theory Key_Examples
  imports Key_Setup Examples
begin

text \<open>
  A generator, a PEM writer with its loader and a reader of environment files on which the
  theorem about provisioned keys is applied.
\<close>

section \<open>A PEM format\<close>

fun key_tag :: "pem_key \<Rightarrow> char \<times> bytes" where
  "key_tag (Ed25519PrivateKey k) = (CHR ''E'', k)"
| "key_tag (Ed25519PublicKey k) = (CHR ''e'', k)"
| "key_tag (RSAPrivateKey k) = (CHR ''R'', k)"
| "key_tag (RSAPublicKey k) = (CHR ''r'', k)"
| "key_tag (OtherKey n) = (CHR ''o'', [])"

definition reference_pem :: "pem_key \<Rightarrow> bytes" where
  "reference_pem key =
     utf8_encode ((''-----'' @ [fst (key_tag key)] @ hexdigest (snd (key_tag key)) @ ''-----'') @ [CHR 0x0A])"

definition reference_load :: "bytes \<Rightarrow> exn + pem_key" where
  "reference_load bs =
     (let s = drop 5 (utf8_units bs) in
      case take (length s - 6) s of
        [] \<Rightarrow> Inl (ValueError ''no key'')
      | t # body \<Rightarrow>
          (case unhex body of
             Inl e \<Rightarrow> Inl (ValueError e)
           | Inr k \<Rightarrow>
               if t = CHR ''E'' then Inr (Ed25519PrivateKey k) else if t = CHR ''e'' then Inr (Ed25519PublicKey k)
               else if t = CHR ''R'' then Inr (RSAPrivateKey k) else if t = CHR ''r'' then Inr (RSAPublicKey k)
               else Inl (ValueError ''unsupported'')))"

definition key_crypto :: crypto where
  "key_crypto = reference_crypto \<lparr> load_pem_private_key := reference_load, load_pem_public_key := reference_load \<rparr>"

definition reference_generator :: key_generator where
  "reference_generator =
     \<lparr> generate_ed25519 = (\<lambda>entropy. entropy), generate_rsa = (\<lambda>entropy e bits. entropy),
       private_pem_bytes = reference_pem, public_pem_bytes = reference_pem \<rparr>"

lemma hex_char_plain: "n < 16 \<Longrightarrow> hex_char n \<notin> {CHR 0x22, CHR 0x5C, CHR ''$'', CHR 0x0D}"
  by (auto simp: hex_char_def char_of_nat_eq_iff)

lemma hexdigest_plain: "set (hexdigest bs) \<inter> {CHR 0x22, CHR 0x5C, CHR ''$'', CHR 0x0D} = {}"
  by (induction bs) (use hex_char_plain in \<open>auto simp: hexdigest_def hex_byte_def less_mult_imp_div_less\<close>)

lemma reference_writes: "writes_pem (reference_pem key)"
proof -
  have "is_ascii (fst (key_tag key))" "fst (key_tag key) \<notin> {CHR 0x22, CHR 0x5C, CHR ''$'', CHR 0x0D}"
    by (cases key; simp add: is_ascii_def)+
  then have "pem_body (''-----'' @ [fst (key_tag key)] @ hexdigest (snd (key_tag key)) @ ''-----'')"
    using hexdigest_plain [of "snd (key_tag key)"] hexdigest_ascii [of "snd (key_tag key)"]
    by (auto simp: pem_body_def is_ascii_def)
  then show ?thesis unfolding writes_pem_def reference_pem_def by blast
qed

lemma reference_load_pem: "(\<forall>n. key \<noteq> OtherKey n) \<Longrightarrow> reference_load (reference_pem key) = Inr key"
  unfolding reference_load_def reference_pem_def utf8_units_encode
  by (cases key) (simp_all add: Let_def unhex_hexdigest)

lemma key_crypto_round_trip: "pem_round_trip key_crypto reference_generator"
  by (auto simp: pem_round_trip_def key_crypto_def reference_generator_def reference_writes reference_load_pem)

lemma key_crypto_laws: "signs_correctly key_crypto" "seals_correctly key_crypto"
  using reference_signs_correctly reference_seals_correctly
  by (simp_all add: signs_correctly_def seals_correctly_def key_crypto_def)

section \<open>A reader of environment files\<close>

definition reference_env :: "string list \<Rightarrow> string \<Rightarrow> string option" where
  "reference_env lines name =
     (case find (starts_with (name @ ''='' @ [CHR 0x22])) lines of
        None \<Rightarrow> None
      | Some l \<Rightarrow> Some (butlast (drop (length name + 2) l)))"

lemma starts_with_append: "starts_with (p @ q) l \<Longrightarrow> starts_with p l"
  by (induction p l rule: starts_with.induct) auto

lemma starts_with_self: "starts_with p (p @ q)"
  by (induction p) auto

lemma find_unique:
  assumes "filter q xs = [x]" "p x" "\<And>y. p y \<Longrightarrow> q y"
  shows "find p xs = Some x"
  using assms by (induction xs) (auto split: if_splits simp: filter_empty_conv)

lemma reference_env_reader: "env_reader reference_env"
  unfolding env_reader_def
proof (intro allI impI)
  fix lines name u
  assume one: "filter (starts_with (name @ ''='')) lines = [name @ ''='' @ quoted (escape_newlines u)]"
  have "find (starts_with (name @ ''='' @ [CHR 0x22])) lines = Some (name @ ''='' @ quoted (escape_newlines u))"
  proof (rule find_unique [OF one])
    show "starts_with (name @ ''='' @ [CHR 0x22]) (name @ ''='' @ quoted (escape_newlines u))"
      using starts_with_self [of "name @ ''='' @ [CHR 0x22]"] by (simp add: quoted_def)
    show "starts_with (name @ ''='') l" if "starts_with (name @ ''='' @ [CHR 0x22]) l" for l
      using that starts_with_append [of "name @ ''=''" "[CHR 0x22]" l] by simp
  qed
  then show "reference_env lines name = Some (escape_newlines u) \<or> reference_env lines name = Some u"
    by (simp add: reference_env_def quoted_def)
qed

section \<open>A provisioned configuration\<close>

definition ex_entropy :: entropy where
  "ex_entropy = \<lparr> en_postgres = replicate 24 1, en_rabbitmq = replicate 24 2, en_signing = [1], en_rsa = [2] \<rparr>"

definition ex_files :: "string list \<times> string list" where
  "ex_files = projr (build_files key_crypto reference_generator ex_entropy)"

definition ex_settings :: settings where
  "ex_settings = default_settings
     \<lparr> sender_signing_private_key_pem := the (reference_env (fst ex_files) ''SENDER_SIGNING_PRIVATE_KEY_PEM''),
       sender_signing_public_key_pem := the (reference_env (fst ex_files) ''SENDER_SIGNING_PUBLIC_KEY_PEM''),
       settlement_rsa_private_key_pem := the (reference_env (fst ex_files) ''SETTLEMENT_RSA_PRIVATE_KEY_PEM''),
       settlement_rsa_public_key_pem := the (reference_env (fst ex_files) ''SETTLEMENT_RSA_PUBLIC_KEY_PEM'') \<rparr>"

lemma ex_built: "build_files key_crypto reference_generator ex_entropy = Inr (fst ex_files, snd ex_files)"
  unfolding ex_files_def by (simp add: build_files_def generate_keys_material [OF key_crypto_round_trip] Let_def)

lemma ex_configured: "configured_from reference_env (fst ex_files) ex_settings"
proof -
  obtain pw k where env: "fst ex_files = env_lines pw k"
    unfolding ex_files_def by (simp add: build_files_def generate_keys_material [OF key_crypto_round_trip] Let_def)
  have "reference_env (env_lines pw k) name \<noteq> None" if "(name, pem) \<in> set (key_pairs k)" for name pem
  proof -
    have "find (starts_with (name @ ''='' @ [CHR 0x22])) (env_lines pw k) = Some (name @ ''='' @ quoted (escape_pem pem))"
    proof (rule find_unique [OF key_lines [OF that]])
      show "starts_with (name @ ''='' @ [CHR 0x22]) (name @ ''='' @ quoted (escape_pem pem))"
        using starts_with_self [of "name @ ''='' @ [CHR 0x22]"] by (simp add: quoted_def)
      show "starts_with (name @ ''='') l" if "starts_with (name @ ''='' @ [CHR 0x22]) l" for l
        using that starts_with_append [of "name @ ''=''" "[CHR 0x22]" l] by simp
    qed
    then show ?thesis by (simp add: reference_env_def)
  qed
  then show ?thesis
    unfolding configured_from_def ex_settings_def env by (simp add: key_pairs_def)
qed

end
