(* ===== verification/Log_Chain.thy ===== *)
theory Log_Chain
  imports Logging Config
begin

text \<open>
  \<^verbatim>\<open>configure_logging\<close> of \<^verbatim>\<open>shared/logging.py\<close>: the level, the order of the
  processors and the bound service name it installs.  structlog is a parameter: what it prints
  for a call, with its documented way of running a chain as a hypothesis.
\<close>

section \<open>The configuration\<close>

datatype log_processor =
    MergeContextvars
  | AddLogLevel
  | TimeStamper string bool
  | RedactSecrets
  | StackInfoRenderer
  | FormatExcInfo
  | JSONRenderer
  | ConsoleRenderer bool

text \<open>What goes to \<^verbatim>\<open>logging.basicConfig\<close>, to \<^verbatim>\<open>structlog.configure\<close> and to the context.\<close>

record logging_config =
  lg_format :: string
  lg_force :: bool
  lg_level :: int
  lg_processors :: "log_processor list"
  lg_cache_logger_on_first_use :: bool
  lg_service :: string

text \<open>\<^verbatim>\<open>getattr(logging, name, logging.INFO)\<close> for the four names the settings allow.\<close>

definition level_value :: "string \<Rightarrow> int" where
  "level_value name =
     (if name = ''DEBUG'' then 10 else if name = ''WARNING'' then 30 else if name = ''ERROR'' then 40 else 20)"

definition configure_logging :: "settings \<Rightarrow> string \<Rightarrow> bool \<Rightarrow> logging_config" where
  "configure_logging s service json_output =
     \<lparr> lg_format = ''%(message)s'', lg_force = True, lg_level = level_value (log_level s),
       lg_processors =
         [MergeContextvars, AddLogLevel, TimeStamper ''iso'' True, RedactSecrets, StackInfoRenderer, FormatExcInfo,
          if json_output then JSONRenderer else ConsoleRenderer False],
       lg_cache_logger_on_first_use = True, lg_service = service \<rparr>"

section \<open>structlog\<close>

record structlog =
  sl_process :: "log_processor \<Rightarrow> logging_config \<Rightarrow> int \<Rightarrow> event \<Rightarrow> event"
  sl_render :: "log_processor \<Rightarrow> event \<Rightarrow> string"
  sl_print :: "logging_config \<Rightarrow> int \<Rightarrow> event \<Rightarrow> string option"

definition run_processor :: "structlog \<Rightarrow> logging_config \<Rightarrow> int \<Rightarrow> event \<Rightarrow> log_processor \<Rightarrow> event" where
  "run_processor L cfg level ev p = (if p = RedactSecrets then redact_secrets ev else sl_process L p cfg level ev)"

text \<open>What the renderer, the last of the processors, is given.\<close>

definition rendered_event :: "structlog \<Rightarrow> logging_config \<Rightarrow> int \<Rightarrow> event \<Rightarrow> event" where
  "rendered_event L cfg level ev = foldl (run_processor L cfg level) ev (butlast (lg_processors cfg))"

text \<open>
  Documented: a call below the level is dropped; otherwise each processor gets what the one before
  returned, and the last one renders.  The two processors that format tracebacks work on their own
  four keys.
\<close>

definition traceback_keys :: "string list" where
  "traceback_keys = [''stack'', ''stack_info'', ''exception'', ''exc_info'']"

definition structlog_laws :: "structlog \<Rightarrow> bool" where
  "structlog_laws L \<longleftrightarrow>
     (\<forall>cfg level ev. lg_processors cfg \<noteq> [] \<longrightarrow>
        sl_print L cfg level ev =
          (if level < lg_level cfg then None
           else Some (sl_render L (last (lg_processors cfg)) (rendered_event L cfg level ev))))
     \<and> (\<forall>p cfg level ev k. p \<in> {StackInfoRenderer, FormatExcInfo} \<longrightarrow> k \<notin> set traceback_keys \<longrightarrow>
          map_of (sl_process L p cfg level ev) k = map_of ev k)"

lemma traceback_not_secret: "k \<in> set traceback_keys \<Longrightarrow> \<not> secret_key k"
proof -
  have "list_all (\<lambda>k. \<not> secret_key k) traceback_keys" by code_simp
  then show "k \<in> set traceback_keys \<Longrightarrow> \<not> secret_key k" by (auto simp: list_all_iff)
qed

text \<open>Whatever is printed was rendered from an event without a secret.\<close>

lemma rendered_redacted:
  assumes "structlog_laws L" "secret_key k" "map_of (rendered_event L (configure_logging s service json_output) level ev) k = Some v"
  shows "v = redacted"
proof -
  define cfg where "cfg = configure_logging s service json_output"
  define before where "before = foldl (run_processor L cfg level) ev [MergeContextvars, AddLogLevel, TimeStamper ''iso'' True]"
  have final: "rendered_event L cfg level ev =
      sl_process L FormatExcInfo cfg level (sl_process L StackInfoRenderer cfg level (redact_secrets before))"
    by (simp add: rendered_event_def cfg_def configure_logging_def before_def run_processor_def)
  have "map_of (sl_process L p cfg level x) k = map_of x k" if "p = StackInfoRenderer \<or> p = FormatExcInfo" for p x
    using assms(1,2) that traceback_not_secret [of k] unfolding structlog_laws_def by blast
  then have "map_of (rendered_event L cfg level ev) k = map_of (redact_secrets before) k" unfolding final by simp
  with assms(2,3) show ?thesis by (cases "map_of before k") (simp_all add: map_of_redact cfg_def)
qed

lemma printed_event:
  assumes "structlog_laws L" "sl_print L (configure_logging s service json_output) level ev = Some line"
  shows "level_value (log_level s) \<le> level"
    "line = sl_render L (if json_output then JSONRenderer else ConsoleRenderer False)
       (rendered_event L (configure_logging s service json_output) level ev)"
  using assms unfolding structlog_laws_def
  by (auto simp: configure_logging_def split: if_splits)

section \<open>An instance\<close>

definition plain_structlog :: structlog where
  "plain_structlog =
     \<lparr> sl_process = (\<lambda>p cfg level ev. if p = MergeContextvars then (''service'', lg_service cfg) # ev else ev),
       sl_render = (\<lambda>p ev. concat (map (\<lambda>(k, v). k @ ''='' @ v @ '' '') ev)),
       sl_print = (\<lambda>cfg level ev.
         if level < lg_level cfg then None
         else Some (concat (map (\<lambda>(k, v). k @ ''='' @ v @ '' '')
           (foldl (\<lambda>ev p. if p = RedactSecrets then redact_secrets ev
                          else if p = MergeContextvars then (''service'', lg_service cfg) # ev else ev)
             ev (butlast (lg_processors cfg)))))) \<rparr>"

lemma plain_structlog_laws: "structlog_laws plain_structlog"
proof -
  have "run_processor plain_structlog cfg level = (\<lambda>ev p. if p = RedactSecrets then redact_secrets ev
      else if p = MergeContextvars then (''service'', lg_service cfg) # ev else ev)" for cfg level
    by (intro ext) (simp add: run_processor_def plain_structlog_def)
  then show ?thesis by (auto simp: structlog_laws_def rendered_event_def) (simp_all add: plain_structlog_def)
qed

end
