(* ===== verification/Deployment_Properties.thy ===== *)
theory Deployment_Properties
  imports Schema Startup Key_Examples Log_Chain
begin

text \<open>
  Properties of what surrounds the packet path: the migrated database, the start and the stop of
  the services, provisioned keys and the configured log.
\<close>

section \<open>The database\<close>

lemma migrated:
  assumes "revision_free c"
  shows "run_migrations False s upgrade c = (Inr (Applied (postgres_sync_dsn s)), c @ revision_tables)"
    and "run_migrations False s downgrade (c @ revision_tables) = (Inr (Applied (postgres_sync_dsn s)), c)"
  using upgrade_beside [OF assms] downgrade_beside [OF assms]
  by (simp_all add: run_migrations_def run_migrations_online_def)

lemma migrated_table:
  assumes "revision_free c" "n \<in> {''settlements'', ''rejected_packets''}"
  shows "map_of (c @ revision_tables) n = map_of revision_tables n"
proof -
  have "n \<notin> taken c" using assms by (auto simp: revision_free_def downgrade_def)
  then show ?thesis by (simp add: map_add_def map_of_not_taken split: option.split)
qed

text \<open>C32. The migrated database is the one the models declare: on any database where the names are
  free, the revision creates both tables with the declared columns, constraints and indexes, leaves
  every other table as it was, and its downgrade restores the database.\<close>

theorem migrations_match_the_models:
  assumes "revision_free c"
  shows "\<exists>db. run_migrations False s upgrade c = (Inr (Applied (postgres_sync_dsn s)), db)
    \<and> (\<forall>(name, declared) \<in> set metadata. \<exists>t. map_of db name = Some t \<and> same_table t declared)
    \<and> (\<forall>name. name \<notin> fst ` set metadata \<longrightarrow> map_of db name = map_of c name)
    \<and> run_migrations False s downgrade db = (Inr (Applied (postgres_sync_dsn s)), c)"
proof (intro exI conjI)
  let ?db = "c @ revision_tables"
  show "run_migrations False s upgrade c = (Inr (Applied (postgres_sync_dsn s)), ?db)"
    "run_migrations False s downgrade ?db = (Inr (Applied (postgres_sync_dsn s)), c)"
    using migrated [OF assms] by auto
  show "\<forall>(name, declared) \<in> set metadata. \<exists>t. map_of ?db name = Some t \<and> same_table t declared"
    using revision_same by (simp add: metadata_def migrated_table [OF assms] del: map_of_append)
  have "map_of revision_tables name = None" if "name \<notin> fst ` set metadata" for name
    using that revision_table_names by (auto simp: metadata_def map_of_eq_None_iff simp flip: list.set_map)
  then show "\<forall>name. name \<notin> fst ` set metadata \<longrightarrow> map_of ?db name = map_of c name"
    by (simp add: map_add_def split: option.split)
qed

theorem migrations_match_the_models_witness:
  "\<exists>db. run_migrations False default_settings upgrade [] = (Inr (Applied (postgres_sync_dsn default_settings)), db)
    \<and> run_migrations False default_settings downgrade db = (Inr (Applied (postgres_sync_dsn default_settings)), [])"
proof -
  have "revision_free []" by (simp add: revision_free_def)
  from migrations_match_the_models [OF this, of default_settings] show ?thesis by blast
qed

text \<open>C21. The migrated database enforces what settlement relies on: an insert into the migrated table,
  with its columns, checks and unique constraints read from the schema, accepts, refuses and stores
  exactly what the insert of the model does.\<close>

theorem migrated_database_enforces_the_model:
  assumes "run_migrations False s upgrade c = (Inr out, db)" and "revision_free c"
    and "map_of db ''settlements'' = Some t" and "tables_ok tb" and "0 \<le> next_id tb" and "next_id tb < 2 ^ 63"
  shows "sql_insert t (next_id tb) now (settlement_cells r) (map stored_cells (settlements tb)) =
    (case insert_settlement r now tb of
       (Inl e, _) \<Rightarrow> Inl e
     | (Inr n, tb') \<Rightarrow> Inr (map stored_cells (settlements tb')))"
proof -
  have "map_of revision_tables ''settlements'' = Some t"
    using assms(1,3) migrated(1) [OF assms(2)] migrated_table [OF assms(2), of "''settlements''"] by simp
  then have "same_table t settlements_model" using revision_same(1) by auto
  from sql_insert_settlement [OF this assms(4) _ assms(6)] assms(5) show ?thesis by simp
qed

definition ex_row :: settlement_row where
  "ex_row = settlement_of ex_packet ex_instruction (idempotency_key ex_packet)"

theorem migrated_database_enforces_the_model_witness:
  "\<exists>t. map_of (snd (run_migrations False default_settings upgrade [])) ''settlements'' = Some t
    \<and> sql_insert t 2 ex_now (settlement_cells ex_row) (map stored_cells (settlements (snd (insert_settlement ex_row ex_now empty_tables))))
      = Inl IntegrityError"
proof -
  have free: "revision_free []" by (simp add: revision_free_def)
  obtain t where t: "map_of (snd (run_migrations False default_settings upgrade [])) ''settlements'' = Some t"
    using revision_same(1) by (auto simp: migrated(1) [OF free])
  have store: "settlement_storable ex_row" "settlement_checks ex_row"
    unfolding ex_row_def using settlement_of_storable [OF ex_packet_wf ex_instruction_wf]
    by (simp_all add: hop_count_def ex_packet_fields)
  define tb where "tb = snd (insert_settlement ex_row ex_now empty_tables)"
  have "tables_ok tb" unfolding tb_def by (rule insert_settlement_ok [OF empty_tables_ok])
  moreover have "next_id tb = 2" "settlement_conflicts ex_row tb"
    unfolding tb_def using store by (simp_all add: insert_settlement_def Let_def empty_tables_def settlement_conflicts_def)
  ultimately have tb: "tables_ok tb" "next_id tb = 2" "settlement_conflicts ex_row tb" by blast+
  from migrated_database_enforces_the_model [OF _ free t tb(1), of default_settings] tb store t show ?thesis
    unfolding tb_def [symmetric]
    by (intro exI [of _ t]) (simp add: migrated(1) [OF free] insert_settlement_def Let_def)
qed

section \<open>Coming up and going down\<close>

text \<open>C31. Nothing stays open: when a service came to serve and nothing fails after serving ended, every
  HTTP client, engine, Redis client and AMQP connection it opened is closed again.\<close>

theorem shutdown_releases_everything:
  assumes "p \<in> {relay_lifespan s, sender_lifespan s, ui_lifespan s, bridge_lifespan s, settlement_lifespan c s kc}"
    and "path p h res" and "served h" and "shutdown_ok h"
  shows "held h = {}"
proof -
  from assms(1) consider (http) service timeout up ev down where "p = http_lifespan service timeout up ev down"
    | (bridge) "p = bridge_lifespan s" | (settlement) "p = settlement_lifespan c s kc"
    using http_lifespans [of s] by blast
  then show ?thesis
    using assms(2-4) http_released bridge_released settlement_released by cases blast+
qed

theorem shutdown_releases_everything_witness:
  "held [(ConfigureLogging ''ui'', BootDone), (OpenHttpClient 15, BootDone), (Assign ''http_client'', BootDone),
      (BootLog ''ui.startup'' [(''sender_url'', ''http://localhost:8001''), (''settlement_url'', ''http://localhost:8004'')], BootDone),
      (Serve, BootFailed (OtherError ''CancelledError'')), (CloseHttpClient, BootDone), (BootLog ''ui.shutdown'' [], BootDone)] = {}"
  (is "held ?h = {}")
proof -
  have "path (ui_lifespan default_settings) ?h (Inl (OtherError ''CancelledError''))"
    by (simp add: ui_lifespan_def boot_def assign_def announce_def serving_def path_Do_iff default_settings_def)
  then show ?thesis
    by (rule shutdown_releases_everything [of _ default_settings key_crypto empty_key_cache, rotated])
      (simp_all add: boot_failed_def)
qed

text \<open>C30. Settlement serves only when it can settle: before it serves, both of its keys have loaded, the
  broker has confirmed the consumer on the configured queue, and every dependency of the routes (the
  session factory, the dedupe store, the metrics and the running consumer) finds the attribute of
  \<^verbatim>\<open>app.state\<close> it reads, so no route refuses or sees a missing consumer.  The claims its
  processor sets expire after the configured time, which is positive, and its markers after the time
  configured for them (which \<^verbatim>\<open>Settings\<close> does not constrain).\<close>

theorem settlement_serves_only_when_ready:
  assumes "path (settlement_lifespan c s kc) h res" and "served h" and "settings_ok s"
  shows "(\<exists>sender_key private_key. fst (sender_signing_public_key c s kc) = Inr sender_key
      \<and> fst (settlement_rsa_private_key c s kc) = Inr private_key
      \<and> pr_dedupe (wired_processor pd c depth s sender_key private_key)
          = \<lparr> claim_ttl = dedupe_claim_ttl_seconds s, settled_ttl = dedupe_ttl_seconds s \<rparr>
      \<and> 0 < dedupe_claim_ttl_seconds s)
    \<and> (\<exists>r. (BootAmqp (Consume (settlement_queue s)), r) \<in> set (preparation h) \<and> \<not> boot_failed r)
    \<and> (\<forall>d. settlement_override d (app_state_after (preparation h)) = Inr (Some ()))"
proof -
  have "pr_dedupe (wired_processor pd c depth s a b)
      = \<lparr> claim_ttl = dedupe_claim_ttl_seconds s, settled_ttl = dedupe_ttl_seconds s \<rparr>" for a b
    by (simp add: wired_processor_def new_processor_def new_dedupe_store_def or_default_def)
  moreover have "0 < dedupe_claim_ttl_seconds s" using assms(3) by (simp add: settings_ok_def)
  ultimately show ?thesis
    using settlement_keys [OF assms(1,2)] settlement_prepared [OF assms(1,2)]
      settlement_dependencies_found [OF assms(1,2)] by blast
qed

text \<open>Every command of a start answered without an error.\<close>

definition obliging :: "boot_cmd \<Rightarrow> unit \<Rightarrow> boot_reply \<times> unit" where
  "obliging c u = (BootDone, u)"

lemma ex_settlement_runs:
  "\<exists>h. path (settlement_lifespan key_crypto ex_settings empty_key_cache) h (Inr ()) \<and> served h"
proof -
  obtain sk rk where keys: "fst (sender_signing_public_key key_crypto ex_settings empty_key_cache) = Inr (ed25519_public key_crypto sk)"
    "fst (settlement_rsa_private_key key_crypto ex_settings empty_key_cache) = Inr rk"
    using provisioned_keys [OF key_crypto_round_trip reference_env_reader ex_built ex_configured] by blast
  let ?p = "settlement_lifespan key_crypto ex_settings empty_key_cache"
  have "fst (run obliging ?p ()) = Inr ()" "served (trace obliging ?p ())"
    unfolding settlement_lifespan_def keys
    by (simp_all add: boot_def on_amqp_def start_def awaiting_def obliging_def settlement_attributes_def assign_def
        announce_def serving_def stop_def consumer_after_def close_connection_def finish_stop_def Let_def)
  then show ?thesis using path_trace [of ?p obliging "()"] by metis
qed

theorem settlement_serves_only_when_ready_witness:
  "\<exists>h. path (settlement_lifespan key_crypto ex_settings empty_key_cache) h (Inr ())
    \<and> (\<exists>r. (BootAmqp (Consume ''meshsettle.settlements''), r) \<in> set (preparation h) \<and> \<not> boot_failed r)
    \<and> settlement_override Metrics (app_state_after (preparation h)) = Inr (Some ())"
proof -
  obtain h where h: "path (settlement_lifespan key_crypto ex_settings empty_key_cache) h (Inr ())" "served h"
    using ex_settlement_runs by blast
  have "settings_ok ex_settings" using default_settings_ok by (simp add: ex_settings_def settings_ok_def)
  from settlement_serves_only_when_ready [OF h this, of reference_pydantic 16]
  have "(\<exists>r. (BootAmqp (Consume (settlement_queue ex_settings)), r) \<in> set (preparation h) \<and> \<not> boot_failed r)
    \<and> settlement_override Metrics (app_state_after (preparation h)) = Inr (Some ())" by blast
  moreover have "settlement_queue ex_settings = ''meshsettle.settlements''"
    by (simp add: ex_settings_def default_settings_def)
  ultimately show ?thesis using h(1) by auto
qed

section \<open>Keys and logs\<close>

text \<open>C22. A provisioned system works: services configured from the files the bootstrap script writes load
  all four keys, and a packet made with the sender's loaded keys verifies and opens under
  settlement's loaded keys.\<close>

theorem provisioned_services_agree:
  assumes "pem_round_trip c g" and "env_reader rd" and "signs_correctly c" and "seals_correctly c"
    and "build_files c g en = Inr (env, infra)" and "configured_from rd env s"
    and "reads_scalars pd" and "wf_instruction ins" and "fresh_ok fr" and "1 \<le> limit"
  shows "\<exists>sk pk vk rk. fst (sender_signing_private_key c s empty_key_cache) = Inr sk
    \<and> fst (settlement_rsa_public_key c s empty_key_cache) = Inr pk
    \<and> fst (sender_signing_public_key c s empty_key_cache) = Inr vk
    \<and> fst (settlement_rsa_private_key c s empty_key_cache) = Inr rk
    \<and> (\<forall>p. create pd' c fr ins sender sk pk created = Inr p \<longrightarrow>
         verify c p vk = None \<and> open_instruction pd c limit p rk = Inr ins)"
proof -
  from provisioned_keys [OF assms(1,2,5,6)] obtain sk rk where keys:
    "fst (sender_signing_private_key c s empty_key_cache) = Inr sk"
    "fst (sender_signing_public_key c s empty_key_cache) = Inr (ed25519_public c sk)"
    "fst (settlement_rsa_private_key c s empty_key_cache) = Inr rk"
    "fst (settlement_rsa_public_key c s empty_key_cache) = Inr (rsa_public c rk)" by blast
  then show ?thesis
    using create_verifies [OF _ assms(3)] create_opens [OF _ assms(4,9,7,8,10)] by blast
qed

theorem provisioned_services_agree_witness:
  "\<exists>sk pk vk rk p. fst (sender_signing_private_key key_crypto ex_settings empty_key_cache) = Inr sk
    \<and> create reference_pydantic key_crypto ex_fresh ex_instruction ''sender-1'' sk pk (utc_datetime ex_now) = Inr p
    \<and> verify key_crypto p vk = None \<and> open_instruction reference_pydantic key_crypto 16 p rk = Inr ex_instruction"
proof -
  obtain sk pk vk rk where keys: "fst (sender_signing_private_key key_crypto ex_settings empty_key_cache) = Inr sk"
    and works: "\<And>p. create reference_pydantic key_crypto ex_fresh ex_instruction ''sender-1'' sk pk (utc_datetime ex_now) = Inr p \<Longrightarrow>
      verify key_crypto p vk = None \<and> open_instruction reference_pydantic key_crypto 16 p rk = Inr ex_instruction"
    using provisioned_services_agree [OF key_crypto_round_trip reference_env_reader key_crypto_laws ex_built ex_configured
      reference_reads_scalars ex_instruction_wf ex_fresh_ok, where limit = 16 and pd' = reference_pydantic
        and sender = "''sender-1''" and created = "utc_datetime ex_now"] by auto
  have "rsa_public key_crypto pk = pk" by (simp add: key_crypto_def reference_crypto_def)
  with create_succeeds [OF key_crypto_laws ex_fresh_ok ex_identifiers(1) normalize_utc_datetime [OF ex_valid_now],
      of reference_pydantic ex_instruction sk pk] keys works show ?thesis by metis
qed

text \<open>C33. No secret is printed: under the configured logging, whatever line is printed is at or above the
  configured level and was rendered from an event in which every field with a secret-looking name
  holds the placeholder, also a field that was bound to the context.\<close>

theorem no_secret_is_printed:
  assumes "structlog_laws L" and "sl_print L (configure_logging s service json_output) level ev = Some line"
  shows "level_value (log_level s) \<le> level
    \<and> line = sl_render L (if json_output then JSONRenderer else ConsoleRenderer False)
        (rendered_event L (configure_logging s service json_output) level ev)
    \<and> (\<forall>k v. secret_key k \<longrightarrow> map_of (rendered_event L (configure_logging s service json_output) level ev) k = Some v
         \<longrightarrow> v = redacted)"
  using printed_event [OF assms] rendered_redacted [OF assms(1)] by blast

theorem no_secret_is_printed_witness:
  "\<exists>line. sl_print plain_structlog (configure_logging default_settings ''bridge'' True) 30
      [(''event'', ''up''), (''rabbitmq_password'', ''hunter2'')] = Some line
    \<and> map_of (rendered_event plain_structlog (configure_logging default_settings ''bridge'' True) 30
        [(''event'', ''up''), (''rabbitmq_password'', ''hunter2'')]) ''rabbitmq_password'' \<noteq> Some ''hunter2''"
proof -
  obtain line where line: "sl_print plain_structlog (configure_logging default_settings ''bridge'' True) 30
      [(''event'', ''up''), (''rabbitmq_password'', ''hunter2'')] = Some line"
    by (simp add: plain_structlog_def configure_logging_def level_value_def default_settings_def)
  have "secret_key ''rabbitmq_password''" "redacted \<noteq> ''hunter2''" by (code_simp, simp add: redacted_def)
  with no_secret_is_printed [OF plain_structlog_laws line] line show ?thesis by metis
qed

end
