(* ===== verification/Apps.thy ===== *)
theory Apps
  imports Sender Mesh_Relay Startup
begin

text \<open>
  \<^verbatim>\<open>create_app\<close> of the sender, the relays and the bridge: which request reaches which
  route, what the route's dependencies resolve to, and the limit in front of it.  A request is one
  step on the state an application keeps between requests, its cached keys and the counters of the
  limiter.  FastAPI's reading of a body and slowapi's decision are parameters.
\<close>

section \<open>Requests\<close>

record http_request =
  rq_method :: string
  rq_path :: string
  rq_query :: string
  rq_client :: string
  rq_body :: bytes

text \<open>
  What FastAPI makes of a body: text that is not JSON is refused before any dependency is resolved,
  a document that does not validate after all of them are.
\<close>

datatype 'a body =
    Unreadable "verr list"
  | Unfit "verr list"
  | Fit 'a

text \<open>The limiter sees the limit of the route and the request; it answers the detail of a refusal.\<close>

type_synonym 'l limiter = "string \<Rightarrow> http_request \<Rightarrow> 'l \<Rightarrow> string option \<times> 'l"

record 'l framework =
  fw_packet :: "bytes \<Rightarrow> packet body"
  fw_request :: "bytes \<Rightarrow> transaction_request body"
  fw_limiter :: "'l limiter"

text \<open>\<^verbatim>\<open>@limiter.limit(f"{settings.rate_limit_per_minute}/minute")\<close>.\<close>

definition rate_limit :: "settings \<Rightarrow> string" where
  "rate_limit s = show_int (rate_limit_per_minute s) @ ''/minute''"

section \<open>Dependencies\<close>

type_synonym 'd dependency = "key_cache \<Rightarrow> (exn + 'd) \<times> key_cache"

definition given :: "exn + 'd \<Rightarrow> 'd dependency" where
  "given r = (\<lambda>kc. (r, kc))"

text \<open>Dependencies are resolved in the order of the parameters; the first failure ends it.\<close>

definition and_then :: "'d dependency \<Rightarrow> 'e dependency \<Rightarrow> ('d \<times> 'e) dependency" where
  "and_then d e kc =
     (case d kc of
        (Inl x, kc') \<Rightarrow> (Inl x, kc')
      | (Inr a, kc') \<Rightarrow> (case e kc' of (Inl x, kc'') \<Rightarrow> (Inl x, kc'') | (Inr b, kc'') \<Rightarrow> (Inr (a, b), kc'')))"

definition get_sender_public_key :: "crypto \<Rightarrow> settings \<Rightarrow> bytes dependency" where
  "get_sender_public_key c s = sender_signing_public_key c s"

definition get_signing_key :: "crypto \<Rightarrow> settings \<Rightarrow> bytes dependency" where
  "get_signing_key c s = sender_signing_private_key c s"

definition get_recipient_public_key :: "crypto \<Rightarrow> settings \<Rightarrow> bytes dependency" where
  "get_recipient_public_key c s = settlement_rsa_public_key c s"

definition get_relay_config :: "settings \<Rightarrow> relay_config dependency" where
  "get_relay_config s = given (Inr (relay_config_from_settings s))"

text \<open>The attributes of \<^verbatim>\<open>app.state\<close> that the lifespan sets.\<close>

record node_attributes =
  na_http_client :: "unit option"
  na_publisher :: "rabbit_publisher option"

definition client_from_state :: "node_attributes \<Rightarrow> unit dependency" where
  "client_from_state a = given (http_client True (\<lambda>name. if name = ''http_client'' then na_http_client a else None))"

definition publisher_from_state :: "node_attributes \<Rightarrow> rabbit_publisher dependency" where
  "publisher_from_state a = given (publisher_of True (\<lambda>name. if name = ''publisher'' then na_publisher a else None))"

section \<open>One request\<close>

record 'l app_state =
  ap_keys :: key_cache
  ap_limits :: 'l

text \<open>\<^verbatim>\<open>_invalid_request\<close>.\<close>

definition invalid_request :: "string \<Rightarrow> verr list \<Rightarrow> http_json route" where
  "invalid_request service errs =
     say ''warning'' (service @ ''.packet_rejected'') [(''reason'', error_code_value MALFORMED_PAYLOAD)]
       (Ret (error_answer MALFORMED_PAYLOAD (first_validation_message errs) 422))"

text \<open>
  A route with its dependencies, its body and its limit.  An exception of a dependency has no
  handler: it leaves the application.
\<close>

definition routed ::
  "'l limiter \<Rightarrow> settings \<Rightarrow> string \<Rightarrow> http_request \<Rightarrow> 'd dependency \<Rightarrow> 'a body \<Rightarrow> ('d \<Rightarrow> 'a incoming \<Rightarrow> http_json route)
   \<Rightarrow> 'l app_state \<Rightarrow> http_json route \<times> 'l app_state" where
  "routed lmt s service rq deps body endpoint st =
     (case body of
        Unreadable errs \<Rightarrow> (invalid_request service errs, st)
      | Unfit errs \<Rightarrow>
          (case deps (ap_keys st) of
             (Inl e, kc) \<Rightarrow> (Raise e, st \<lparr> ap_keys := kc \<rparr>)
           | (Inr d, kc) \<Rightarrow> (endpoint d (Invalid errs), st \<lparr> ap_keys := kc \<rparr>))
      | Fit x \<Rightarrow>
          (case deps (ap_keys st) of
             (Inl e, kc) \<Rightarrow> (Raise e, st \<lparr> ap_keys := kc \<rparr>)
           | (Inr d, kc) \<Rightarrow>
               (case lmt (rate_limit s) rq (ap_limits st) of
                  (refused, l) \<Rightarrow>
                    (endpoint d (case refused of None \<Rightarrow> Accepted x | Some detail \<Rightarrow> RateLimited detail),
                     st \<lparr> ap_keys := kc, ap_limits := l \<rparr>))))"

section \<open>The applications\<close>

text \<open>What no route of the application matches is left to the framework: \<^const>\<open>None\<close>.\<close>

type_synonym 'l app = "http_request \<Rightarrow> 'l app_state \<Rightarrow> http_json route option \<times> 'l app_state"

definition ok_json :: "json \<Rightarrow> http_json route" where
  "ok_json j = Ret \<lparr> hj_status = 200, hj_body = j \<rparr>"

definition answered_by :: "http_json route \<times> 'l app_state \<Rightarrow> http_json route option \<times> 'l app_state" where
  "answered_by r = (Some (fst r), snd r)"

definition relay_app :: "'l framework \<Rightarrow> pydantic \<Rightarrow> crypto \<Rightarrow> settings \<Rightarrow> node_attributes \<Rightarrow> 'l app" where
  "relay_app fw pd c s a rq st =
     (if rq_method rq = ''GET'' \<and> rq_path rq = ''/healthz'' then
        (case get_relay_config s (ap_keys st) of
           (Inl e, kc) \<Rightarrow> answered_by (Raise e, st \<lparr> ap_keys := kc \<rparr>)
         | (Inr cfg, kc) \<Rightarrow> answered_by (ok_json (relay_healthz cfg), st \<lparr> ap_keys := kc \<rparr>))
      else if rq_method rq = ''POST'' \<and> rq_path rq = ''/relay'' then
        answered_by (routed (fw_limiter fw) s ''mesh_relay'' rq
          (and_then (get_sender_public_key c s) (and_then (get_relay_config s) (client_from_state a)))
          (fw_packet fw (rq_body rq))
          (\<lambda>(sender_key, config, client). relay_endpoint pd c sender_key config) st)
      else (None, st))"

definition bridge_app :: "'l framework \<Rightarrow> pydantic \<Rightarrow> crypto \<Rightarrow> settings \<Rightarrow> node_attributes \<Rightarrow> 'l app" where
  "bridge_app fw pd c s a rq st =
     (if rq_method rq = ''GET'' \<and> rq_path rq = ''/healthz'' then answered_by (ok_json bridge_healthz, st)
      else if rq_method rq = ''POST'' \<and> rq_path rq = ''/bridge'' then
        answered_by (routed (fw_limiter fw) s ''bridge'' rq
          (and_then (get_sender_public_key c s) (publisher_from_state a))
          (fw_packet fw (rq_body rq))
          (\<lambda>(sender_key, publisher). bridge_endpoint pd c sender_key (rp_queue publisher)) st)
      else (None, st))"

definition sender_app ::
  "'l framework \<Rightarrow> pydantic \<Rightarrow> crypto \<Rightarrow> nat \<Rightarrow> (string \<Rightarrow> exn + int) \<Rightarrow> settings \<Rightarrow> node_attributes \<Rightarrow> 'l app" where
  "sender_app fw pd c limit trunc s a rq st =
     (if rq_method rq = ''GET'' \<and> rq_path rq = ''/healthz'' then answered_by (ok_json sender_healthz, st)
      else if rq_method rq = ''POST'' \<and> rq_path rq = ''/packets'' then
        answered_by (routed (fw_limiter fw) s ''sender'' rq
          (and_then (get_signing_key c s) (get_recipient_public_key c s))
          (fw_request fw (rq_body rq))
          (\<lambda>(signing_key, recipient_key). create_endpoint pd c signing_key recipient_key) st)
      else if rq_method rq = ''POST'' \<and> rq_path rq = ''/packets/submit'' then
        answered_by (routed (fw_limiter fw) s ''sender'' rq
          (and_then (get_signing_key c s) (and_then (get_recipient_public_key c s)
             (and_then (client_from_state a) (given (Inr (get_mesh_entrypoint s))))))
          (fw_request fw (rq_body rq))
          (\<lambda>(signing_key, recipient_key, client, mesh_entrypoint).
             submit_endpoint pd c limit trunc signing_key recipient_key mesh_entrypoint) st)
      else (None, st))"

fun served_requests :: "'l app \<Rightarrow> http_request list \<Rightarrow> 'l app_state \<Rightarrow> http_json route option list \<times> 'l app_state" where
  "served_requests app [] st = ([], st)"
| "served_requests app (rq # rqs) st =
     (case app rq st of (r, st') \<Rightarrow> (case served_requests app rqs st' of (rs, st'') \<Rightarrow> (r # rs, st'')))"

section \<open>Cached keys\<close>

text \<open>
  A dependency that caches: over a coherent cache it gives what it would give without one, and it
  leaves the cache coherent.
\<close>

locale cached_dependency =
  fixes coherent :: "key_cache \<Rightarrow> bool" and d :: "'d dependency"
  assumes transparent: "coherent kc \<Longrightarrow> coherent kc' \<Longrightarrow> fst (d kc) = fst (d kc')"
    and keeps: "coherent kc \<Longrightarrow> coherent (snd (d kc))"
begin

lemma routed_transparent:
  assumes "coherent (ap_keys st)" "coherent (ap_keys st')" "ap_limits st = ap_limits st'"
  shows "fst (routed lmt s service rq d b endpoint st) = fst (routed lmt s service rq d b endpoint st')"
    and "ap_limits (snd (routed lmt s service rq d b endpoint st)) = ap_limits (snd (routed lmt s service rq d b endpoint st'))"
    and "coherent (ap_keys (snd (routed lmt s service rq d b endpoint st)))"
proof -
  obtain r kc where d: "d (ap_keys st) = (r, kc)" by fastforce
  obtain kc' where d': "d (ap_keys st') = (r, kc')" using transparent [OF assms(1,2)] d by (cases "d (ap_keys st')") simp
  have "coherent kc" using keeps [OF assms(1)] d by simp
  then show "fst (routed lmt s service rq d b endpoint st) = fst (routed lmt s service rq d b endpoint st')"
    "ap_limits (snd (routed lmt s service rq d b endpoint st)) = ap_limits (snd (routed lmt s service rq d b endpoint st'))"
    "coherent (ap_keys (snd (routed lmt s service rq d b endpoint st)))"
    using assms d d' by (simp_all add: routed_def split: body.split sum.split prod.split)
qed

end

lemma cached_given: "cached_dependency P (given r)"
  by unfold_locales (simp_all add: given_def)

lemma cached_and_then:
  assumes d: "cached_dependency P d" and e: "cached_dependency P e"
  shows "cached_dependency P (and_then d e)"
proof (rule cached_dependency.intro)
  fix kc assume kc: "P kc"
  obtain r kc1 where r: "d kc = (r, kc1)" by fastforce
  have kc1: "P kc1" using cached_dependency.keeps [OF d kc] r by simp
  then show "P (snd (and_then d e kc))"
    using cached_dependency.keeps [OF e kc1] by (simp add: and_then_def r split: sum.split prod.split) auto
  fix kc' assume kc': "P kc'"
  obtain kc2 where r': "d kc' = (r, kc2)"
    using cached_dependency.transparent [OF d kc kc'] r by (cases "d kc'") simp
  have kc2: "P kc2" using cached_dependency.keeps [OF d kc'] r' by simp
  show "fst (and_then d e kc) = fst (and_then d e kc')"
    using cached_dependency.transparent [OF e kc1 kc2]
    by (cases "e kc1"; cases "e kc2") (simp add: and_then_def r r' split: sum.split)
qed

text \<open>A slot of the cache holds nothing, or the key that the settings give.\<close>

definition slot_ok :: "bytes option \<Rightarrow> exn + bytes \<Rightarrow> bool" where
  "slot_ok slot loaded = (case slot of None \<Rightarrow> True | Some k \<Rightarrow> loaded = Inr k)"

lemma slot_ok_facts:
  "slot_ok slot loaded \<Longrightarrow> cached slot loaded = loaded" "slot_ok None loaded" "slot_ok (keep loaded) loaded"
  by (auto simp: slot_ok_def cached_def keep_def split: option.splits sum.splits)

definition keys_coherent :: "crypto \<Rightarrow> settings \<Rightarrow> key_cache \<Rightarrow> bool" where
  "keys_coherent c s kc \<longleftrightarrow>
     slot_ok (sender_private kc) (load_signing_private_key c (normalize_pem (sender_signing_private_key_pem s)))
     \<and> slot_ok (sender_public kc) (load_signing_public_key c (normalize_pem (sender_signing_public_key_pem s)))
     \<and> slot_ok (settlement_private kc) (load_rsa_private_key c (normalize_pem (settlement_rsa_private_key_pem s)))
     \<and> slot_ok (settlement_public kc) (load_rsa_public_key c (normalize_pem (settlement_rsa_public_key_pem s)))"

lemma empty_keys_coherent: "keys_coherent c s empty_key_cache"
  by (simp add: keys_coherent_def empty_key_cache_def slot_ok_facts)

interpretation verification_key: cached_dependency "keys_coherent c s" "get_sender_public_key c s" for c s
  by unfold_locales (simp_all add: get_sender_public_key_def sender_signing_public_key_def keys_coherent_def slot_ok_facts Let_def)

interpretation signing_key: cached_dependency "keys_coherent c s" "get_signing_key c s" for c s
  by unfold_locales (simp_all add: get_signing_key_def sender_signing_private_key_def keys_coherent_def slot_ok_facts Let_def)

interpretation recipient_key: cached_dependency "keys_coherent c s" "get_recipient_public_key c s" for c s
  by unfold_locales (simp_all add: get_recipient_public_key_def settlement_rsa_public_key_def keys_coherent_def slot_ok_facts Let_def)

lemmas cached_dependencies =
  cached_and_then cached_given verification_key.cached_dependency_axioms signing_key.cached_dependency_axioms
  recipient_key.cached_dependency_axioms

section \<open>Requests do not influence one another\<close>

text \<open>An application that answers over a coherent cache as it would over an empty one.\<close>

locale coherent_app =
  fixes coherent :: "key_cache \<Rightarrow> bool" and app :: "'l app"
  assumes same_answer: "coherent (ap_keys st) \<Longrightarrow> coherent (ap_keys st') \<Longrightarrow> ap_limits st = ap_limits st' \<Longrightarrow>
      fst (app rq st) = fst (app rq st')"
    and same_limits: "coherent (ap_keys st) \<Longrightarrow> coherent (ap_keys st') \<Longrightarrow> ap_limits st = ap_limits st' \<Longrightarrow>
      ap_limits (snd (app rq st)) = ap_limits (snd (app rq st'))"
    and stays_coherent: "coherent (ap_keys st) \<Longrightarrow> coherent (ap_keys (snd (app rq st)))"
    and empty_coherent: "coherent empty_key_cache"
begin

lemma without_cache:
  assumes "coherent (ap_keys st)" "coherent (ap_keys st')" "ap_limits st = ap_limits st'"
  shows "fst (served_requests app rqs st) = fst (served_requests (\<lambda>rq st. app rq (st \<lparr> ap_keys := empty_key_cache \<rparr>)) rqs st')"
  using assms
proof (induction rqs arbitrary: st st')
  case (Cons rq rqs)
  let ?st' = "st' \<lparr> ap_keys := empty_key_cache \<rparr>"
  have e: "coherent (ap_keys ?st')" "ap_limits st = ap_limits ?st'" using Cons.prems empty_coherent by simp_all
  obtain r st1 where a: "app rq st = (r, st1)" by fastforce
  obtain st2 where b: "app rq ?st' = (r, st2)"
    using same_answer [OF Cons.prems(1) e, of rq] a by (cases "app rq ?st'") simp
  have "coherent (ap_keys st1)" using stays_coherent [OF Cons.prems(1), of rq] a by simp
  moreover have "coherent (ap_keys st2)" using stays_coherent [OF e(1), of rq] b by simp
  moreover have "ap_limits st1 = ap_limits st2" using same_limits [OF Cons.prems(1) e, of rq] a b by simp
  ultimately show ?case using Cons.IH [of st1 st2] by (simp add: a b split_beta)
qed simp

end

lemma relay_healthz_config: "get_relay_config s kc = (Inr (relay_config_from_settings s), kc)"
  by (simp add: get_relay_config_def given_def)

lemmas app_simps = answered_by_def relay_healthz_config get_relay_config_def client_from_state_def publisher_from_state_def

interpretation relays: coherent_app "keys_coherent c s" "relay_app fw pd c s a" for fw pd c s a
proof -
  have "cached_dependency (keys_coherent c s) (and_then (get_sender_public_key c s) (and_then (get_relay_config s) (client_from_state a)))"
    unfolding get_relay_config_def client_from_state_def by (intro cached_dependencies)
  note routed = cached_dependency.routed_transparent [OF this]
  show "coherent_app (keys_coherent c s) (relay_app fw pd c s a)"
    by unfold_locales
      (auto simp: relay_app_def answered_by_def relay_healthz_config empty_keys_coherent intro: routed)
qed

interpretation bridges: coherent_app "keys_coherent c s" "bridge_app fw pd c s a" for fw pd c s a
proof -
  have "cached_dependency (keys_coherent c s) (and_then (get_sender_public_key c s) (publisher_from_state a))"
    unfolding publisher_from_state_def by (intro cached_dependencies)
  note routed = cached_dependency.routed_transparent [OF this]
  show "coherent_app (keys_coherent c s) (bridge_app fw pd c s a)"
    by unfold_locales (auto simp: bridge_app_def answered_by_def empty_keys_coherent intro: routed)
qed

interpretation senders: coherent_app "keys_coherent c s" "sender_app fw pd c limit trunc s a" for fw pd c limit trunc s a
proof -
  have "cached_dependency (keys_coherent c s) (and_then (get_signing_key c s) (get_recipient_public_key c s))"
    "cached_dependency (keys_coherent c s) (and_then (get_signing_key c s) (and_then (get_recipient_public_key c s)
       (and_then (client_from_state a) (given (Inr (get_mesh_entrypoint s))))))"
    unfolding client_from_state_def by (intro cached_dependencies)+
  note routed = this [THEN cached_dependency.routed_transparent(1)] this [THEN cached_dependency.routed_transparent(2)]
    this [THEN cached_dependency.routed_transparent(3)]
  show "coherent_app (keys_coherent c s) (sender_app fw pd c limit trunc s a)"
    by unfold_locales (auto simp: sender_app_def answered_by_def empty_keys_coherent intro: routed)
qed

section \<open>What a request may do\<close>

fun says :: "node_cmd \<Rightarrow> bool" where
  "says (Say l n ev) = True"
| "says c = False"

lemma serve_refused:
  assumes "path (serve service render log_error route req) h res" "\<And>x. req \<noteq> Accepted x"
  shows "list_all (says \<circ> fst) h"
  using assms by (cases req) (auto simp: serve_def)

lemma invalid_request_says: "path (invalid_request service errs) h res \<Longrightarrow> list_all (says \<circ> fst) h"
  by (auto simp: invalid_request_def)

text \<open>An endpoint that only logs when the framework refused the request.\<close>

definition refuses_quietly :: "('d \<Rightarrow> 'a incoming \<Rightarrow> http_json route) \<Rightarrow> bool" where
  "refuses_quietly endpoint \<longleftrightarrow>
     (\<forall>d req h res. (\<forall>x. req \<noteq> Accepted x) \<longrightarrow> path (endpoint d req) h res \<longrightarrow> list_all (says \<circ> fst) h)"

lemma quiet_endpoints:
  "refuses_quietly (\<lambda>(key, cfg, cl). relay_endpoint pd c key cfg)"
  "refuses_quietly (\<lambda>(key, pub). bridge_endpoint pd c key (rp_queue pub))"
  "refuses_quietly (\<lambda>(sk, pk). create_endpoint pd c sk pk)"
  "refuses_quietly (\<lambda>(sk, pk, cl, url). submit_endpoint pd c limit trunc sk pk url)"
  using serve_refused
  unfolding refuses_quietly_def relay_endpoint_def bridge_endpoint_def create_endpoint_def submit_endpoint_def split_beta
  by blast+

lemma refuses_quietlyD:
  "refuses_quietly endpoint \<Longrightarrow> path (endpoint d (Invalid errs)) h res \<Longrightarrow> list_all (says \<circ> fst) h"
  "refuses_quietly endpoint \<Longrightarrow> path (endpoint d (RateLimited detail)) h res \<Longrightarrow> list_all (says \<circ> fst) h"
  unfolding refuses_quietly_def by (metis incoming.distinct(3,5), metis incoming.distinct(3,5))

text \<open>A command other than a log line means that the body fitted, the dependencies resolved and the limiter agreed.\<close>

lemma routed_acts:
  assumes "path (fst (routed lmt s service rq deps b endpoint st)) h res"
    and "refuses_quietly endpoint"
    and "\<not> list_all (says \<circ> fst) h"
  shows "\<exists>x d. b = Fit x \<and> fst (deps (ap_keys st)) = Inr d \<and> fst (lmt (rate_limit s) rq (ap_limits st)) = None
    \<and> path (endpoint d (Accepted x)) h res"
proof -
  obtain r kc where deps: "deps (ap_keys st) = (r, kc)" by fastforce
  obtain v l where v: "lmt (rate_limit s) rq (ap_limits st) = (v, l)" by fastforce
  show ?thesis
  proof (cases b)
    case (Unreadable errs)
    then show ?thesis using assms(1,3) invalid_request_says by (simp add: routed_def)
  next
    case (Unfit errs)
    show ?thesis
    proof (cases r)
      case (Inr d)
      then have "path (endpoint d (Invalid errs)) h res" using assms(1) by (simp add: routed_def Unfit deps)
      then show ?thesis using refuses_quietlyD(1) [OF assms(2)] assms(3) by simp
    qed (use assms(1,3) in \<open>simp add: routed_def Unfit deps\<close>)
  next
    case (Fit x)
    show ?thesis
    proof (cases r)
      case (Inr d)
      then have p: "path (endpoint d (case v of None \<Rightarrow> Accepted x | Some detail \<Rightarrow> RateLimited detail)) h res"
        using assms(1) by (simp add: routed_def Fit deps v)
      show ?thesis
      proof (cases v)
        case (Some detail)
        then show ?thesis using refuses_quietlyD(2) [OF assms(2)] p assms(3) by simp
      qed (use p Fit deps v Inr in simp)
    qed (use assms(1,3) in \<open>simp add: routed_def Fit deps\<close>)
  qed
qed

lemma and_then_Inr:
  "fst (and_then d e kc) = Inr (x, y) \<longleftrightarrow> fst (d kc) = Inr x \<and> fst (e (snd (d kc))) = Inr y"
  by (cases "d kc"; cases "fst (d kc)"; cases "e (snd (d kc))") (auto simp: and_then_def split: sum.splits)

lemma ok_json_silent [simp]: "path (ok_json j) h res \<longleftrightarrow> h = [] \<and> res = Inr \<lparr> hj_status = 200, hj_body = j \<rparr>"
  by (simp add: ok_json_def)

lemma relay_acts:
  assumes "relay_app fw pd c s a rq st = (Some p, st')" "path p h res" "\<not> list_all (says \<circ> fst) h"
  shows "\<exists>packet key. fw_packet fw (rq_body rq) = Fit packet \<and> fst (get_sender_public_key c s (ap_keys st)) = Inr key
    \<and> fst (fw_limiter fw (rate_limit s) rq (ap_limits st)) = None
    \<and> path (relay_endpoint pd c key (relay_config_from_settings s) (Accepted packet)) h res"
proof -
  let ?deps = "and_then (get_sender_public_key c s) (and_then (get_relay_config s) (client_from_state a))"
  have "p = fst (routed (fw_limiter fw) s ''mesh_relay'' rq ?deps (fw_packet fw (rq_body rq))
      (\<lambda>(sender_key, config, client). relay_endpoint pd c sender_key config) st)"
    using assms by (auto simp: relay_app_def answered_by_def relay_healthz_config split: if_splits)
  from routed_acts [OF assms(2) [unfolded this] quiet_endpoints(1) assms(3)]
  obtain packet key cfg client where r: "fw_packet fw (rq_body rq) = Fit packet"
    "fst (?deps (ap_keys st)) = Inr (key, cfg, client)" "fst (fw_limiter fw (rate_limit s) rq (ap_limits st)) = None"
    "path (relay_endpoint pd c key cfg (Accepted packet)) h res"
    by auto
  then show ?thesis by (auto simp: and_then_Inr relay_healthz_config)
qed

lemma bridge_acts:
  assumes "bridge_app fw pd c s a rq st = (Some p, st')" "path p h res" "\<not> list_all (says \<circ> fst) h"
  shows "\<exists>packet key q. fw_packet fw (rq_body rq) = Fit packet \<and> fst (get_sender_public_key c s (ap_keys st)) = Inr key
    \<and> fst (fw_limiter fw (rate_limit s) rq (ap_limits st)) = None
    \<and> path (bridge_endpoint pd c key q (Accepted packet)) h res"
proof -
  let ?deps = "and_then (get_sender_public_key c s) (publisher_from_state a)"
  have "p = fst (routed (fw_limiter fw) s ''bridge'' rq ?deps (fw_packet fw (rq_body rq))
      (\<lambda>(sender_key, publisher). bridge_endpoint pd c sender_key (rp_queue publisher)) st)"
    using assms by (auto simp: bridge_app_def answered_by_def split: if_splits)
  from routed_acts [OF assms(2) [unfolded this] quiet_endpoints(2) assms(3)]
  show ?thesis by (auto simp: and_then_Inr)
qed

lemma sender_acts:
  assumes "sender_app fw pd c limit trunc s a rq st = (Some p, st')" "path p h res" "\<not> list_all (says \<circ> fst) h"
  shows "\<exists>body key. fw_request fw (rq_body rq) = Fit body \<and> fst (get_signing_key c s (ap_keys st)) = Inr key
    \<and> fst (fw_limiter fw (rate_limit s) rq (ap_limits st)) = None"
proof -
  let ?deps = "and_then (get_signing_key c s) (get_recipient_public_key c s)"
  let ?more = "and_then (get_signing_key c s) (and_then (get_recipient_public_key c s)
       (and_then (client_from_state a) (given (Inr (get_mesh_entrypoint s)))))"
  consider (made) "p = fst (routed (fw_limiter fw) s ''sender'' rq ?deps (fw_request fw (rq_body rq))
        (\<lambda>(signing_key, recipient_key). create_endpoint pd c signing_key recipient_key) st)"
    | (sent) "p = fst (routed (fw_limiter fw) s ''sender'' rq ?more (fw_request fw (rq_body rq))
        (\<lambda>(signing_key, recipient_key, client, mesh_entrypoint).
           submit_endpoint pd c limit trunc signing_key recipient_key mesh_entrypoint) st)"
    using assms by (auto simp: sender_app_def answered_by_def split: if_splits)
  then show ?thesis
  proof cases
    case made
    from routed_acts [OF assms(2) [unfolded made] quiet_endpoints(3) assms(3)]
    show ?thesis by (auto simp: and_then_Inr)
  next
    case sent
    from routed_acts [OF assms(2) [unfolded sent] quiet_endpoints(4) assms(3)]
    show ?thesis by (auto simp: and_then_Inr)
  qed
qed

section \<open>A node without its key\<close>

text \<open>
  The keys of the packet services load with the first packet, not at the start: a node that lacks
  its key reports \<^verbatim>\<open>ok\<close> and lets the loader's exception out of every packet request.
\<close>

lemma routed_without:
  assumes "fst (deps (ap_keys st)) = Inl e" "\<And>errs. b \<noteq> Unreadable errs"
  shows "fst (routed lmt s service rq deps b endpoint st) = Raise e"
  using assms by (cases b; cases "deps (ap_keys st)") (simp_all add: routed_def)

lemma and_then_Inl: "fst (d kc) = Inl e \<Longrightarrow> fst (and_then d e' kc) = Inl e"
  by (cases "d kc") (simp add: and_then_def)

lemma relay_without_key:
  assumes "fst (get_sender_public_key c s (ap_keys st)) = Inl e"
  shows "rq_method rq = ''GET'' \<Longrightarrow> rq_path rq = ''/healthz'' \<Longrightarrow>
      fst (relay_app fw pd c s a rq st) = Some (ok_json (relay_healthz (relay_config_from_settings s)))"
    and "rq_method rq = ''POST'' \<Longrightarrow> rq_path rq = ''/relay'' \<Longrightarrow> (\<And>errs. fw_packet fw (rq_body rq) \<noteq> Unreadable errs) \<Longrightarrow>
      fst (relay_app fw pd c s a rq st) = Some (Raise e)"
  by (simp_all add: relay_app_def answered_by_def relay_healthz_config routed_without [OF and_then_Inl [of _ _ e]] assms)

lemma bridge_without_key:
  assumes "fst (get_sender_public_key c s (ap_keys st)) = Inl e"
  shows "rq_method rq = ''GET'' \<Longrightarrow> rq_path rq = ''/healthz'' \<Longrightarrow> fst (bridge_app fw pd c s a rq st) = Some (ok_json bridge_healthz)"
    and "rq_method rq = ''POST'' \<Longrightarrow> rq_path rq = ''/bridge'' \<Longrightarrow> (\<And>errs. fw_packet fw (rq_body rq) \<noteq> Unreadable errs) \<Longrightarrow>
      fst (bridge_app fw pd c s a rq st) = Some (Raise e)"
  by (simp_all add: bridge_app_def answered_by_def routed_without [OF and_then_Inl [of _ _ e]] assms)

section \<open>The nodes of the mesh\<close>

text \<open>An admitted packet reaches the endpoint that the network of \<^verbatim>\<open>Journey\<close> runs for a node.\<close>

lemma relay_app_admitted:
  assumes "rq_method rq = ''POST''" "rq_path rq = ''/relay''" "fw_packet fw (rq_body rq) = Fit packet"
    and "fst (get_sender_public_key c s (ap_keys st)) = Inr key" "na_http_client a \<noteq> None"
    and "fst (fw_limiter fw (rate_limit s) rq (ap_limits st)) = None"
  shows "fst (relay_app fw pd c s a rq st) = Some (relay_endpoint pd c key (relay_config_from_settings s) (Accepted packet))"
  using assms
  by (cases "get_sender_public_key c s (ap_keys st)"; cases "fw_limiter fw (rate_limit s) rq (ap_limits st)")
    (auto simp: relay_app_def answered_by_def routed_def and_then_def relay_healthz_config client_from_state_def given_def
      http_client_def attribute_def)

lemma bridge_app_admitted:
  assumes "rq_method rq = ''POST''" "rq_path rq = ''/bridge''" "fw_packet fw (rq_body rq) = Fit packet"
    and "fst (get_sender_public_key c s (ap_keys st)) = Inr key" "na_publisher a = Some pub"
    and "fst (fw_limiter fw (rate_limit s) rq (ap_limits st)) = None"
  shows "fst (bridge_app fw pd c s a rq st) = Some (bridge_endpoint pd c key (rp_queue pub) (Accepted packet))"
  using assms
  by (cases "get_sender_public_key c s (ap_keys st)"; cases "fw_limiter fw (rate_limit s) rq (ap_limits st)")
    (auto simp: bridge_app_def answered_by_def routed_def and_then_def publisher_from_state_def given_def
      publisher_of_def attribute_def)

end
