(* ===== verification/Read_Apps.thy ===== *)
theory Read_Apps
  imports Apps Ui Settlement_Api
begin

text \<open>
  \<^verbatim>\<open>create_app\<close> of the demo's proxy and of settlement's read API: their routes, the
  dependencies and the limits in front of them, and what a probe of Kubernetes sees of
  \<^verbatim>\<open>/healthz\<close>.
\<close>

section \<open>A path with a parameter\<close>

text \<open>\<^verbatim>\<open>/prefix/{name}\<close>: one segment, not empty.\<close>

definition path_parameter :: "string \<Rightarrow> string \<Rightarrow> string option" where
  "path_parameter prefix path_text =
     (let rest = drop (length prefix) path_text in
      if take (length prefix) path_text = prefix \<and> rest \<noteq> [] \<and> CHR ''/'' \<notin> set rest then Some rest else None)"

section \<open>The proxy\<close>

definition ui_routed ::
  "'l limiter \<Rightarrow> settings \<Rightarrow> node_attributes \<Rightarrow> http_request \<Rightarrow> (http_json + passed) route \<Rightarrow> 'l
   \<Rightarrow> (http_json + passed) route \<times> 'l" where
  "ui_routed lmt s a rq route l =
     (case fst (client_from_state a empty_key_cache) of
        Inl e \<Rightarrow> (Raise e, l)
      | Inr client \<Rightarrow> (case lmt (rate_limit s) rq l of (refused, l') \<Rightarrow> (ui_rate_limited refused route, l')))"

text \<open>\<open>page\<close> is what reading \<^verbatim>\<open>static/index.html\<close> gives; the mounted directory is the framework's.\<close>

definition ui_index :: "exn + bytes \<Rightarrow> (http_json + passed) route" where
  "ui_index page =
     bindP (lift page) (\<lambda>content.
       Ret (Inr \<lparr> pa_status = 200, pa_content = content, pa_media_type = ''text/html; charset=utf-8'' \<rparr>))"

definition ui_app ::
  "'l limiter \<Rightarrow> nat \<Rightarrow> exn + bytes \<Rightarrow> settings \<Rightarrow> node_attributes \<Rightarrow> http_request \<Rightarrow> 'l
   \<Rightarrow> (http_json + passed) route option \<times> 'l" where
  "ui_app lmt limit page s a rq l =
     (let limited_route = (\<lambda>route. map_prod Some id (ui_routed lmt s a rq route l)) in
      if rq_method rq = ''GET'' then
        (if rq_path rq = ''/healthz'' then (Some (Ret (Inl \<lparr> hj_status = 200, hj_body = ui_healthz \<rparr>)), l)
         else if rq_path rq = ''/'' then (Some (ui_index page), l)
         else if rq_path rq = ''/api/metrics'' then limited_route (ui_read_metrics s)
         else case path_parameter ''/api/settlements/'' (rq_path rq) of
             Some key \<Rightarrow> limited_route (ui_read_settlement s key)
           | None \<Rightarrow> (None, l))
      else if rq_method rq = ''POST'' then
        (if rq_path rq = ''/api/packets'' then limited_route (ui_create_packet s limit (rq_body rq))
         else if rq_path rq = ''/api/relay'' then limited_route (ui_relay_packet s (rq_body rq))
         else (None, l))
      else (None, l))"

section \<open>The read API\<close>

record api_attributes =
  aa_session_factory :: "unit option"
  aa_dedupe :: "unit option"
  aa_metrics :: "metrics option"
  aa_consumer :: "live_consumer option"

datatype settlement_answer =
    Health health_view
  | Counters metrics_view
  | One settlement_view
  | Many "settlement_view list"
  | Plain http_json
  | Unprocessable "verr list"

text \<open>The status of the answer: views are sent with the default, 200.\<close>

fun answer_status :: "settlement_answer \<Rightarrow> int" where
  "answer_status (Plain j) = hj_status j"
| "answer_status (Unprocessable errs) = 422"
| "answer_status a = 200"

definition session_factory :: "api_attributes \<Rightarrow> exn + unit option" where
  "session_factory a = settlement_override SessionFactory (\<lambda>name. aa_session_factory a)"

definition dedupe_store_of :: "api_attributes \<Rightarrow> exn + unit option" where
  "dedupe_store_of a = settlement_override DedupeStore (\<lambda>name. aa_dedupe a)"

definition metrics_of :: "api_attributes \<Rightarrow> exn + metrics option" where
  "metrics_of a = settlement_override Metrics (\<lambda>name. aa_metrics a)"

definition consumer_of :: "api_attributes \<Rightarrow> exn + live_consumer option" where
  "consumer_of a = settlement_override RunningConsumer (\<lambda>name. aa_consumer a)"

definition health_route :: "api_attributes \<Rightarrow> settlement_answer api" where
  "health_route a =
     bindP (lift (session_factory a)) (\<lambda>_. bindP (lift (dedupe_store_of a)) (\<lambda>_. bindP (lift (consumer_of a)) (\<lambda>consumer.
       bindP (healthz consumer) (\<lambda>v. Ret (Health v)))))"

definition metrics_route :: "api_attributes \<Rightarrow> settlement_answer api" where
  "metrics_route a =
     bindP (lift (metrics_of a)) (\<lambda>m. bindP (lift (consumer_of a)) (\<lambda>consumer.
       case m of
         None \<Rightarrow> Raise (OtherError ''AttributeError'')
       | Some m \<Rightarrow> bindP (metrics_endpoint m consumer) (\<lambda>v. Ret (Counters v))))"

definition one_answer :: "http_json + (http_json + settlement_view) \<Rightarrow> settlement_answer" where
  "one_answer r = (case r of Inl j \<Rightarrow> Plain j | Inr (Inl j) \<Rightarrow> Plain j | Inr (Inr v) \<Rightarrow> One v)"

definition many_answer :: "http_json + settlement_view list \<Rightarrow> settlement_answer" where
  "many_answer r = (case r of Inl j \<Rightarrow> Plain j | Inr vs \<Rightarrow> Many vs)"

text \<open>\<open>read_limit\<close> is the framework's reading of \<^verbatim>\<open>?limit=\<close>, with the default 20.\<close>

definition settlement_app ::
  "(http_request \<Rightarrow> verr list + int) \<Rightarrow> 'l limiter \<Rightarrow> settings \<Rightarrow> api_attributes \<Rightarrow> http_request \<Rightarrow> 'l
   \<Rightarrow> settlement_answer api option \<times> 'l" where
  "settlement_app read_limit lmt s a rq l =
     (if rq_method rq \<noteq> ''GET'' then (None, l)
      else if rq_path rq = ''/healthz'' then (Some (health_route a), l)
      else if rq_path rq = ''/metrics'' then (Some (metrics_route a), l)
      else if rq_path rq = ''/settlements'' then
        (case session_factory a of
           Inl e \<Rightarrow> (Some (Raise e), l)
         | Inr _ \<Rightarrow>
             (case read_limit rq of
                Inl errs \<Rightarrow> (Some (Ret (Unprocessable errs)), l)
              | Inr n \<Rightarrow>
                  (case lmt (rate_limit s) rq l of (refused, l') \<Rightarrow>
                     (Some (bindP (limited refused (list_settlements n)) (\<lambda>r. Ret (many_answer r))), l'))))
      else
        (case path_parameter ''/settlements/'' (rq_path rq) of
           None \<Rightarrow> (None, l)
         | Some key \<Rightarrow>
             (case session_factory a of
                Inl e \<Rightarrow> (Some (Raise e), l)
              | Inr _ \<Rightarrow>
                  (case lmt (rate_limit s) rq l of (refused, l') \<Rightarrow>
                     (Some (bindP (limited refused (read_settlement key)) (\<lambda>r. Ret (one_answer r))), l')))))"

section \<open>What the probes see\<close>

lemma path_ping:
  assumes "path (via OnRedis redis_reply ping) h y"
  shows "\<exists>r. h = [(OnRedis RedisPing, r)] \<and> y = Inr (r = RedisReply (Truth True))"
proof -
  from assms obtain r h' where h: "h = (OnRedis RedisPing, r) # h'"
    "path (via OnRedis redis_reply (tryP (case redis_reply r of Failed e \<Rightarrow> Raise e | _ \<Rightarrow> Ret (redis_reply r = Truth True))
        (\<lambda>e. Some (Ret False)))) h' y"
    by (auto simp: ping_def call_def path_Do_iff)
  have "redis_reply r = Truth True \<longleftrightarrow> r = RedisReply (Truth True)" by (cases r) simp_all
  with h show ?thesis by (cases "redis_reply r") auto
qed

definition probe_database :: "bool api" where
  "probe_database = tryP (query SelectOne (\<lambda>_. Ret True)) (\<lambda>e. Some (Ret False))"

lemma path_probe_database:
  "path probe_database h y \<Longrightarrow> \<exists>r. h = [(SelectOne, r)] \<and> y = Inr (\<forall>e. r \<noteq> DbFailed e)"
  by (auto simp: probe_database_def path_try_all path_query)

text \<open>The probe asks Redis, then the database, and reports what each of them answered.\<close>

definition probed :: "(api_cmd, api_reply) history \<Rightarrow> health_view \<Rightarrow> bool" where
  "probed h v \<longleftrightarrow>
     (\<exists>r1 r2. h = [(OnRedis RedisPing, r1), (SelectOne, r2)]
        \<and> hv_redis v = (r1 = RedisReply (Truth True)) \<and> hv_database v = (\<forall>e. r2 \<noteq> DbFailed e)
        \<and> hv_status v = (if r1 = RedisReply (Truth True) \<and> (\<forall>e. r2 \<noteq> DbFailed e) then ''ok'' else ''degraded''))"

lemma healthz_view:
  assumes "path (healthz consumer) h res"
  shows "\<exists>v. res = Inr v \<and> probed h v"
proof -
  let ?view = "\<lambda>x y. \<lparr> hv_status = (if x \<and> y then ''ok'' else ''degraded''), hv_service = ''settlement'',
           hv_redis = x, hv_database = y, hv_consuming = (consumer \<noteq> None) \<rparr>"
  from assms have "path (bindP (via OnRedis redis_reply ping) (\<lambda>x. bindP probe_database (\<lambda>y. Ret (?view x y)))) h res"
    by (simp add: healthz_def probe_database_def)
  then obtain h1 h2 x where h: "h = h1 @ h2" "path (via OnRedis redis_reply ping) h1 (Inr x)"
      "path (bindP probe_database (\<lambda>y. Ret (?view x y))) h2 res"
    unfolding path_bind [of "via _ _ _"] using path_ping by blast
  from h(3) obtain y where y: "path probe_database h2 (Inr y)" "res = Inr (?view x y)"
    unfolding path_bind [of probe_database] using path_probe_database by fastforce
  obtain r1 where r1: "h1 = [(OnRedis RedisPing, r1)]" "x = (r1 = RedisReply (Truth True))"
    using path_ping [OF h(2)] by auto
  obtain r2 where r2: "h2 = [(SelectOne, r2)]" "y = (\<forall>e. r2 \<noteq> DbFailed e)"
    using path_probe_database [OF y(1)] by auto
  have "probed h (?view x y)"
    unfolding probed_def by (intro exI [of _ r1] exI [of _ r2]) (simp add: h(1) r1 r2)
  with y(2) show ?thesis by blast
qed

text \<open>The probe gets a 200 whatever the services answered; only the body tells.\<close>

lemma health_route_answers:
  assumes "path (health_route a) h res" "aa_session_factory a \<noteq> None" "aa_dedupe a \<noteq> None"
  shows "\<exists>v. res = Inr (Health v) \<and> probed h v"
proof -
  have "path (bindP (healthz (aa_consumer a)) (\<lambda>v. Ret (Health v))) h res"
    using assms by (auto simp: health_route_def session_factory_def dedupe_store_of_def consumer_of_def attribute_def)
  then consider (view) v where "path (healthz (aa_consumer a)) h (Inr v)" "res = Inr (Health v)"
    | (none) e where "path (healthz (aa_consumer a)) h (Inl e)"
    unfolding path_bind by auto
  then show ?thesis
  proof cases
    case view
    then show ?thesis using healthz_view [OF view(1)] by auto
  qed (use healthz_view in blast)
qed

section \<open>Serving with what the lifespan assigned\<close>

text \<open>The attributes a history of assignments leaves.\<close>

definition node_attributes_after :: "(boot_cmd \<times> boot_reply) list \<Rightarrow> rabbit_publisher \<Rightarrow> node_attributes" where
  "node_attributes_after h pub =
     \<lparr> na_http_client = (if Assign ''http_client'' \<in> fst ` set h then Some () else None),
       na_publisher = (if Assign ''publisher'' \<in> fst ` set h then Some pub else None) \<rparr>"

lemma served_client:
  assumes "p \<in> {relay_lifespan s, sender_lifespan s, ui_lifespan s}" "path p h res" "served h"
  shows "client_from_state (node_attributes_after (preparation h) pub) kc = (Inr (), kc)"
proof -
  obtain service timeout up ev down where "p = http_lifespan service timeout up ev down"
    using assms(1) http_lifespans [of s] by blast
  from http_served [OF assms(2) [unfolded this] assms(3)]
  have "Assign ''http_client'' \<in> fst ` set (preparation h)" by auto
  then show ?thesis by (simp add: client_from_state_def given_def http_client_def attribute_def node_attributes_after_def)
qed

section \<open>Limits\<close>

lemma ui_refused:
  assumes "lmt (rate_limit s) rq l = (Some detail, l')" "path (fst (ui_routed lmt s a rq route l)) h res"
  shows "list_all (says \<circ> fst) h"
  using assms by (auto simp: ui_routed_def ui_rate_limited_def split: sum.splits)

lemma read_refused:
  assumes "lmt (rate_limit s) rq l = (Some detail, l')" "path (limited (Some detail) route) h res"
  shows "\<exists>r. h = [(SayApi ''warning'' ''settlement.rate_limited'' [(''limit'', detail)], r)]
    \<and> res = Inr (Inl (error_answer INTERNAL_ERROR ''rate limit exceeded'' 429))"
  using assms by (auto simp: limited_def path_Do_iff)

end
