(* ===== verification/App_Properties.thy ===== *)
theory App_Properties
  imports Read_Apps Key_Examples
begin

text \<open>
  Properties of the applications as a whole: what one request leaves for the next, what has to
  hold before a request has an effect, and what a probe learns.
\<close>

section \<open>Examples\<close>

definition ex_framework :: "nat framework" where
  "ex_framework =
     \<lparr> fw_packet = (\<lambda>raw. Unreadable []), fw_request = (\<lambda>raw. Fit \<lparr> t_payer_id = ''payer-1'', t_payee_id = ''payee-1'',
         t_amount_minor = 12550, t_currency = ''INR'' \<rparr>),
       fw_limiter = (\<lambda>limit rq used. if used < 2 then (None, Suc used) else (Some ''2 per 1 minute'', used)) \<rparr>"

definition ex_attributes :: node_attributes where
  "ex_attributes = \<lparr> na_http_client = Some (), na_publisher = None \<rparr>"

definition ex_creation :: http_request where
  "ex_creation = \<lparr> rq_method = ''POST'', rq_path = ''/packets'', rq_query = [], rq_client = ''10.0.0.7'', rq_body = [] \<rparr>"

abbreviation ex_sender :: "nat app" where
  "ex_sender \<equiv> sender_app ex_framework reference_pydantic key_crypto 16 (\<lambda>_. Inl (OtherError ''float'')) ex_settings ex_attributes"

definition ex_start :: "nat app_state" where
  "ex_start = \<lparr> ap_keys = empty_key_cache, ap_limits = 0 \<rparr>"

lemma ex_device_keys:
  "\<exists>sk rk kc. and_then (get_signing_key key_crypto ex_settings) (get_recipient_public_key key_crypto ex_settings) empty_key_cache
     = (Inr (sk, rsa_public key_crypto rk), kc)"
proof -
  obtain sk rk where keys: "fst (sender_signing_private_key key_crypto ex_settings empty_key_cache) = Inr sk"
    "fst (settlement_rsa_public_key key_crypto ex_settings empty_key_cache) = Inr (rsa_public key_crypto rk)"
    using provisioned_keys [OF key_crypto_round_trip reference_env_reader ex_built ex_configured] by blast
  have "keys_coherent key_crypto ex_settings (snd (get_signing_key key_crypto ex_settings empty_key_cache))"
    by (rule signing_key.keeps [OF empty_keys_coherent])
  from recipient_key.transparent [OF this empty_keys_coherent] keys
  have "fst (and_then (get_signing_key key_crypto ex_settings) (get_recipient_public_key key_crypto ex_settings) empty_key_cache)
      = Inr (sk, rsa_public key_crypto rk)"
    by (simp add: and_then_Inr get_signing_key_def get_recipient_public_key_def)
  then show ?thesis by (metis prod.collapse)
qed

section \<open>The properties\<close>

text \<open>C24. Requests do not influence one another through the cached keys: over any sequence of requests a
  sender, relay or bridge application answers each as it would if it had loaded its keys from the
  settings for that request alone.\<close>

theorem requests_do_not_share_keys:
  assumes "app \<in> {relay_app fw pd c s a, bridge_app fw pd c s a, sender_app fw pd c limit trunc s a}"
    and "keys_coherent c s (ap_keys st)"
  shows "fst (served_requests app rqs st) = fst (served_requests (\<lambda>rq st. app rq (st \<lparr> ap_keys := empty_key_cache \<rparr>)) rqs st)"
  using assms(1) relays.without_cache [OF assms(2,2) refl, of fw pd a rqs] bridges.without_cache [OF assms(2,2) refl, of fw pd a rqs]
    senders.without_cache [OF assms(2,2) refl, of fw pd limit trunc a rqs] by blast

theorem requests_do_not_share_keys_witness:
  "fst (served_requests ex_sender [ex_creation, ex_creation] ex_start) =
     [fst (ex_sender ex_creation ex_start), fst (ex_sender ex_creation (ex_start \<lparr> ap_limits := 1 \<rparr>))]"
proof -
  have "keys_coherent key_crypto ex_settings (ap_keys ex_start)" by (simp add: ex_start_def empty_keys_coherent)
  from requests_do_not_share_keys [OF _ this, of ex_sender ex_framework reference_pydantic ex_attributes 16
      "\<lambda>_. Inl (OtherError ''float'')" "[ex_creation, ex_creation]"]
  have "fst (served_requests ex_sender [ex_creation, ex_creation] ex_start) =
      fst (served_requests (\<lambda>rq st. ex_sender rq (st \<lparr> ap_keys := empty_key_cache \<rparr>)) [ex_creation, ex_creation] ex_start)" by blast
  moreover obtain sk rk kc where "and_then (get_signing_key key_crypto ex_settings) (get_recipient_public_key key_crypto ex_settings)
      empty_key_cache = (Inr (sk, rsa_public key_crypto rk), kc)" using ex_device_keys by blast
  ultimately show ?thesis
    by (simp add: sender_app_def answered_by_def routed_def ex_creation_def ex_start_def ex_framework_def)
qed

text \<open>C23. No request has an effect before it is admitted: when an application does anything but log (reads
  the clock, draws random values, calls another node, publishes), the body validated, the key the
  route depends on loaded, and the limiter admitted the request under the configured limit.\<close>

theorem no_effect_before_admission:
  assumes "app \<in> {relay_app fw pd c s a, bridge_app fw pd c s a, sender_app fw pd c limit trunc s a}"
    and "app rq st = (Some p, st')" and "path p h res" and "(cm, r) \<in> set h" and "\<not> says cm"
  shows "fst (fw_limiter fw (rate_limit s) rq (ap_limits st)) = None
    \<and> ((\<exists>packet key. fw_packet fw (rq_body rq) = Fit packet \<and> fst (get_sender_public_key c s (ap_keys st)) = Inr key)
       \<or> (\<exists>body key. fw_request fw (rq_body rq) = Fit body \<and> fst (get_signing_key c s (ap_keys st)) = Inr key))"
proof -
  have loud: "\<not> list_all (says \<circ> fst) h" using assms(4,5) by (force simp: list_all_iff)
  from assms(1,2) consider "relay_app fw pd c s a rq st = (Some p, st')" | "bridge_app fw pd c s a rq st = (Some p, st')"
    | "sender_app fw pd c limit trunc s a rq st = (Some p, st')" by blast
  then show ?thesis
  proof cases
    case 1
    from relay_acts [OF this assms(3) loud] show ?thesis by blast
  next
    case 2
    from bridge_acts [OF this assms(3) loud] show ?thesis by blast
  next
    case 3
    from sender_acts [OF this assms(3) loud] show ?thesis by blast
  qed
qed

theorem no_effect_before_admission_witness:
  "\<exists>p h res. fst (ex_sender ex_creation ex_start) = Some p \<and> path p h res \<and> NewId \<in> fst ` set h
    \<and> fst (fw_limiter ex_framework (rate_limit ex_settings) ex_creation (ap_limits ex_start)) = None"
proof -
  obtain sk rk kc where keys: "and_then (get_signing_key key_crypto ex_settings) (get_recipient_public_key key_crypto ex_settings)
      empty_key_cache = (Inr (sk, rsa_public key_crypto rk), kc)" using ex_device_keys by blast
  obtain x p st' where app: "ex_sender ex_creation ex_start = (Some p, st')"
    and p: "p = create_endpoint reference_pydantic key_crypto sk (rsa_public key_crypto rk) (Accepted x)"
    using keys by (simp add: sender_app_def answered_by_def routed_def ex_creation_def ex_start_def ex_framework_def)
  have path: "path p [(NewId, Broken (OtherError ''no entropy''))] (Inl (OtherError ''no entropy''))"
    by (simp add: p create_endpoint_def serve_def create_packet_def instruct_def fresh_id_def path_Do_iff)
  have "fst (fw_limiter ex_framework (rate_limit ex_settings) ex_creation (ap_limits ex_start)) = None"
    using no_effect_before_admission [of ex_sender ex_framework reference_pydantic key_crypto ex_settings ex_attributes 16
      "\<lambda>_. Inl (OtherError ''float'')", OF _ app path, of NewId "Broken (OtherError ''no entropy'')"] by simp
  moreover have "fst (ex_sender ex_creation ex_start) = Some p" using app by simp
  ultimately show ?thesis using path by (intro exI [of _ p]) auto
qed

text \<open>C25. The readiness probe never fails: once settlement serves, \<^verbatim>\<open>GET /healthz\<close> asks Redis
  and then the database, exactly once each, and is answered with status 200 whatever they do; only the body
  of the answer, which an \<^verbatim>\<open>httpGet\<close> probe does not read, tells.  Its two flags say of each
  service whether it answered, and its status is \<^verbatim>\<open>ok\<close> when both did and
  \<^verbatim>\<open>degraded\<close> when either did not.\<close>

theorem readiness_never_fails:
  assumes "rq_method rq = ''GET''" and "rq_path rq = ''/healthz''"
    and "aa_session_factory a \<noteq> None" and "aa_dedupe a \<noteq> None"
    and "settlement_app read_limit lmt s a rq l = (Some p, l')" and "path p h res"
  shows "\<exists>r1 r2 v. h = [(OnRedis RedisPing, r1), (SelectOne, r2)] \<and> res = Inr (Health v)
    \<and> answer_status (Health v) = 200
    \<and> hv_redis v = (r1 = RedisReply (Truth True)) \<and> hv_database v = (\<forall>e. r2 \<noteq> DbFailed e)
    \<and> hv_status v = (if r1 = RedisReply (Truth True) \<and> (\<forall>e. r2 \<noteq> DbFailed e) then ''ok'' else ''degraded'')"
proof -
  have "path (health_route a) h res" using assms(1,2,5,6) by (auto simp: settlement_app_def)
  from health_route_answers [OF this assms(3,4)] obtain v where "res = Inr (Health v)" "probed h v" by blast
  moreover have "answer_status (Health v) = 200" by simp
  ultimately show ?thesis unfolding probed_def by blast
qed

theorem readiness_never_fails_witness:
  "\<exists>v. path (health_route \<lparr> aa_session_factory = Some (), aa_dedupe = Some (), aa_metrics = None, aa_consumer = None \<rparr>)
      [(OnRedis RedisPing, RedisReply (Failed (RedisError ''down''))), (SelectOne, RedisReply Done)] (Inr (Health v))
    \<and> answer_status (Health v) = 200 \<and> hv_database v \<and> \<not> hv_redis v \<and> hv_status v = ''degraded''"
proof -
  let ?a = "\<lparr> aa_session_factory = Some (), aa_dedupe = Some (), aa_metrics = None, aa_consumer = None \<rparr>"
  let ?h = "[(OnRedis RedisPing, RedisReply (Failed (RedisError ''down''))), (SelectOne, RedisReply Done)]"
  let ?rq = "\<lparr> rq_method = ''GET'', rq_path = ''/healthz'', rq_query = [], rq_client = ''10.0.0.7'', rq_body = [] \<rparr>"
  obtain v where path: "path (health_route ?a) ?h (Inr (Health v))"
    by (force simp: health_route_def session_factory_def dedupe_store_of_def consumer_of_def attribute_def
        healthz_def ping_def call_def query_def path_Do_iff)
  have "settlement_app (\<lambda>rq. Inr 20) (\<lambda>limit rq l. (None, l)) default_settings ?a ?rq () = (Some (health_route ?a), ())"
    by (simp add: settlement_app_def)
  from readiness_never_fails [OF _ _ _ _ this path] path show ?thesis by auto
qed

end
