(* ===== verification/Spec2Isabelle.thy ===== *)
theory Spec2Isabelle
  imports Wire_Properties Service_Properties Deployment_Properties App_Properties
begin

text \<open>
  MeshSettle moves a signed, encrypted payment packet from a payer's device over a chain of mesh
  relays to a bridge, which puts it on a durable RabbitMQ queue; a settlement service consumes the
  queue and writes one row per payment, exactly once.  This development models the Python code of
  that path and proves what makes it correct.  The theories follow the program's modules.

  \<^bold>\<open>Shared vocabulary.\<close>  \<open>Prelude\<close> (bytes, UTF-8 text, decimal numbers, results of
  calls that raise, the locale \<open>codec\<close>), \<open>Errors\<close> (the exceptions with Python's class
  hierarchy), \<open>Effects\<close> (coroutines as \<open>prog\<close>: every \<^verbatim>\<open>await\<close> of a
  service is a command, a \<open>path\<close> is one execution under any replies, \<open>run\<close> executes
  against a state).

  \<^bold>\<open>Wire formats and cryptography.\<close>  \<open>Encoding\<close> and \<open>Crypto\<close> are
  \<^verbatim>\<open>shared/crypto.py\<close>; \<open>Json\<close>, \<open>Json_Codec\<close> and \<open>Sha256\<close> are what
  it uses of the standard library, written out (the scanner of JSON runs on the fuel
  \<open>2 * length + 1\<close>, which \<open>Json_Codec\<close> proves to be enough for every text).
  \<open>Timestamps\<close>, \<open>Validation\<close>, \<open>Models\<close> and \<open>Packet\<close> are
  \<^verbatim>\<open>shared/models.py\<close>; \<open>Model_Facts\<close> and \<open>Packet_Facts\<close> hold their
  lemmas: well-formedness of what validates, round trips, what a signature covers, what opens.
  \<open>Config\<close>, \<open>Logging\<close> and \<open>Provision\<close> are \<^verbatim>\<open>shared/config.py\<close>,
  \<^verbatim>\<open>shared/logging.py\<close>, \<^verbatim>\<open>shared/keygen.py\<close> and
  \<^verbatim>\<open>scripts/bootstrap_env.py\<close>.

  \<^bold>\<open>Settlement.\<close>  \<open>Services\<close> and \<open>Tables\<close> are the commands of the pipeline and
  the tables of \<^verbatim>\<open>services/settlement/db.py\<close>; \<open>Dedupe\<close> is
  \<^verbatim>\<open>dedupe.py\<close>; \<open>Processor\<close> is \<^verbatim>\<open>processor.py\<close>, one definition per
  step and per \<^verbatim>\<open>except\<close> clause.  \<open>Pipeline\<close> holds the order of its operations
  over any replies, \<open>Settlement_Run\<close> its results against well-behaved services, and
  \<open>Ledger\<close> its refinement of an abstract ledger.  \<open>Consumer\<close> and
  \<open>Consumer_Life\<close> are \<^verbatim>\<open>consumer.py\<close>; \<open>Broker\<close> is the step relation of the
  service under a broker (interleaved deliveries, lost replies, crashes, redelivery, expiring and
  flushed Redis), \<open>Broker_Safety\<close> its invariants by rule induction (with, for every row, the step and
  the delivery that inserted it and the clock reading that delivery checked) and \<open>Broker_Runs\<close>
  the runs that exist.  \<open>Settlement_Api\<close> holds the routes of
  \<^verbatim>\<open>services/settlement/app.py\<close>.  \<open>Schema\<close> has the declared tables and the
  Alembic revision under \<^verbatim>\<open>migrations/\<close> as operations on a catalog, and proves that an
  insert into the migrated table is the insert of \<open>Services\<close>.

  \<^bold>\<open>The mesh.\<close>  \<open>Http\<close> is what the services repeat (error bodies, exception handlers,
  calls to other nodes); \<open>Sender\<close>, \<open>Mesh_Relay\<close>, \<open>Bridge\<close> (with \<open>Amqp\<close>) and
  \<open>Ui\<close> are the four \<^verbatim>\<open>app.py\<close> files and \<^verbatim>\<open>bridge/publisher.py\<close>.
  \<open>Journey\<close> composes them: a call to another node runs that node's route, with the nesting of
  calls as fuel; a ring of relays with a hop target of \<open>n\<close> nests \<open>n + 1\<close> calls, and the
  theorems ask for more fuel than that.  On any topology the hop limit bounds the nesting, so that
  more fuel than the limit changes nothing (\<open>forwarding_ends\<close>).

  \<^bold>\<open>Deployment.\<close>  \<open>Startup\<close> has the five lifespans, as commands to the clients they
  open and close, and the dependencies the routes get injected; \<open>Log_Chain\<close> is
  \<^verbatim>\<open>configure_logging\<close>.  \<open>Apps\<close> and \<open>Read_Apps\<close> are the five
  \<^verbatim>\<open>create_app\<close>: an application is a step function from a request and the state kept
  between requests (cached keys, the limiter's counters) to the coroutine that answers it.
  \<open>Key_Setup\<close> (with \<open>Key_Examples\<close>) the generation of
  keys and the files of the bootstrap script, up to services that load them.

  \<^bold>\<open>Locales.\<close>  \<open>codec\<close>, \<open>unique_rows\<close>, \<open>publisher\<close>, the claim store, the
  Redis service, \<open>cached_dependency\<close> and \<open>coherent_app\<close> are the interfaces between components; each is interpreted on the model's own
  definitions where they are declared.

  \<^bold>\<open>Parameters.\<close>  What the repository only calls is an argument, with its documented
  behaviour as a named hypothesis: pydantic's scalar readers and JSON reader
  (\<open>reads_scalars\<close>, \<open>reads_documents\<close>), the primitives of \<^verbatim>\<open>cryptography\<close>
  (\<open>signs_correctly\<close>, \<open>seals_correctly\<close>, \<open>authenticates_aad\<close>), Redis
  (\<open>redis_laws\<close>), FastAPI's reading of a body and of a query, slowapi's decision on a request, \<^verbatim>\<open>int()\<close> of a float, the generators
  and PEM writers of keys (\<open>pem_round_trip\<close>), the reader of an environment file
  (\<open>env_reader\<close>) and structlog (\<open>structlog_laws\<close>).
  \<open>Reference\<close> gives concrete instances of all of them, and \<open>Examples\<close> and
  \<open>Example_Runs\<close> the inputs on which the witnesses evaluate.

  \<^bold>\<open>Properties.\<close>  They stand here, in \<open>Wire_Properties\<close> (the packet and its
  encodings), in \<open>Service_Properties\<close> (the routes) and in \<open>Deployment_Properties\<close> (the
  database, starting and stopping, keys and logs) and in \<open>App_Properties\<close> (whole
  applications), each with its witness.

  \<^bold>\<open>Not modelled.\<close>  Rendering of a view as JSON and OpenAPI (FastAPI and pydantic), the
  mounted directory of the demo, argument parsing, how the settings read the environment, Alembic's
  choice of revisions and its version table, SQLAlchemy's sessions beyond the statements they send, and how the limiter
  counts: each is the work of a library, and an argument or a reply where the code depends on it.
\<close>

section \<open>The service under its broker\<close>

text \<open>C1. A payment settles at most once: whatever crashes, redeliveries, faults, lost channels, clock
  steps and cache flushes happen, at most one delivery reports it settled, the table has at most
  one row for its key, and a reported settlement has its row.\<close>

theorem payment_settles_once:
  assumes "reachable R c pr w b" and "tables_ok (w_tables w)"
  shows "length (filter (settled_for k) (bk_outcomes b)) \<le> 1
    \<and> count_settlements (w_tables (bk_world b)) (Some k) \<le> 1
    \<and> (\<forall>y \<in> set (bk_outcomes b). settled_for k y \<longrightarrow> settlement_exists (w_tables (bk_world b)) k)"
proof (intro conjI ballI impI)
  show "length (filter (settled_for k) (bk_outcomes b)) \<le> 1" by (rule settled_once [OF assms])
  show "count_settlements (w_tables (bk_world b)) (Some k) \<le> 1"
    by (rule count_settlements_le_1 [OF reachable_tables_ok [OF assms]])
  fix y assume "y \<in> set (bk_outcomes b)" "settled_for k y"
  from settled_for_row [OF assms(1) this] show "settlement_exists (w_tables (bk_world b)) k"
    by (auto simp: settlement_exists_def list_ex_iff)
qed

theorem payment_settles_once_witness:
  "\<exists>b :: expiring broker. bk_acked b = [ex_raw] \<and> length (settlements (w_tables (bk_world b))) = 1
    \<and> count_settlements (w_tables (bk_world b)) (Some (idempotency_key ex_packet)) \<le> 1"
proof -
  obtain b s where b: "reachable expiring_redis ex_consumer ex_processor ex_world b" "bk_acked b = [ex_raw]"
    "settlements (w_tables (bk_world b)) = [s]" using ex_settled_run by blast
  from payment_settles_once [OF b(1) ex_tables_ok] b(2,3) show ?thesis by (intro exI [of _ b]) simp
qed

text \<open>C2. Settlement refines a ledger: messages delivered one after another leave in the table exactly the
  rows that an abstract ledger, which takes the row of each authorised packet once, would hold;
  Redis, its expiries, transactions and exceptions make no difference.\<close>

theorem service_refines_the_ledger:
  assumes "redis_laws R" and "0 < claim_ttl (pr_dedupe pr)" and "0 < settled_ttl (pr_dedupe pr)"
    and "keys_identify pr raws" and "snd ` set ds \<subseteq> raws" and "sorted (map fst ds)"
    and "backed R pr raws w" and "\<And>t. t \<in> fst ` set ds \<Longrightarrow> w_now w \<le> t"
  shows "ledger_of (foldl (deliver R pr) w ds) = foldl (ledger_step pr) (ledger_of w) ds"
proof -
  have "redis_service R (pr_dedupe pr)" using assms(1-3) by (rule redis_service.intro)
  from redis_service.deliver_stream [OF this refl assms(4-7)] assms(8) show ?thesis by blast
qed

theorem service_refines_the_ledger_witness:
  "ledger_of (foldl (deliver expiring_redis ex_processor) ex_world [(ex_now, ex_raw), (ex_early, ex_raw)])
    = [settlement_of ex_packet ex_instruction (idempotency_key ex_packet)]"
proof -
  let ?row = "settlement_of ex_packet ex_instruction (idempotency_key ex_packet)"
  have "backed expiring_redis ex_processor {ex_raw} ex_world" by (rule backed_empty) simp
  then have "ledger_of (foldl (deliver expiring_redis ex_processor) ex_world [(ex_now, ex_raw), (ex_early, ex_raw)])
    = foldl (ledger_step ex_processor) (ledger_of ex_world) [(ex_now, ex_raw), (ex_early, ex_raw)]"
    by (intro service_refines_the_ledger [OF expiring_redis_laws _ _ ex_keys_identify])
      (auto simp: us_per_second_def)
  moreover have "due_row ex_processor t ex_raw = Some ?row" if "t = ex_now \<or> t = ex_early" for t
    using that ex_opens [unfolded opens_to_def] ex_admissible_at [of t]
    by (auto simp: due_row_def ex_parsed us_per_second_def)
  ultimately show ?thesis by (simp add: ledger_step_def ledger_of_def empty_tables_def same_payment_def)
qed

text \<open>C4. Every row is authorised: each settlement in the table was there at the start or was inserted, in
  a step of this run, by a delivery of a published message that parsed as a packet, verified under the sender's
  key, matched its header and opened, and whose packet was fresh at the time this delivery had read from the
  clock, between the start of the service and the settlement time in the row.\<close>

theorem rows_come_from_signed_packets:
  assumes "reachable R c pr w b" and "s \<in> set (settlements (w_tables (bk_world b)))"
  shows "s \<in> set (settlements (w_tables w))
    \<or> (\<exists>d p ins now. inserted_by R c pr w b s d \<and> dl_body d \<in> set (bk_published b)
        \<and> packet_of_json_bytes (pr_validator pr) (dl_body d) = Inr p
        \<and> admissible pr p now \<and> opens_to pr p ins
        \<and> settlement_row.truncate s = settlement_of p ins (idempotency_key p)
        \<and> (Service ClockNow, Time now) \<in> set (dl_seen d) \<and> w_now w \<le> now \<and> now \<le> s_settled_at s)"
  using row_was_inserted [OF assms(1)] assms(2) inserted_row_authorised inserted_row_published
  unfolding authorised_by_def by metis

theorem rows_come_from_signed_packets_witness:
  "\<exists>b s p ins d now. s \<in> set (settlements (w_tables (bk_world (b :: expiring broker))))
    \<and> packet_of_json_bytes reference_pydantic ex_raw = Inr p \<and> opens_to ex_processor p ins
    \<and> settlement_row.truncate s = settlement_of p ins (idempotency_key p)
    \<and> (Service ClockNow, Time now) \<in> set (dl_seen (d :: delivery)) \<and> fresh_at ex_processor p now \<and> now \<le> s_settled_at s"
proof -
  obtain b s where b: "reachable expiring_redis ex_consumer ex_processor ex_world b" "bk_published b = [ex_raw]"
    "settlements (w_tables (bk_world b)) = [s]" using ex_settled_run by blast
  have s: "s \<in> set (settlements (w_tables (bk_world b)))" by (simp add: b(3))
  from rows_come_from_signed_packets [OF b(1) s] obtain d :: delivery and p ins now where d: "dl_body d \<in> set (bk_published b)"
    "packet_of_json_bytes (pr_validator ex_processor) (dl_body d) = Inr p" "admissible ex_processor p now"
    "opens_to ex_processor p ins" "settlement_row.truncate s = settlement_of p ins (idempotency_key p)"
    "(Service ClockNow, Time now) \<in> set (dl_seen d)" "now \<le> s_settled_at s"
    by (simp add: empty_tables_def) blast
  have "dl_body d = ex_raw" using d(1) b(2) by simp
  with d have "packet_of_json_bytes reference_pydantic ex_raw = Inr p" by simp
  moreover have "fresh_at ex_processor p now" using d(3) by (simp add: admissible_def)
  ultimately show ?thesis using s d(4-7) by blast
qed

text \<open>C5. No message is lost or multiplied by the consumer: what was published is, with multiplicities,
  what is queued, held by an unanswered delivery, or acknowledged.\<close>

theorem no_message_is_lost:
  assumes "reachable R c pr w b"
  shows "mset (bk_published b)
    = mset (bk_queue b) + mset (concat (map requeue (bk_in_flight b))) + mset (bk_acked b)"
  using reachable_messages [OF assms] by (simp add: messages_def)

theorem no_message_is_lost_witness:
  "\<exists>b :: expiring broker. mset (bk_published b) = mset (bk_acked b) \<and> bk_acked b = [ex_raw]"
proof -
  obtain b where b: "reachable expiring_redis ex_consumer ex_processor ex_world b" "bk_queue b = []"
    "bk_in_flight b = []" "bk_acked b = [ex_raw]" using ex_settled_run by blast
  from no_message_is_lost [OF b(1)] b(2-4) show ?thesis by (intro exI [of _ b]) simp
qed

text \<open>C6. An acknowledged message is finished: it has an outcome on record that is not retryable, and that
  outcome is one the pipeline gave for this very message.\<close>

theorem acknowledged_means_final:
  assumes "reachable R c pr w b" and "m \<in> set (bk_acked b)"
  shows "\<exists>out h. (m, out) \<in> set (bk_outcomes b) \<and> \<not> o_retryable out \<and> path (process_body pr m) h (Inr out)"
  using reachable_acked [OF assms(1)] reachable_outcomes [OF assms(1)] assms(2) by fastforce

theorem acknowledged_means_final_witness:
  "\<exists>b out. (ex_raw, out) \<in> set (bk_outcomes (b :: expiring broker)) \<and> \<not> o_retryable out"
proof -
  obtain b where b: "reachable expiring_redis ex_consumer ex_processor ex_world b" "bk_acked b = [ex_raw]"
    using ex_settled_run by blast
  then have "ex_raw \<in> set (bk_acked b)" by simp
  from acknowledged_means_final [OF b(1) this] show ?thesis by blast
qed

text \<open>C16. An undisturbed delivery is answered: if the services answer so that the pipeline returns an
  outcome, the broker reaches a state where the outcome is recorded and the message is
  acknowledged, or back at the end of the queue when the outcome is retryable.\<close>

theorem undisturbed_delivery_is_answered:
  assumes "bk_in_flight b = []" and "bk_queue b = raw # q" and "\<not> c_on_outcome c"
    and "run (perform R) (process_body pr raw) (bk_world b) = (Inr out, w')"
  shows "\<exists>b'. (step R c pr)\<^sup>*\<^sup>* b b' \<and> bk_in_flight b' = [] \<and> bk_world b' = w'
    \<and> bk_outcomes b' = bk_outcomes b @ [(raw, out)]
    \<and> (if o_retryable out then bk_queue b' = q @ [raw] \<and> bk_acked b' = bk_acked b
       else bk_queue b' = q \<and> bk_acked b' = bk_acked b @ [raw])"
  using undisturbed_delivery [OF assms] assms(1)
  by (intro exI [of _ "answered_broker b raw q out w'"]) (simp add: answered_broker_def)

theorem undisturbed_delivery_is_answered_witness:
  "\<exists>b' out. (step expiring_redis ex_consumer ex_processor)\<^sup>*\<^sup>* ((idle_broker ex_world) \<lparr> bk_queue := [ex_raw] \<rparr>) b'
    \<and> bk_outcomes b' = [(ex_raw, out)] \<and> bk_acked b' = [ex_raw]"
proof -
  let ?b = "(idle_broker ex_world) \<lparr> bk_queue := [ex_raw] \<rparr>"
  let ?k = "idempotency_key ex_packet"
  have "settlement_storable (settlement_of ex_packet ex_instruction ?k)" "settlement_checks (settlement_of ex_packet ex_instruction ?k)"
    using settlement_of_storable [OF ex_packet_wf ex_instruction_wf] by simp_all
  then obtain n t where ins: "insert_settlement (settlement_of ex_packet ex_instruction ?k) (w_now ex_world) (w_tables ex_world) = (Inr n, t)"
    using ex_no_conflict by (simp add: insert_settlement_def Let_def)
  obtain w' where "run (perform expiring_redis) (process_body ex_processor ex_raw) ex_world = (Inr (settled_outcome ex_packet ?k n), w')"
    using expiring.run_settles [OF _ ex_opens _ ins] run_process_admissible [OF ex_parsed_by, of ex_world] ex_admissible by auto
  then have "run (perform expiring_redis) (process_body ex_processor ex_raw) (bk_world ?b) = (Inr (settled_outcome ex_packet ?k n), w')"
    by (simp add: idle_broker_def)
  from undisturbed_delivery_is_answered [OF _ _ ex_consumer_silent this, of "[]"] show ?thesis
    by (auto simp: idle_broker_def)
qed





section \<open>The settlement pipeline\<close>

text \<open>C7. The settlement pipeline sends Redis a command only for a message that parsed as a packet,
  under the key derived from that packet, after reading the clock, and only when the sender's
  signature verified, the associated data matched the header and the packet was inside the
  freshness window and the clock-skew tolerance; whatever the services answer.\<close>

theorem claim_only_after_checks:
  assumes "path (process_body pr raw) (h1 @ (c, r) # h2) res" and "redis_key c = Some k"
  shows "\<exists>p now. packet_of_json_bytes (pr_validator pr) raw = Inr p \<and> k = idempotency_key p
    \<and> (ClockNow, Time now) \<in> set h1
    \<and> verify (pr_crypto pr) p (pr_sender_public_key pr) = None
    \<and> e_aad (p_envelope p) = expected_aad p
    \<and> now - p_created_at p \<le> pr_freshness_window pr * us_per_second
    \<and> p_created_at p - now \<le> pr_clock_skew pr * us_per_second"
  using claim_comes_first [OF assms] unfolding admissible_def fresh_at_def
  by (metis list.set_intros(1))

theorem claim_only_after_checks_witness:
  "\<exists>p now. packet_of_json_bytes (pr_validator ex_processor) ex_raw = Inr p
    \<and> now - p_created_at p \<le> 86400 * us_per_second"
proof -
  obtain l where "path (process_body ex_processor ex_raw)
      ([(ClockNow, Time ex_now)] @ (claim_cmd ex_processor (idempotency_key ex_packet), Truth False)
        # [(RedisGet (idempotency_key ex_packet), Value None), (l, Done)])
      (Inr (rejected_outcome DUPLICATE_PACKET (claim_detail IN_FLIGHT) (Some (idempotency_key ex_packet))
         (Some (p_packet_id ex_packet))))"
    using losing_path [OF ex_parsed_by ex_admissible] by auto
  from claim_only_after_checks [OF this claim_cmd_key] show ?thesis by auto
qed

text \<open>C8. A settlement row is inserted only after this run won the claim on its idempotency key,
  and the row is the one the authorised instruction of an admissible packet determines.\<close>

theorem insert_only_under_claim:
  assumes "path (process_body pr raw) (h1 @ (InsertSettlement row, r) # h2) res"
  shows "\<exists>p ins now. packet_of_json_bytes (pr_validator pr) raw = Inr p
    \<and> verify (pr_crypto pr) p (pr_sender_public_key pr) = None
    \<and> open_instruction (pr_validator pr) (pr_crypto pr) (pr_json_depth pr) p (pr_settlement_private_key pr) = Inr ins
    \<and> row = settlement_of p ins (idempotency_key p)
    \<and> (\<exists>h. h1 = (ClockNow, Time now)
             # (RedisSet (idempotency_key p) (utf8_encode claimed_marker) True (claim_ttl (pr_dedupe pr)), Truth True) # h)"
  using insert_under_claim [OF assms] unfolding admissible_def opens_to_def claim_cmd_def by metis

theorem insert_only_under_claim_witness:
  "\<exists>p ins now. packet_of_json_bytes reference_pydantic ex_raw = Inr p
    \<and> settlement_of ex_packet ex_instruction (idempotency_key ex_packet) = settlement_of p ins (idempotency_key p)
    \<and> (ClockNow, Time now) \<in> set [(ClockNow, Time ex_now)]"
proof -
  obtain l where "path (process_body ex_processor ex_raw)
      ([(ClockNow, Time ex_now), (claim_cmd ex_processor (idempotency_key ex_packet), Truth True)]
       @ (InsertSettlement (settlement_of ex_packet ex_instruction (idempotency_key ex_packet)), RowId 1)
         # [(settled_cmd ex_processor (idempotency_key ex_packet), Truth True), (l, Done)])
      (Inr (settled_outcome ex_packet (idempotency_key ex_packet) 1))"
    using settling_path [OF ex_parsed_by ex_admissible ex_opens, of 1] by (auto simp: insert_cmd_def)
  from insert_only_under_claim [OF this] show ?thesis by auto
qed

text \<open>C9. When the pipeline reports that it settled a packet, the packet parsed, verified, was fresh and
  opened, and the run read the clock, won the claim, inserted exactly one row, which the
  database confirmed with the reported id, and promoted the claim to the settled marker.\<close>

theorem settled_means_committed:
  assumes "path (process_body pr raw) h (Inr out)" and "settled out"
  shows "\<exists>p ins n now r l. packet_of_json_bytes (pr_validator pr) raw = Inr p
    \<and> opens_to pr p ins \<and> admissible pr p now \<and> \<not> failed r \<and> quiet (fst l)
    \<and> h = [(ClockNow, Time now), (claim_cmd pr (idempotency_key p), Truth True),
           (insert_cmd p ins (idempotency_key p), RowId n), (settled_cmd pr (idempotency_key p), r), l]
    \<and> out = settled_outcome p (idempotency_key p) n"
proof -
  have "settled_exit pr raw h out"
    using process_body_exits [OF assms(1)] assms(2) by (auto simp: rejected_exit_def internal_exit_def)
  then show ?thesis unfolding settled_exit_def by blast
qed

theorem settled_means_committed_witness:
  "\<exists>p ins now. packet_of_json_bytes (pr_validator ex_processor) ex_raw = Inr p \<and> opens_to ex_processor p ins
    \<and> admissible ex_processor p now"
proof -
  obtain h where "path (process_body ex_processor ex_raw) h
      (Inr (settled_outcome ex_packet (idempotency_key ex_packet) 1))"
    using settling_path [OF ex_parsed_by ex_admissible ex_opens, of 1] by auto
  from settled_means_committed [OF this] show ?thesis by auto
qed

text \<open>C11. Every rejection the pipeline reports, other than an internal error, is logged with the reason
  code it carries; an internal error is retryable, and the run that reports it ends with the deletion of the
  claim, which Redis answered without an error, and the log line of the failure.\<close>

theorem rejection_is_accounted_for:
  assumes "path (process_body pr raw) h (Inr out)" and "\<not> settled out"
  shows "(\<exists>code l ev r. o_code out = Some code \<and> code \<noteq> INTERNAL_ERROR \<and> \<not> o_retryable out
            \<and> (Log l ''settlement.packet_rejected'' ev, r) \<in> set h
            \<and> map_of ev ''reason'' = Some (error_code_value code))
    \<or> (\<exists>k h' r l ev r'. o_code out = Some INTERNAL_ERROR \<and> o_retryable out \<and> o_idempotency_key out = Some k
            \<and> \<not> failed r \<and> h = h' @ [(RedisDelete k, r), (Log l ''settlement.internal_error'' ev, r')])"
proof -
  have logged: "\<exists>l ev r. (Log l ''settlement.packet_rejected'' ev, r) \<in> set h
      \<and> map_of ev ''reason'' = Some (error_code_value code)"
    if "logged_reason h code" for code
  proof -
    from that obtain c r where "(c, r) \<in> set h" "is_rejection_log code c" by (auto simp: logged_reason_def)
    then show ?thesis by (cases c) auto
  qed
  from process_body_exits [OF assms(1)] show ?thesis
  proof (elim disjE)
    assume "settled_exit pr raw h out"
    then show ?thesis using assms(2) by (auto simp: settled_exit_def)
  next
    assume "rejected_exit h out"
    then show ?thesis using logged by (auto simp: rejected_exit_def)
  next
    assume "internal_exit h out"
    then obtain p k h' r l ev r' where *: "out = internal_error_outcome p k" "\<not> failed r"
        "h = h' @ [(RedisDelete k, r), (Log l ''settlement.internal_error'' ev, r')]"
      unfolding internal_exit_def by blast
    moreover have "o_idempotency_key out = Some k" by (simp add: *(1) internal_error_outcome_def)
    ultimately show ?thesis by fastforce
  qed
qed

theorem rejection_is_accounted_for_witness:
  "\<exists>h out. path (process_body ex_processor ex_raw) h (Inr out) \<and> o_code out = Some DUPLICATE_PACKET
    \<and> (\<exists>l ev r. (Log l ''settlement.packet_rejected'' ev, r) \<in> set h
         \<and> map_of ev ''reason'' = Some ''DUPLICATE_PACKET'')"
proof -
  obtain h where h: "path (process_body ex_processor ex_raw) h
      (Inr (rejected_outcome DUPLICATE_PACKET (claim_detail IN_FLIGHT) (Some (idempotency_key ex_packet))
         (Some (p_packet_id ex_packet))))"
    using losing_path [OF ex_parsed_by ex_admissible] by auto
  from rejection_is_accounted_for [OF h]
  have "\<exists>l ev r. (Log l ''settlement.packet_rejected'' ev, r) \<in> set h \<and> map_of ev ''reason'' = Some ''DUPLICATE_PACKET''"
    by simp
  moreover have "o_code (rejected_outcome DUPLICATE_PACKET d k q) = Some DUPLICATE_PACKET" for d k q by simp
  ultimately show ?thesis using h by blast
qed

text \<open>C10. A won claim never outlives the run: when the pipeline returns an outcome, the last command it sent
  to Redis, after the claim, promotes the claim to the settled marker or deletes it, and Redis answered that
  command without an error.  A promotion or deletion that fails is never swallowed.\<close>

theorem claim_never_leaks:
  assumes "path (process_body pr raw) h (Inr out)" and "(claim_cmd pr k, Truth True) \<in> set h"
  shows "\<exists>h1 c r h2. h = h1 @ (c, r) # h2 \<and> (claim_cmd pr k, Truth True) \<in> set h1
    \<and> c \<in> {settled_cmd pr k, RedisDelete k} \<and> \<not> failed r \<and> (\<forall>x \<in> set h2. redis_key (fst x) = None)"
  using assms by (rule claim_is_discharged)

theorem claim_never_leaks_witness:
  "\<exists>h out. path (process_body ex_processor ex_raw) h (Inr out)
    \<and> (\<exists>c r. (c, r) \<in> set h \<and> \<not> failed r
         \<and> c \<in> {settled_cmd ex_processor (idempotency_key ex_packet), RedisDelete (idempotency_key ex_packet)})"
proof -
  obtain h where h: "path (process_body ex_processor ex_raw) h
      (Inr (settled_outcome ex_packet (idempotency_key ex_packet) 1))"
    and c: "(claim_cmd ex_processor (idempotency_key ex_packet), Truth True) \<in> set h"
    using settling_path [OF ex_parsed_by ex_admissible ex_opens, of 1] by auto
  from claim_never_leaks [OF this] obtain h1 c r h2 where "h = h1 @ (c, r) # h2" "\<not> failed r"
    "c \<in> {settled_cmd ex_processor (idempotency_key ex_packet), RedisDelete (idempotency_key ex_packet)}" by blast
  with h show ?thesis by fastforce
qed

text \<open>C20. A sealed payload pays for its own packet only.  A message that carries the encrypted key, nonce
  and ciphertext of a packet under another packet id or sender id never settles and never inserts a row,
  whoever signed it: if it brings the associated data its new header implies, its payload does not open,
  since the authentication tag does not match; if it brings any others (the original ones with which the
  payload would still decrypt, say), settlement turns it away without a command to Redis, so no idempotency
  key is spent on it.\<close>

theorem payload_is_bound_to_its_header:
  assumes "create pd (pr_crypto pr) fr ins sender sk (rsa_public (pr_crypto pr) (pr_settlement_private_key pr)) created
      = Inr p"
    and "seals_correctly (pr_crypto pr)" and "authenticates_aad (pr_crypto pr)" and "fresh_ok fr"
    and "packet_of_json_bytes (pr_validator pr) raw = Inr q"
    and "e_encrypted_key (p_envelope q) = e_encrypted_key (p_envelope p)"
    and "e_nonce (p_envelope q) = e_nonce (p_envelope p)"
    and "e_ciphertext (p_envelope q) = e_ciphertext (p_envelope p)"
    and "p_packet_id q \<noteq> p_packet_id p \<or> p_sender_id q \<noteq> p_sender_id p"
    and "path (process_body pr raw) h res"
  shows "(\<forall>row r. (InsertSettlement row, r) \<notin> set h) \<and> (\<forall>out. res = Inr out \<longrightarrow> \<not> settled out)
    \<and> (if e_aad (p_envelope q) = expected_aad q
       then open_instruction pd' (pr_crypto pr) limit q (pr_settlement_private_key pr)
              = Inl (DecryptionError ''AES-GCM authentication tag mismatch'')
       else \<forall>x \<in> set h. redis_key (fst x) = None)"
proof -
  have shut: "open_instruction pd' (pr_crypto pr) limit q (pr_settlement_private_key pr)
      = Inl (DecryptionError ''AES-GCM authentication tag mismatch'')"
    if "e_aad (p_envelope q) = expected_aad q" for pd' limit
    by (rule reheadered_fails [OF assms(1-4,6-8) that assms(9)])
  have no_insert: "(InsertSettlement row, r) \<notin> set h" for row r
  proof
    assume "(InsertSettlement row, r) \<in> set h"
    from insert_needs [OF assms(10) this] assms(5) obtain ins' now where "admissible pr q now" "opens_to pr q ins'" by auto
    then show False using shut by (simp add: admissible_def opens_to_def)
  qed
  moreover have "redis_key (fst x) = None" if "x \<in> set h" "e_aad (p_envelope q) \<noteq> expected_aad q" for x
    using redis_needs [OF assms(10) that(1)] assms(5) that(2) by (cases "redis_key (fst x)") (auto simp: admissible_def)
  moreover have "\<not> settled out" if "res = Inr out" for out
    using settled_inserts [of pr raw h out] assms(10) that no_insert by blast
  ultimately show ?thesis using shut by simp
qed

theorem payload_is_bound_to_its_header_witness:
  "\<exists>h out. path (process_body ex_processor ex_moved_raw) h (Inr out) \<and> o_code out = Some DECRYPTION_FAILED
    \<and> (claim_cmd ex_processor (idempotency_key ex_moved), Truth True) \<in> set h
    \<and> (\<forall>row r. (InsertSettlement row, r) \<notin> set h)"
proof -
  note moved = payload_is_bound_to_its_header [of reference_pydantic ex_processor ex_fresh ex_instruction "''sender-1''" "[1]"
      "utc_datetime ex_now" ex_packet ex_moved_raw ex_moved]
  have shut: "open_instruction reference_pydantic reference_crypto 16 ex_moved [2]
      = Inl (DecryptionError ''AES-GCM authentication tag mismatch'')"
    by (rule reheadered_fails [OF ex_created_create reference_seals_correctly reference_authenticates_aad ex_fresh_ok])
      (simp_all add: ex_moved_fields ex_packet_fields)
  have "\<exists>h. replay (process_body ex_processor ex_moved_raw) [Time ex_now, Truth True, Done, Time ex_now, Done, Done]
      = Some (h, Inr (rejected_outcome DECRYPTION_FAILED ''packet payload could not be decrypted''
          (Some (idempotency_key ex_moved)) (Some (p_packet_id ex_moved))))
      \<and> (claim_cmd ex_processor (idempotency_key ex_moved), Truth True) \<in> set h"
    using ex_moved_parsed ex_moved_admissible shut unfolding admissible_def fresh_at_def
    by (simp add: pipeline_defs claim_cmd_def reject_after_claim_def persist_rejection_def release_claim_def)
  then obtain h where h: "path (process_body ex_processor ex_moved_raw) h (Inr (rejected_outcome DECRYPTION_FAILED
      ''packet payload could not be decrypted'' (Some (idempotency_key ex_moved)) (Some (p_packet_id ex_moved))))"
    "(claim_cmd ex_processor (idempotency_key ex_moved), Truth True) \<in> set h"
    using replay_path by blast
  have "\<forall>row r. (InsertSettlement row, r) \<notin> set h"
    by (rule conjunct1 [OF moved])
      (use ex_created_create reference_seals_correctly reference_authenticates_aad ex_fresh_ok ex_moved_parsed h(1)
        in \<open>simp_all add: ex_moved_fields ex_packet_fields\<close>)
  moreover have "o_code (rejected_outcome DECRYPTION_FAILED d k q) = Some DECRYPTION_FAILED" for d k q by simp
  ultimately show ?thesis using h by blast
qed

text \<open>A consumer that loses the claim writes nothing to the database, neither a settlement nor a
  rejection.\<close>

lemma lost_claim_writes_nothing:
  assumes "path (process_body pr raw) h res" and "(claim_cmd pr k, r) \<in> set h" and "r \<noteq> Truth True"
    and "(c, r') \<in> set h"
  shows "\<not> writes_database c"
  using duplicate_skips_database [OF assms] by simp

lemma lost_claim_writes_nothing_witness:
  "\<exists>h out. path (process_body ex_processor ex_raw) h (Inr out) \<and> length h = 4
    \<and> \<not> writes_database (fst (last h))"
proof -
  obtain l where h: "path (process_body ex_processor ex_raw)
      [(ClockNow, Time ex_now), (claim_cmd ex_processor (idempotency_key ex_packet), Truth False),
       (RedisGet (idempotency_key ex_packet), Value None), (l, Done)]
      (Inr (rejected_outcome DUPLICATE_PACKET (claim_detail IN_FLIGHT) (Some (idempotency_key ex_packet))
         (Some (p_packet_id ex_packet))))" (is "path _ ?h _")
    using losing_path [OF ex_parsed_by ex_admissible] by auto
  have "\<not> writes_database l"
    by (rule lost_claim_writes_nothing [OF h, of "idempotency_key ex_packet" "Truth False" l Done]) simp_all
  with h show ?thesis by (intro exI [of _ ?h] exI conjI) simp_all
qed

text \<open>C12. Only infrastructure faults leave the pipeline: an exception that escapes came from the parser
  (and is not a validation error), from a clock that did not answer, or from Redis.\<close>

theorem only_infrastructure_escapes:
  assumes "path (process_body pr raw) h (Inl e)"
  shows "(packet_of_json_bytes (pr_validator pr) raw = Inl e \<and> (\<forall>es. e \<noteq> ValidationError es))
    \<or> (\<exists>r. h = [(ClockNow, r)] \<and> (\<forall>t. r \<noteq> Time t))
    \<or> (\<exists>c k. (c, Failed e) \<in> set h \<and> redis_key c = Some k)"
proof -
  have "e \<noteq> ValidationError es" if "packet_of_json_bytes (pr_validator pr) raw = Inl e" for es
    using assms that by (auto simp: process_body_def Let_def path_bind path_log_event dest: path_persist_rejection)
  then show ?thesis
    using process_body_escapes [OF assms] unfolding no_clock_def by (metis option.exhaust prod.collapse)
qed

theorem only_infrastructure_escapes_witness:
  "\<exists>c k. (c, Failed (RedisError ''down'')) \<in> set [(ClockNow, Time ex_now),
      (claim_cmd ex_processor (idempotency_key ex_packet), Failed (RedisError ''down''))] \<and> redis_key c = Some k"
proof -
  have "replay (process_body ex_processor ex_raw) [Time ex_now, Failed (RedisError ''down'')] = Some
      ([(ClockNow, Time ex_now), (claim_cmd ex_processor (idempotency_key ex_packet), Failed (RedisError ''down''))],
       Inl (RedisError ''down''))"
    using ex_parsed ex_admissible unfolding admissible_def fresh_at_def
    by (simp add: pipeline_defs claim_cmd_def)
  from only_infrastructure_escapes [OF replay_path [OF this]] show ?thesis by (auto simp: ex_parsed)
qed

section \<open>Claims, poison and metrics\<close>

text \<open>C13. Of all consumers that claim one key within the life of a claim, exactly the first gets it, however
  many there are and in whatever order of times they come.\<close>

theorem one_consumer_wins:
  assumes "redis_laws R" and "0 < claim_ttl d" and "0 < settled_ttl d"
    and "sorted (t # ts)" and "rd_get R r t k = None"
    and "\<And>u. u \<in> set ts \<Longrightarrow> u < t + claim_ttl d * us_per_second"
  shows "claim_sequence R d k (t # ts) r = CLAIMED # replicate (length ts) IN_FLIGHT"
proof -
  have "redis_service R d" using assms(1-3) by (rule redis_service.intro)
  from redis_service.sequence_one_winner [OF this] show ?thesis using assms(4-6) by blast
qed

theorem one_consumer_wins_witness:
  "claim_sequence expiring_redis default_dedupe ''k'' [ex_now, ex_now, ex_early] (\<lambda>_. None) = [CLAIMED, IN_FLIGHT, IN_FLIGHT]"
proof -
  have "claim_sequence expiring_redis default_dedupe ''k'' (ex_now # [ex_now, ex_early]) (\<lambda>_. None)
      = CLAIMED # replicate (length [ex_now, ex_early]) IN_FLIGHT"
    by (rule one_consumer_wins [OF expiring_redis_laws]) (auto simp: us_per_second_def)
  then show ?thesis by simp
qed

text \<open>C17. A message whose creation time has an offset that takes it before year 1 or after year 9999 in UTC
  is never finished: the validator's \<^verbatim>\<open>OverflowError\<close> is not a validation error, the
  pipeline raises, and no run of the service ever acknowledges the message.\<close>

theorem unrepresentable_time_is_poison:
  assumes "pd_parse_json (pr_validator pr) raw = Some (JObj kvs)" and "map_of kvs ''created_at'' = Some j"
    and "pd_datetime (pr_validator pr) JsonMode j = Some \<lparr> wall_us = wall, utcoffset_us = Some off \<rparr>"
    and "\<not> valid_instant (wall - off)" and "reachable R c pr w b"
  shows "packet_of_json_bytes (pr_validator pr) raw = Inl (OverflowError ''date value out of range'')
    \<and> raw \<notin> set (bk_acked b)"
proof -
  have "packet_of_json_bytes (pr_validator pr) raw = Inl (OverflowError ''date value out of range'')"
    using overflow_escapes [OF assms(2-4)] assms(1) by (simp add: packet_of_json_bytes_def)
  moreover from poison_not_acked [OF assms(5) this] have "raw \<notin> set (bk_acked b)" by simp
  ultimately show ?thesis by blast
qed

definition ex_bad_time :: json where "ex_bad_time = JStr ''0001-01-01T00:00:00+14:00''"

text \<open>A validator that reads the text with its offset, and the message it refuses to finish.\<close>

definition ex_offset_processor :: processor where
  "ex_offset_processor = ex_processor \<lparr> pr_validator := reference_pydantic
     \<lparr> pd_parse_json := (\<lambda>b. Some (JObj [(''created_at'', ex_bad_time)])),
       pd_datetime := (\<lambda>m j. if j = ex_bad_time then Some \<lparr> wall_us = 0, utcoffset_us = Some (14 * 3600 * us_per_second) \<rparr>
                            else pd_datetime reference_pydantic m j) \<rparr> \<rparr>"

theorem unrepresentable_time_is_poison_witness:
  "\<exists>b. reachable expiring_redis ex_consumer ex_offset_processor ex_world b \<and> bk_queue b = [ex_raw] \<and> ex_raw \<notin> set (bk_acked b)"
proof -
  let ?b = "(idle_broker ex_world) \<lparr> bk_queue := [ex_raw], bk_published := [ex_raw] \<rparr>"
  have r: "reachable expiring_redis ex_consumer ex_offset_processor ex_world ?b"
    using reachable_step [OF reachable_start step.publish [where m = ex_raw]] by (simp add: idle_broker_def)
  have "ex_raw \<notin> set (bk_acked ?b)"
    using unrepresentable_time_is_poison [OF _ _ _ _ r, of ex_raw "[(''created_at'', ex_bad_time)]" ex_bad_time
        0 "14 * 3600 * us_per_second"]
    by (simp add: ex_offset_processor_def valid_instant_def us_per_second_def)
  with r show ?thesis by (intro exI [of _ ?b]) simp
qed

text \<open>The counters account for the outcomes: after any sequence of outcomes the settled counter is the
  number of settled ones, the rejected total the number of the others that carry a code, and the
  duplicate counter the number of duplicates among them.\<close>

lemma metrics_account_for_outcomes:
  "m_settled (foldl record_outcome empty_metrics outs) = int (length (filter settled outs))
   \<and> rejected_total (foldl record_outcome empty_metrics outs)
      = int (length (filter (\<lambda>out. \<not> settled out \<and> o_code out \<noteq> None) outs))
   \<and> m_duplicates (foldl record_outcome empty_metrics outs)
      = int (length (filter (\<lambda>out. \<not> settled out \<and> o_code out = Some DUPLICATE_PACKET) outs))"
  using recorded_metrics [of empty_metrics outs] by (simp add: empty_metrics_def rejected_total_def)

section \<open>From the device to the ledger\<close>

text \<open>C3. A payment travels: when the device is told its packet was handed off on a ring of relays, the
  broker's queue has taken one message more, and a settlement service that is set up for this
  sender and gets that message while the packet is fresh adds to its table exactly the row of the
  instruction, with the hops of the ring counted.\<close>

theorem payment_travels_to_the_ledger:
  assumes "create pd c fr ins sender sk (rsa_public c rk) created = Inr p" and "wf_instruction ins" and "fresh_ok fr"
    and "matched c sk rk pr" and "ring nw target limit" and "nw_publish nw = rabbit_publish_at"
    and "nw_crypto nw = c" and "nw_sender_key nw = ed25519_public c sk" and "nw_pydantic nw = pr_validator pr"
    and "nw_relays nw url \<noteq> None" and "max 1 target \<le> limit" and "max 1 target < n" and "int (max 1 target) < 2 ^ 31"
    and "run (node_exec now rabbit_publish_at (carry nw n)) (hand_off (pr_validator pr) depth trunc url p) s = (Inr (Inr resp), s')"
    and "redis_laws R" and "0 < claim_ttl (pr_dedupe pr)" and "0 < settled_ttl (pr_dedupe pr)"
    and "\<And>t k. rd_get R (w_redis w) t k = None" and "w_now w \<le> t" and "fresh_at pr p t"
    and "\<And>q. q \<in> set (ledger_of w) \<Longrightarrow> s_idempotency_key q \<noteq> idempotency_key p \<and> s_packet_id q \<noteq> p_packet_id p"
  shows "\<exists>raw row. ab_queues (snd s') (rp_queue (fst s')) = ab_queues (snd s) (rp_queue (fst s)) @ [(raw, ps_idempotency_key resp)]
    \<and> ledger_of (deliver R pr w (t, raw)) = ledger_of w @ [row]
    \<and> s_idempotency_key row = idempotency_key p \<and> s_payer_id row = i_payer_id ins \<and> s_payee_id row = i_payee_id ins
    \<and> s_amount_minor row = i_amount_minor ins \<and> s_currency row = i_currency ins \<and> s_hop_count row = int (max 1 target)"
proof -
  have p: "wf_packet p" "hop_count p = 0" using create_Inr(4,7) [OF assms(1)] by (simp_all add: hop_count_def)
  have v: "verify (nw_crypto nw) p (nw_sender_key nw) = None"
    using create_verifies [OF assms(1)] assms(4,7,8) by (simp add: matched_def)
  have k: "max 1 target = max 1 (target - hop_count p)" "hop_count p + max 1 target \<le> limit" using p(2) assms(11) by simp_all
  from rabbit.hand_off_outcome [OF assms(5,6) p(1) v assms(10) k assms(12) assms(14) [folded assms(9)]]
  obtain hs where hs: "ps_idempotency_key resp = idempotency_key p" "length hs = max 1 target" "list_all wf_hop hs"
    "ab_queues (snd s') (rp_queue (fst s')) = ab_queues (snd s) (rp_queue (fst s))
       @ [(packet_to_json_bytes (pr_validator pr) (foldl append_hop p hs), idempotency_key p)]"
    by (auto simp: assms(9))
  let ?p = "foldl append_hop p hs" and ?row = "settlement_of (foldl append_hop p hs) ins (idempotency_key p)"
  note arrived = arrived_row [OF assms(1-4) hs(3) assms(20)]
  have "redis_service R (pr_dedupe pr)" using assms(15-17) by (rule redis_service.intro)
  moreover have "int (hop_count ?p) < 2 ^ 31" using hs(2) p(2) assms(13) by (simp add: foldl_append_hop)
  moreover have "\<not> list_ex (same_payment ?row) (ledger_of w)"
    using assms(21) by (auto simp: list_ex_iff same_payment_def settlement_of_def foldl_append_hop)
  ultimately have "ledger_of (deliver R pr w (t, packet_to_json_bytes (pr_validator pr) ?p)) = ledger_of w @ [?row]"
    using redis_service.first_delivery [OF _ refl arrived(1) _ arrived(2)] assms(18,19) by blast
  then show ?thesis
    using hs(1,2,4) p(2)
    by (intro exI [of _ "packet_to_json_bytes (pr_validator pr) ?p"] exI [of _ ?row]) (simp add: settlement_of_def foldl_append_hop)
qed

theorem payment_travels_to_the_ledger_witness:
  "\<exists>raw row. ledger_of (deliver expiring_redis ex_processor ex_world (ex_early, raw)) = [row]
    \<and> s_amount_minor row = 2500 \<and> s_hop_count row = 2"
proof -
  obtain resp s' where run: "run (node_exec ex_now rabbit_publish_at (carry ex_network 4))
      (hand_off (pr_validator ex_processor) 16 (\<lambda>_. Inl (OtherError ''float'')) ex_url ex_packet) ex_publisher
    = (Inr (Inr resp), s')"
    using ex_handed_off by auto
  have "\<exists>raw row. ab_queues (snd s') (rp_queue (fst s')) = ab_queues (snd ex_publisher) (rp_queue (fst ex_publisher))
        @ [(raw, ps_idempotency_key resp)]
    \<and> ledger_of (deliver expiring_redis ex_processor ex_world (ex_early, raw)) = ledger_of ex_world @ [row]
    \<and> s_idempotency_key row = idempotency_key ex_packet \<and> s_payer_id row = i_payer_id ex_instruction
    \<and> s_payee_id row = i_payee_id ex_instruction \<and> s_amount_minor row = i_amount_minor ex_instruction
    \<and> s_currency row = i_currency ex_instruction \<and> s_hop_count row = int (max 1 2)"
    by (rule payment_travels_to_the_ledger [OF ex_created_create ex_instruction_wf ex_fresh_ok ex_matched ex_ring _ _ _ _ _ _ _ _ run
          expiring_redis_laws])
      (simp_all add: ex_fresh_at us_per_second_def ledger_of_def empty_tables_def)
  moreover have "ledger_of ex_world = []" by (simp add: ledger_of_def empty_tables_def)
  moreover have "i_amount_minor ex_instruction = 2500" by (simp add: ex_instruction_def)
  ultimately show ?thesis by auto
qed

end
